(* ===== verification/Prelude.thy ===== *)
theory Prelude
  imports Complex_Main "HOL-Library.AList" "HOL-Library.Sublist"
begin

text \<open>
  Shared vocabulary of the development: results that may carry a thrown error, the
  insertion-ordered \<open>Map\<close> and \<open>Set\<close> objects of the language, interval facts about
  lists that are read by index, and the named collections the component theories extend.
\<close>

named_theorems js_simps \<open>evaluation of accessors of untrusted values\<close>
named_theorems result_simps \<open>evaluation of computations that may throw\<close>
named_theorems tile_simps \<open>texts that are cut into consecutive pieces\<close>

section \<open>Computations that may throw\<close>

text \<open>
  A JavaScript function that can throw returns \<open>Inl\<close> of the thrown error or \<open>Inr\<close> of
  its value. \<open>bindE\<close> is sequencing: the first throw ends the computation.
\<close>

fun bindE :: "'e + 'a \<Rightarrow> ('a \<Rightarrow> 'e + 'b) \<Rightarrow> 'e + 'b" where
  "bindE (Inl e) f = Inl e"
| "bindE (Inr x) f = f x"

fun mapE :: "('a \<Rightarrow> 'e + 'b) \<Rightarrow> 'a list \<Rightarrow> 'e + 'b list" where
  "mapE f [] = Inr []"
| "mapE f (x # xs) = bindE (f x) (\<lambda>y. bindE (mapE f xs) (\<lambda>ys. Inr (y # ys)))"

definition guardE :: "bool \<Rightarrow> 'e \<Rightarrow> 'e + unit" where
  "guardE b e = (if b then Inr () else Inl e)"

lemma bindE_Inr_iff [result_simps]: "bindE m f = Inr y \<longleftrightarrow> (\<exists>x. m = Inr x \<and> f x = Inr y)"
  by (cases m) auto

lemma guardE_Inr_iff [result_simps]: "guardE b e = Inr u \<longleftrightarrow> b"
  by (simp add: guardE_def)

lemma bindE_assoc: "bindE (bindE m f) g = bindE m (\<lambda>x. bindE (f x) g)"
  by (cases m) auto

lemma bindE_cong: "m = m' \<Longrightarrow> (\<And>x. m' = Inr x \<Longrightarrow> f x = g x) \<Longrightarrow> bindE m f = bindE m' g"
  by (cases m') auto

lemma mapE_Inr_iff: "mapE f xs = Inr ys \<longleftrightarrow> list_all2 (\<lambda>x y. f x = Inr y) xs ys"
proof (induction xs arbitrary: ys)
  case Nil
  then show ?case by auto
next
  case (Cons x xs)
  then show ?case by (cases ys) (auto simp: result_simps list_all2_Cons1)
qed

lemma mapE_length: "mapE f xs = Inr ys \<Longrightarrow> length ys = length xs"
  by (simp add: mapE_Inr_iff list_all2_lengthD)

lemma mapE_set: "mapE f xs = Inr ys \<Longrightarrow> y \<in> set ys \<Longrightarrow> \<exists>x \<in> set xs. f x = Inr y"
  by (induction xs arbitrary: ys) (auto simp: result_simps)

lemma mapE_map: "(\<And>x. x \<in> set xs \<Longrightarrow> f x = Inr (g x)) \<Longrightarrow> mapE f xs = Inr (map g xs)"
  by (induction xs) auto

text \<open>A \<open>for\<close> loop over a list whose body updates a state and may throw.\<close>

fun foldE :: "('a \<Rightarrow> 's \<Rightarrow> 'e + 's) \<Rightarrow> 'a list \<Rightarrow> 's \<Rightarrow> 'e + 's" where
  "foldE f [] s = Inr s"
| "foldE f (x # xs) s = bindE (f x s) (foldE f xs)"

lemma foldE_Cons_Inr [result_simps]: "foldE f (x # xs) s = Inr t \<longleftrightarrow> (\<exists>u. f x s = Inr u \<and> foldE f xs u = Inr t)"
  by (simp add: bindE_Inr_iff)

lemma foldE_invariant:
  "foldE f xs s = Inr t \<Longrightarrow> P s \<Longrightarrow> (\<And>x s t. x \<in> set xs \<Longrightarrow> P s \<Longrightarrow> f x s = Inr t \<Longrightarrow> P t) \<Longrightarrow> P t"
  by (induction xs arbitrary: s) (auto simp: bindE_Inr_iff)

text \<open>The code of the first check that fails.\<close>

fun first_failure :: "(bool \<times> 'e) list \<Rightarrow> 'e + unit" where
  "first_failure [] = Inr ()"
| "first_failure ((failed, e) # checks) = (if failed then Inl e else first_failure checks)"

lemma first_failure_Inr [result_simps]: "first_failure checks = Inr u \<longleftrightarrow> (\<forall>(failed, e) \<in> set checks. \<not> failed)"
  by (induction checks rule: first_failure.induct) simp_all

section \<open>Insertion-ordered maps and sets\<close>

text \<open>
  A \<open>Map\<close> iterates in insertion order and a \<open>set\<close> on a present key replaces the value in
  place, which is \<^const>\<open>AList.update\<close>; \<open>get\<close> is \<^const>\<open>map_of\<close>. A \<open>Set\<close> of
  primitives is a duplicate-free list to which \<open>add\<close> appends.
\<close>

definition map_put :: "'k \<Rightarrow> 'v \<Rightarrow> ('k \<times> 'v) list \<Rightarrow> ('k \<times> 'v) list" where
  "map_put k v m = AList.update k v m"

definition set_add :: "'a \<Rightarrow> 'a list \<Rightarrow> 'a list" where
  "set_add x xs = (if x \<in> set xs then xs else xs @ [x])"

lemma map_of_put [simp]: "map_of (map_put k v m) = (map_of m)(k \<mapsto> v)"
  by (simp add: map_put_def update_conv')

lemma length_map_put:
  "length (map_put k v m) = (if map_of m k = None then Suc (length m) else length m)"
  by (induction m) (auto simp: map_put_def)

lemma length_map_put_le: "length (map_put k v m) \<le> Suc (length m)"
  by (simp add: length_map_put)

lemma distinct_map_put [simp]: "distinct (map fst m) \<Longrightarrow> distinct (map fst (map_put k v m))"
  by (simp add: map_put_def distinct_update)

lemma set_fst_map_put [simp]: "fst ` set (map_put k v m) = insert k (fst ` set m)"
  by (induction m) (auto simp: map_put_def)

lemma map_put_new: "map_of m k = None \<Longrightarrow> map_put k v m = m @ [(k, v)]"
  by (induction m) (auto simp: map_put_def split: if_splits)

lemma map_put_keys: "map_of m k \<noteq> None \<Longrightarrow> map fst (map_put k v m) = map fst m"
  by (induction m) (auto simp: map_put_def split: if_splits)

lemma set_map_put: "set (map_put k v m) \<subseteq> insert (k, v) (set m)"
  by (induction m) (auto simp: map_put_def)

lemma set_set_add [simp]: "set (set_add x xs) = insert x (set xs)"
  by (auto simp: set_add_def)

lemma distinct_set_add [simp]: "distinct (set_add x xs) = distinct xs"
  by (auto simp: set_add_def)

lemma set_add_not_Nil [simp]: "set_add x xs \<noteq> []"
  by (auto simp: set_add_def)

lemma prefix_set_add: "prefix xs (set_add x xs)"
  by (simp add: set_add_def)

lemma length_set_add: "length (set_add x xs) = (if x \<in> set xs then length xs else Suc (length xs))"
  by (simp add: set_add_def)

section \<open>Slices\<close>

text \<open>\<open>xs.slice(i, j)\<close> for \<open>0 \<le> i\<close> and \<open>0 \<le> j\<close>: empty when \<open>j \<le> i\<close>, clipped at the end.\<close>

definition slice :: "nat \<Rightarrow> nat \<Rightarrow> 'a list \<Rightarrow> 'a list" where
  "slice i j xs = take (j - i) (drop i xs)"

lemma length_slice [simp]: "length (slice i j xs) = min j (length xs) - i"
  by (auto simp: slice_def)

lemma slice_empty [simp]: "j \<le> i \<Longrightarrow> slice i j xs = []"
  by (simp add: slice_def)

lemma slice_all [simp]: "length xs \<le> j \<Longrightarrow> slice 0 j xs = xs"
  by (simp add: slice_def)

lemma slice_append_slice [tile_simps]:
  "i \<le> j \<Longrightarrow> j \<le> k \<Longrightarrow> slice i j xs @ slice j k xs = slice i k xs"
proof -
  assume "i \<le> j" "j \<le> k"
  then have "drop j xs = drop (j - i) (drop i xs)" and "k - i = (j - i) + (k - j)" by simp_all
  then show ?thesis unfolding slice_def by (simp only: take_add)
qed

lemma slice_drop_end [tile_simps]: "length xs \<le> j \<Longrightarrow> slice i j xs = drop i xs"
  by (simp add: slice_def)

lemma slice_append_drop [tile_simps]: "i \<le> j \<Longrightarrow> slice i j xs @ drop j xs = drop i xs"
proof -
  assume "i \<le> j"
  then have "drop j xs = drop (j - i) (drop i xs)" by simp
  then show ?thesis unfolding slice_def by (simp only: append_take_drop_id)
qed

lemma slice_append_left [tile_simps]: "j \<le> length xs \<Longrightarrow> slice i j (xs @ ys) = slice i j xs"
  by (cases "i \<le> j") (simp_all add: slice_def)

lemma slice_append_right [tile_simps]: "length xs + length ys \<le> j \<Longrightarrow> slice (length xs) j (xs @ ys) = ys"
  by (simp add: slice_def)

lemma slice_nth: "i + n < j \<Longrightarrow> i + n < length xs \<Longrightarrow> slice i j xs ! n = xs ! (i + n)"
  by (simp add: slice_def)

lemma slice_single: "i < length xs \<Longrightarrow> slice i (Suc i) xs = [xs ! i]"
  by (simp add: slice_def take_Suc_conv_app_nth[of 0] hd_drop_conv_nth take_Suc)

lemma slice_map: "slice i j (map f xs) = map f (slice i j xs)"
  by (simp add: slice_def take_map drop_map)

lemma slice_Nil [simp]: "slice i j [] = []"
  by (simp add: slice_def)

lemma set_slice: "set (slice i j xs) \<subseteq> set xs"
  by (auto simp: slice_def dest: in_set_takeD in_set_dropD)

section \<open>Counting and searching\<close>

text \<open>The first index at or after \<open>i\<close> where a predicate holds, \<open>None\<close> where none does.\<close>

fun find_from :: "('a \<Rightarrow> bool) \<Rightarrow> 'a list \<Rightarrow> nat \<Rightarrow> nat option" where
  "find_from p [] i = None"
| "find_from p (x # xs) 0 = (if p x then Some 0 else map_option Suc (find_from p xs 0))"
| "find_from p (x # xs) (Suc i) = map_option Suc (find_from p xs i)"

lemma find_from_Some:
  "find_from p xs i = Some j \<longleftrightarrow> i \<le> j \<and> j < length xs \<and> p (xs ! j) \<and> (\<forall>k. i \<le> k \<and> k < j \<longrightarrow> \<not> p (xs ! k))"
proof (induction p xs i arbitrary: j rule: find_from.induct)
  case (1 p i)
  then show ?case by simp
next
  case (2 p x xs)
  show ?case
  proof (cases j)
    case 0
    then show ?thesis using 2 by auto
  next
    case (Suc m)
    have "(\<forall>k<Suc m. \<not> p ((x # xs) ! k)) \<longleftrightarrow> \<not> p x \<and> (\<forall>k<m. \<not> p (xs ! k))"
      by (auto simp: nth_Cons split: nat.splits)
    then show ?thesis using 2 Suc by auto
  qed
next
  case (3 p x xs i)
  have "(\<forall>k. Suc i \<le> k \<and> k < Suc m \<longrightarrow> \<not> p ((x # xs) ! k)) \<longleftrightarrow>
        (\<forall>k. i \<le> k \<and> k < m \<longrightarrow> \<not> p (xs ! k))" for m
    by (auto simp: nth_Cons split: nat.splits)
  then show ?case using 3 by (cases j) auto
qed

lemma find_from_None: "find_from p xs i = None \<longleftrightarrow> (\<forall>k. i \<le> k \<and> k < length xs \<longrightarrow> \<not> p (xs ! k))"
proof (induction p xs i rule: find_from.induct)
  case (3 p x xs i)
  then show ?case by (auto simp: nth_Cons split: nat.splits)
next
  case (2 p x xs)
  then show ?case by (auto simp: nth_Cons split: nat.splits)
qed auto

end
