(* ===== verification/JsValue.thy ===== *)
theory JsValue
  imports Prelude
begin

text \<open>
  Values that cross a trust boundary as data: parsed JSON, messages and report documents.
  The capture-completeness tools read them with \<open>typeof\<close>, optional chaining and strict
  equality, so the model keeps one dynamic type and translates those reads one by one.
  Characters of \<open>string\<close> stand for code units; these tools only compare strings, test
  prefixes and measure them.
\<close>

section \<open>Numbers and values\<close>

text \<open>A double is a finite rational or one of the three non-finite values; both zeros are \<open>Fin 0\<close>.\<close>

datatype jsnum = Fin rat | PosInf | NegInf | NaN

datatype js =
    Undef
  | Null
  | Bool bool
  | Num jsnum
  | Str string
  | Arr "js list"
  | Obj "(string \<times> js) list"

text \<open>
  Property read. A missing property is \<open>undefined\<close>, and so is a property of a primitive or
  an array (no code below reads an inherited property through it). This is also what
  optional chaining \<open>v?.k\<close> yields.
\<close>

fun getp :: "js \<Rightarrow> string \<Rightarrow> js" where
  "getp (Obj kvs) k = (case map_of kvs k of Some v \<Rightarrow> v | None \<Rightarrow> Undef)"
| "getp _ k = Undef"

definition has_own :: "js \<Rightarrow> string \<Rightarrow> bool" where
  "has_own v k = (case v of Obj kvs \<Rightarrow> map_of kvs k \<noteq> None | _ \<Rightarrow> False)"

fun truthy :: "js \<Rightarrow> bool" where
  "truthy Undef = False"
| "truthy Null = False"
| "truthy (Bool b) = b"
| "truthy (Num n) = (case n of Fin r \<Rightarrow> r \<noteq> 0 | NaN \<Rightarrow> False | _ \<Rightarrow> True)"
| "truthy (Str s) = (s \<noteq> [])"
| "truthy (Arr _) = True"
| "truthy (Obj _) = True"

text \<open>
  An unguarded read \<open>v.k\<close> throws a \<open>TypeError\<close> on \<open>undefined\<close> and \<open>null\<close>; the other
  errors of these tools are \<open>Error(code)\<close>.
\<close>

datatype js_error = TypeError | JsError string

definition readp :: "js \<Rightarrow> string \<Rightarrow> js_error + js" where
  "readp v k = (if v = Undef \<or> v = Null then Inl TypeError else Inr (getp v k))"

text \<open>
  Strict equality. Two objects that reach a comparison from different documents are never
  the same reference, and \<open>NaN\<close> differs from itself.
\<close>

fun strict_eq :: "js \<Rightarrow> js \<Rightarrow> bool" where
  "strict_eq Undef Undef = True"
| "strict_eq Null Null = True"
| "strict_eq (Bool a) (Bool b) = (a = b)"
| "strict_eq (Num a) (Num b) = (a = b \<and> a \<noteq> NaN)"
| "strict_eq (Str a) (Str b) = (a = b)"
| "strict_eq _ _ = False"

text \<open>\<open>[...].includes(v)\<close> for a list of string constants.\<close>

definition one_of :: "string list \<Rightarrow> js \<Rightarrow> bool" where
  "one_of ss v = (case v of Str s \<Rightarrow> s \<in> set ss | _ \<Rightarrow> False)"

definition nullish :: "js \<Rightarrow> bool" where
  "nullish v = (v = Undef \<or> v = Null)"

definition coalesce :: "js \<Rightarrow> js \<Rightarrow> js" where
  "coalesce v d = (if nullish v then d else v)"

definition is_str :: "js \<Rightarrow> bool" where
  "is_str v = (case v of Str _ \<Rightarrow> True | _ \<Rightarrow> False)"

definition is_bool :: "js \<Rightarrow> bool" where
  "is_bool v = (case v of Bool _ \<Rightarrow> True | _ \<Rightarrow> False)"

definition is_arr :: "js \<Rightarrow> bool" where
  "is_arr v = (case v of Arr _ \<Rightarrow> True | _ \<Rightarrow> False)"

text \<open>\<open>v !== null && typeof v === 'object' && !Array.isArray(v)\<close>.\<close>

definition is_obj :: "js \<Rightarrow> bool" where
  "is_obj v = (case v of Obj _ \<Rightarrow> True | _ \<Rightarrow> False)"

definition is_finite :: "js \<Rightarrow> bool" where
  "is_finite v = (case v of Num (Fin _) \<Rightarrow> True | _ \<Rightarrow> False)"

definition rat_is_int :: "rat \<Rightarrow> bool" where
  "rat_is_int r = (of_int \<lfloor>r\<rfloor> = r)"

definition is_integer :: "js \<Rightarrow> bool" where
  "is_integer v = (case v of Num (Fin r) \<Rightarrow> rat_is_int r | _ \<Rightarrow> False)"

definition max_safe :: rat where
  "max_safe = 9007199254740991"

definition is_safe_integer :: "js \<Rightarrow> bool" where
  "is_safe_integer v = (case v of Num (Fin r) \<Rightarrow> rat_is_int r \<and> \<bar>r\<bar> \<le> max_safe | _ \<Rightarrow> False)"

text \<open>The finite numeric content, for reads the code has guarded; \<open>0\<close> otherwise.\<close>

definition num_of :: "js \<Rightarrow> rat" where
  "num_of v = (case v of Num (Fin r) \<Rightarrow> r | _ \<Rightarrow> 0)"

definition str_of :: "js \<Rightarrow> string" where
  "str_of v = (case v of Str s \<Rightarrow> s | _ \<Rightarrow> [])"

definition arr_of :: "js \<Rightarrow> js list" where
  "arr_of v = (case v of Arr xs \<Rightarrow> xs | _ \<Rightarrow> [])"

definition int_js :: "nat \<Rightarrow> js" where
  "int_js n = Num (Fin (of_nat n))"

definition str_opt_js :: "string option \<Rightarrow> js" where
  "str_opt_js x = (case x of None \<Rightarrow> Null | Some s \<Rightarrow> Str s)"

lemmas js_class_defs = is_str_def is_bool_def is_arr_def is_obj_def is_finite_def is_integer_def
  is_safe_integer_def one_of_def nullish_def coalesce_def has_own_def

lemma js_class_simps [simp, js_simps]:
  "is_str (Str s)" "\<not> is_str Undef" "\<not> is_str Null" "\<not> is_str (Bool b)" "\<not> is_str (Num n)"
  "\<not> is_str (Arr xs)" "\<not> is_str (Obj kvs)"
  "is_bool (Bool b)" "\<not> is_bool Undef" "\<not> is_bool Null" "\<not> is_bool (Str s)" "\<not> is_bool (Num n)"
  "\<not> is_bool (Arr xs)" "\<not> is_bool (Obj kvs)"
  "is_arr (Arr xs)" "\<not> is_arr Undef" "\<not> is_arr Null" "\<not> is_arr (Bool b)" "\<not> is_arr (Num n)"
  "\<not> is_arr (Str s)" "\<not> is_arr (Obj kvs)"
  "is_obj (Obj kvs)" "\<not> is_obj Undef" "\<not> is_obj Null" "\<not> is_obj (Bool b)" "\<not> is_obj (Num n)"
  "\<not> is_obj (Str s)" "\<not> is_obj (Arr xs)"
  by (simp_all add: js_class_defs)

lemma num_class_simps [simp, js_simps]:
  "is_finite (Num (Fin r))" "\<not> is_finite Undef" "\<not> is_finite Null" "\<not> is_finite (Str s)"
  "\<not> is_finite (Bool b)" "\<not> is_finite (Arr xs)" "\<not> is_finite (Obj kvs)"
  "\<not> is_finite (Num NaN)" "\<not> is_finite (Num PosInf)" "\<not> is_finite (Num NegInf)"
  "is_integer (Num (Fin r)) = rat_is_int r" "\<not> is_integer Undef" "\<not> is_integer Null"
  "\<not> is_integer (Str s)" "\<not> is_integer (Bool b)" "\<not> is_integer (Arr xs)" "\<not> is_integer (Obj kvs)"
  "is_safe_integer (Num (Fin r)) = (rat_is_int r \<and> \<bar>r\<bar> \<le> max_safe)" "\<not> is_safe_integer Undef"
  "\<not> is_safe_integer Null" "\<not> is_safe_integer (Str s)" "\<not> is_safe_integer (Bool b)"
  "\<not> is_safe_integer (Arr xs)" "\<not> is_safe_integer (Obj kvs)"
  by (simp_all add: js_class_defs)

lemma content_simps [simp, js_simps]:
  "num_of (Num (Fin r)) = r" "str_of (Str s) = s" "arr_of (Arr xs) = xs"
  "nullish Undef" "nullish Null" "\<not> nullish (Str s)" "\<not> nullish (Num n)" "\<not> nullish (Bool b)"
  "\<not> nullish (Arr xs)" "\<not> nullish (Obj kvs)"
  "one_of ss (Str s) = (s \<in> set ss)" "\<not> one_of ss Undef" "\<not> one_of ss Null" "\<not> one_of ss (Bool b)"
  "\<not> one_of ss (Num n)" "\<not> one_of ss (Arr xs)" "\<not> one_of ss (Obj kvs)"
  by (simp_all add: num_of_def str_of_def arr_of_def nullish_def one_of_def)

lemma is_strE: "is_str v \<Longrightarrow> (\<And>s. v = Str s \<Longrightarrow> P) \<Longrightarrow> P"
  by (cases v) auto

lemma is_arrE: "is_arr v \<Longrightarrow> (\<And>xs. v = Arr xs \<Longrightarrow> P) \<Longrightarrow> P"
  by (cases v) auto

lemma is_objE: "is_obj v \<Longrightarrow> (\<And>kvs. v = Obj kvs \<Longrightarrow> P) \<Longrightarrow> P"
  by (cases v) auto

lemma is_boolE: "is_bool v \<Longrightarrow> (\<And>b. v = Bool b \<Longrightarrow> P) \<Longrightarrow> P"
  by (cases v) auto

lemma is_finiteE: "is_finite v \<Longrightarrow> (\<And>r. v = Num (Fin r) \<Longrightarrow> P) \<Longrightarrow> P"
  by (auto simp: is_finite_def split: js.splits jsnum.splits)

lemma is_safe_integerE:
  "is_safe_integer v \<Longrightarrow> (\<And>r. v = Num (Fin r) \<Longrightarrow> rat_is_int r \<Longrightarrow> \<bar>r\<bar> \<le> max_safe \<Longrightarrow> P) \<Longrightarrow> P"
  by (auto simp: is_safe_integer_def split: js.splits jsnum.splits)

lemma strict_eq_Str_iff [simp]: "strict_eq v (Str s) \<longleftrightarrow> v = Str s" "strict_eq (Str s) v \<longleftrightarrow> v = Str s"
  by (cases v; auto)+

lemma strict_eq_Null_iff [simp]: "strict_eq v Null \<longleftrightarrow> v = Null" "strict_eq Null v \<longleftrightarrow> v = Null"
  by (cases v; auto)+

lemma strict_eq_Bool_iff [simp]: "strict_eq v (Bool b) \<longleftrightarrow> v = Bool b" "strict_eq (Bool b) v \<longleftrightarrow> v = Bool b"
  by (cases v; auto)+

lemma strict_eq_Fin_iff [simp]:
  "strict_eq v (Num (Fin r)) \<longleftrightarrow> v = Num (Fin r)" "strict_eq (Num (Fin r)) v \<longleftrightarrow> v = Num (Fin r)"
  by (cases v; auto)+

lemma strict_eq_sym: "strict_eq a b = strict_eq b a"
  by (cases a; cases b) auto

lemma strict_eq_imp_eq: "strict_eq a b \<Longrightarrow> a = b"
  by (cases a; cases b) auto

lemma rat_is_int_of_nat [simp]: "rat_is_int (of_nat n)"
  by (simp add: rat_is_int_def)

lemma rat_is_int_of_int [simp]: "rat_is_int (of_int n)"
  by (simp add: rat_is_int_def)

lemma rat_is_int_numeral [simp]: "rat_is_int (numeral n)" "rat_is_int 0" "rat_is_int 1"
  by (simp_all add: rat_is_int_def)

section \<open>Composite keys\<close>

text \<open>
  The tools key their maps by \<open>JSON.stringify([a, b, c])\<close>. Inside an array \<open>JSON.stringify\<close>
  writes \<open>undefined\<close> and the non-finite numbers as \<open>null\<close> and drops undefined members of
  objects; otherwise different data has different text. Two keys are therefore the same
  string exactly when the normal forms below are equal, and the model uses the normal
  forms as keys.
\<close>

fun json_norm :: "js \<Rightarrow> js" where
  "json_norm Undef = Null"
| "json_norm (Num n) = (case n of Fin r \<Rightarrow> Num (Fin r) | _ \<Rightarrow> Null)"
| "json_norm (Arr xs) = Arr (map json_norm xs)"
| "json_norm (Obj kvs) = Obj (map (\<lambda>(k, v). (k, json_norm v)) (filter (\<lambda>(k, v). v \<noteq> Undef) kvs))"
| "json_norm v = v"

lemma json_norm_Str_iff [simp]: "json_norm v = Str s \<longleftrightarrow> v = Str s"
  by (cases v) (auto split: jsnum.splits)

lemma json_norm_Fin [simp]: "json_norm (Num (Fin r)) = Num (Fin r)"
  by simp

section \<open>Conversion to text\<close>

text \<open>
  The text a template literal, \<open>RegExp.test\<close> or \<open>new URL\<close> makes of a value. How a number
  prints is an argument. An object with a member \<open>toString\<close>, which as data is not a
  function, cannot be converted and throws; other objects give \<open>[object Object]\<close>. An array
  joins the texts of its elements with commas, nullish elements being empty.
\<close>

fun join_with :: "string \<Rightarrow> string list \<Rightarrow> string" where
  "join_with sep [] = []"
| "join_with sep [x] = x"
| "join_with sep (x # y # xs) = x @ sep @ join_with sep (y # xs)"

fun to_text :: "(jsnum \<Rightarrow> string) \<Rightarrow> js \<Rightarrow> js_error + string"
  and to_texts :: "(jsnum \<Rightarrow> string) \<Rightarrow> js list \<Rightarrow> js_error + string list" where
  "to_text nt Undef = Inr ''undefined''"
| "to_text nt Null = Inr ''null''"
| "to_text nt (Bool b) = Inr (if b then ''true'' else ''false'')"
| "to_text nt (Num n) = Inr (nt n)"
| "to_text nt (Str s) = Inr s"
| "to_text nt (Arr xs) = bindE (to_texts nt xs) (\<lambda>ts. Inr (join_with '','' ts))"
| "to_text nt (Obj kvs) = (if map_of kvs ''toString'' \<noteq> None then Inl TypeError else Inr ''[object Object]'')"
| "to_texts nt [] = Inr []"
| "to_texts nt (x # xs) =
     bindE (if x = Undef \<or> x = Null then Inr [] else to_text nt x)
       (\<lambda>t. bindE (to_texts nt xs) (\<lambda>ts. Inr (t # ts)))"

end
