(* ===== verification/Machine.thy ===== *)
theory Machine
  imports Prelude
begin

text \<open>
  The contracts shared by the stateful components. A component is a step function
  \<open>step :: 'op \<Rightarrow> 's \<Rightarrow> 's\<close> (one operation with its arguments) and its runs are
  \<open>fold step ops s\<close>. The components interpret these locales on their own operations.
\<close>

locale machine =
  fixes step :: "'op \<Rightarrow> 's \<Rightarrow> 's"
    and inv :: "'s \<Rightarrow> bool"
  assumes step_inv: "inv s \<Longrightarrow> inv (step x s)"
begin

lemma run_inv: "inv s \<Longrightarrow> inv (fold step ops s)"
  by (induction ops arbitrary: s) (auto intro: step_inv)

end

text \<open>Once latched, the observable part of the state never changes again.\<close>

locale latching_machine = machine +
  fixes latched :: "'s \<Rightarrow> bool"
    and view :: "'s \<Rightarrow> 'v"
  assumes latched_step: "inv s \<Longrightarrow> latched s \<Longrightarrow> latched (step x s)"
    and latched_view: "inv s \<Longrightarrow> latched s \<Longrightarrow> view (step x s) = view s"
begin

lemma run_latched: "inv s \<Longrightarrow> latched s \<Longrightarrow> latched (fold step ops s)"
  by (induction ops arbitrary: s) (auto intro: latched_step step_inv)

lemma run_view: "inv s \<Longrightarrow> latched s \<Longrightarrow> view (fold step ops s) = view s"
  by (induction ops arbitrary: s) (simp_all add: latched_view latched_step step_inv)

end

text \<open>A log that only grows at its end.\<close>

locale appending_machine = machine +
  fixes acc :: "'s \<Rightarrow> 'e list"
  assumes acc_step: "inv s \<Longrightarrow> prefix (acc s) (acc (step x s))"
begin

lemma run_prefix: "inv s \<Longrightarrow> prefix (acc s) (acc (fold step ops s))"
proof (induction ops arbitrary: s)
  case (Cons x ops)
  have "prefix (acc s) (acc (step x s))" by (rule acc_step [OF Cons.prems])
  also have "prefix (acc (step x s)) (acc (fold step ops (step x s)))"
    by (rule Cons.IH [OF step_inv [OF Cons.prems]])
  finally show ?case by simp
qed simp

lemma run_Nil: "inv s \<Longrightarrow> acc (fold step ops s) = [] \<Longrightarrow> acc s = []"
  using run_prefix [of s ops] by simp

end

text \<open>A counter of what was asked for equals what the state accounts for.\<close>

locale accounting_machine = machine +
  fixes cost :: "'op \<Rightarrow> nat"
    and spent :: "'s \<Rightarrow> nat"
  assumes spent_step: "inv s \<Longrightarrow> spent (step x s) = spent s + cost x"
begin

lemma run_spent: "inv s \<Longrightarrow> spent (fold step ops s) = spent s + sum_list (map cost ops)"
  by (induction ops arbitrary: s) (simp_all add: spent_step step_inv)

end

end
