(* ===== verification/Digits.thy ===== *)
theory Digits
  imports Prelude
begin

text \<open>
  Numbers as text: \<open>toString(base)\<close> and the paddings, shared by the hex view
  (\<open>apps/research-ui/source_syntax.js\<close>) and the virtual machine reports.
\<close>

section \<open>Numbers as text\<close>

text \<open>\<open>n.toString(base)\<close>, most significant digit first, and \<open>padStart\<close> and \<open>padEnd\<close>.\<close>

definition digit_char :: "nat \<Rightarrow> char" where
  "digit_char d = ''0123456789abcdef'' ! d"

function to_base :: "nat \<Rightarrow> nat \<Rightarrow> string" where
  "to_base b n = (if n < b \<or> b < 2 then [digit_char n] else to_base b (n div b) @ [digit_char (n mod b)])"
  by pat_completeness auto
termination by (relation "measure snd") auto

declare to_base.simps [simp del]

definition padStart :: "nat \<Rightarrow> char \<Rightarrow> string \<Rightarrow> string" where
  "padStart n c s = replicate (n - length s) c @ s"

definition padEnd :: "nat \<Rightarrow> char \<Rightarrow> string \<Rightarrow> string" where
  "padEnd n c s = s @ replicate (n - length s) c"

lemma to_base_length: "2 \<le> b \<Longrightarrow> n < b ^ Suc k \<Longrightarrow> length (to_base b n) \<le> Suc k"
proof (induction k arbitrary: n)
  case 0
  then show ?case by (simp add: to_base.simps [of b n])
next
  case (Suc k)
  have "n div b < b ^ Suc k" using Suc(2,3) by (simp add: less_mult_imp_div_less mult.commute)
  then show ?case using Suc(1) [of "n div b"] Suc(2) by (simp add: to_base.simps [of b n])
qed

text \<open>The UTF-8 length of a string in \<open>JSON.stringify\<close>.\<close>

definition quote_width :: "char \<Rightarrow> nat" where
  "quote_width c =
     (let k = (of_char c :: nat) in
      if k = 34 \<or> k = 92 \<or> k \<in> {8, 9, 10, 12, 13} then 2
      else if k < 32 then 6
      else if k < 128 then 1 else 2)"

definition quoted_bytes :: "string \<Rightarrow> nat" where
  "quoted_bytes s = 2 + sum_list (map quote_width s)"

text \<open>\<open>String(n)\<close> of an integer.\<close>

definition int_text :: "int \<Rightarrow> string" where
  "int_text i = (if i < 0 then ''-'' @ to_base 10 (nat (- i)) else to_base 10 (nat i))"

end
