(* ===== verification/ResponseEvidence.thy ===== *)
theory ResponseEvidence
  imports JsValue Machine Digits
begin

text \<open>
  \<open>tools/capture-completeness-response-evidence.mjs\<close>: the bounded log of response events
  the reference ledger keeps for diagnosis, its projection to the hops of one authored
  operation, and the sanitizer that admits the projection into a published report.
\<close>

section \<open>Vocabularies\<close>

definition maxExportHops :: nat where "maxExportHops = 8"
definition maxExportEvents :: nat where "maxExportEvents = 16"

definition methods :: "string \<rightharpoonup> string" where
  "methods = map_of [(''Network.responseReceived'', ''response''),
     (''Network.responseReceivedExtraInfo'', ''extra-info'')]"

definition responseStatusBuckets :: "string list" where
  "responseStatusBuckets = [''missing'', ''null'', ''zero'', ''http-range'', ''other-number'',
     ''nonfinite-number'', ''nonnumber'']"

definition eventKinds :: "string list" where
  "eventKinds = [''response'', ''extra-info'']"

definition extraInfoStates :: "string list" where
  "extraInfoStates = [''yes'', ''no'', ''unknown'']"

definition sessionRelations :: "string list" where
  "sessionRelations = [''request-session'', ''proven-terminal-session'', ''other-session-matching-raw-id'']"

definition responseStatusBucket :: "js \<Rightarrow> string" where
  "responseStatusBucket value =
     (case value of
        Undef \<Rightarrow> ''missing''
      | Null \<Rightarrow> ''null''
      | Num n \<Rightarrow>
          (case n of
             Fin r \<Rightarrow>
               (if r = 0 then ''zero''
                else if rat_is_int r \<and> 100 \<le> r \<and> r \<le> 599 then ''http-range'' else ''other-number'')
           | _ \<Rightarrow> ''nonfinite-number'')
      | _ \<Rightarrow> ''nonnumber'')"

section \<open>The event log\<close>

record evidence_event =
  ev_epoch :: nat
  ev_sessionId :: string
  ev_requestId :: string
  ev_ordinal :: nat
  ev_kind :: string
  ev_statusBucket :: string
  ev_hasExtraInfo :: string

record evidence_log =
  el_maxEvents :: nat
  el_maxBytes :: nat
  el_events :: "evidence_event list"
  el_bytes :: nat
  el_omittedEvents :: nat

definition createResponseEvidence :: "nat \<Rightarrow> nat \<Rightarrow> evidence_log" where
  "createResponseEvidence maxEvents maxBytes =
     \<lparr>el_maxEvents = maxEvents, el_maxBytes = maxBytes, el_events = [], el_bytes = 0, el_omittedEvents = 0\<rparr>"

text \<open>\<open>Buffer.byteLength(JSON.stringify(event))\<close> for the seven fields of an event, written out.\<close>

fun dec_digits :: "nat \<Rightarrow> string" where
  "dec_digits n = (if n < 10 then [char_of (48 + n)] else dec_digits (n div 10) @ [char_of (48 + n mod 10)])"

declare dec_digits.simps [simp del]

definition event_bytes :: "evidence_event \<Rightarrow> nat" where
  "event_bytes e =
     length ''{.epoch.:'' + length (dec_digits (ev_epoch e))
     + length '',.sessionId.:'' + quoted_bytes (ev_sessionId e)
     + length '',.requestId.:'' + quoted_bytes (ev_requestId e)
     + length '',.ordinal.:'' + length (dec_digits (ev_ordinal e))
     + length '',.kind.:'' + quoted_bytes (ev_kind e)
     + length '',.statusBucket.:'' + quoted_bytes (ev_statusBucket e)
     + length '',.hasExtraInfo.:'' + quoted_bytes (ev_hasExtraInfo e) + length ''}''"

definition valid_evidence_id :: "js \<Rightarrow> bool" where
  "valid_evidence_id v = (is_str v \<and> 0 < length (str_of v) \<and> length (str_of v) \<le> 4096)"

definition make_event :: "evidence_log \<Rightarrow> nat \<Rightarrow> js \<Rightarrow> string \<Rightarrow> js \<Rightarrow> evidence_event" where
  "make_event elog epoch sessionId kind params =
     \<lparr>ev_epoch = epoch,
      ev_sessionId = str_of sessionId,
      ev_requestId = str_of (getp params ''requestId''),
      ev_ordinal = length (el_events elog) + el_omittedEvents elog + 1,
      ev_kind = kind,
      ev_statusBucket = responseStatusBucket
        (if kind = ''response'' then getp (getp params ''response'') ''status'' else getp params ''statusCode''),
      ev_hasExtraInfo =
        (if kind = ''response'' \<and> is_bool (getp params ''hasExtraInfo'')
         then (if getp params ''hasExtraInfo'' = Bool True then ''yes'' else ''no'')
         else ''unknown'')\<rparr>"

definition observe_event :: "nat \<Rightarrow> js \<Rightarrow> string \<Rightarrow> js \<Rightarrow> evidence_log \<Rightarrow> evidence_log" where
  "observe_event epoch sessionId method params elog =
     (case methods method of
        None \<Rightarrow> elog
      | Some kind \<Rightarrow>
          if \<not> (valid_evidence_id sessionId \<and> valid_evidence_id (getp params ''requestId''))
          then elog\<lparr>el_omittedEvents := el_omittedEvents elog + 1\<rparr>
          else
            let event = make_event elog epoch sessionId kind params;
                size = event_bytes event
            in if el_maxEvents elog \<le> length (el_events elog) \<or> el_maxBytes elog < el_bytes elog + size
               then elog\<lparr>el_omittedEvents := el_omittedEvents elog + 1\<rparr>
               else elog\<lparr>el_bytes := el_bytes elog + size, el_events := el_events elog @ [event]\<rparr>)"

record evidence_snapshot =
  es_complete :: bool
  es_omittedEvents :: nat
  es_events :: "evidence_event list"

definition evidence_snapshot_of :: "evidence_log \<Rightarrow> evidence_snapshot" where
  "evidence_snapshot_of elog =
     \<lparr>es_complete = (el_omittedEvents elog = 0), es_omittedEvents = el_omittedEvents elog,
      es_events = el_events elog\<rparr>"

section \<open>Projection to the hops of one operation\<close>

text \<open>The identity fields of a recorded hop, which the ledger's hop record extends.\<close>

record hop_id =
  h_epoch :: nat
  h_sessionId :: string
  h_requestId :: string
  h_hop :: nat
  h_terminalSessionId :: "string option"

record scoped_event =
  sc_ordinal :: nat
  sc_kind :: string
  sc_statusBucket :: string
  sc_hasExtraInfo :: string
  sc_sessionRelation :: string

record scoped_hop =
  sh_hopOrdinal :: nat
  sh_namespaceHopCount :: nat
  sh_rawIdHopCount :: nat
  sh_omittedEvents :: nat
  sh_events :: "scoped_event list"

record scoped_evidence =
  se_complete :: bool
  se_omittedEvents :: nat
  se_omittedHops :: nat
  se_hops :: "scoped_hop list"

definition scoped_event_of :: "'h hop_id_scheme \<Rightarrow> evidence_event \<Rightarrow> scoped_event" where
  "scoped_event_of hop e =
     \<lparr>sc_ordinal = ev_ordinal e, sc_kind = ev_kind e, sc_statusBucket = ev_statusBucket e,
      sc_hasExtraInfo = ev_hasExtraInfo e,
      sc_sessionRelation =
        (if ev_sessionId e = h_sessionId hop then ''request-session''
         else if h_terminalSessionId hop = Some (ev_sessionId e) then ''proven-terminal-session''
         else ''other-session-matching-raw-id'')\<rparr>"

definition scoped_hop_of :: "evidence_snapshot \<Rightarrow> 'h hop_id_scheme list \<Rightarrow> 'h hop_id_scheme \<Rightarrow> scoped_hop" where
  "scoped_hop_of evidence all hop =
     (let matching = filter (\<lambda>e. ev_epoch e = h_epoch hop \<and> ev_requestId e = h_requestId hop) (es_events evidence);
          observed = map (scoped_event_of hop) (take maxExportEvents matching)
      in \<lparr>sh_hopOrdinal = h_hop hop,
          sh_namespaceHopCount = length (filter (\<lambda>h. h_epoch h = h_epoch hop \<and>
            h_sessionId h = h_sessionId hop \<and> h_requestId h = h_requestId hop) all),
          sh_rawIdHopCount = length (filter (\<lambda>h. h_epoch h = h_epoch hop \<and> h_requestId h = h_requestId hop) all),
          sh_omittedEvents = length matching - length observed,
          sh_events = observed\<rparr>)"

definition scopedResponseEvidence ::
    "evidence_snapshot option \<Rightarrow> 'h hop_id_scheme list \<Rightarrow> ('h hop_id_scheme \<Rightarrow> bool) \<Rightarrow> scoped_evidence" where
  "scopedResponseEvidence evidence_opt all incl =
     (case evidence_opt of
        None \<Rightarrow> \<lparr>se_complete = False, se_omittedEvents = 0, se_omittedHops = 0, se_hops = []\<rparr>
      | Some evidence \<Rightarrow>
          let scoped = filter incl all;
              hops = map (scoped_hop_of evidence all) (take maxExportHops scoped)
          in \<lparr>se_complete = (es_complete evidence \<and> length scoped \<le> maxExportHops \<and>
                (\<forall>h \<in> set hops. sh_omittedEvents h = 0)),
              se_omittedEvents = es_omittedEvents evidence,
              se_omittedHops = length scoped - maxExportHops,
              se_hops = hops\<rparr>)"

section \<open>The sanitizer\<close>

definition evidence_count :: "js \<Rightarrow> js_error + nat" where
  "evidence_count v =
     (if \<not> is_safe_integer v \<or> num_of v < 0 \<or> 1000000 < num_of v
      then Inl (JsError ''invalid-response-evidence-count'') else Inr (nat \<lfloor>num_of v\<rfloor>))"

definition evidence_choice :: "js \<Rightarrow> string list \<Rightarrow> js_error + string" where
  "evidence_choice v values =
     (if \<not> one_of values v then Inl (JsError ''invalid-response-evidence-enum'') else Inr (str_of v))"

definition sanitize_event :: "js \<Rightarrow> js_error + scoped_event" where
  "sanitize_event event =
     bindE (readp event ''ordinal'') (\<lambda>v0. bindE (evidence_count v0) (\<lambda>ord.
     bindE (evidence_choice (getp event ''kind'') eventKinds) (\<lambda>kind.
     bindE (evidence_choice (getp event ''statusBucket'') responseStatusBuckets) (\<lambda>bucket.
     bindE (evidence_choice (getp event ''hasExtraInfo'') extraInfoStates) (\<lambda>extra.
     bindE (evidence_choice (getp event ''sessionRelation'') sessionRelations) (\<lambda>rel.
     Inr \<lparr>sc_ordinal = ord, sc_kind = kind, sc_statusBucket = bucket,
          sc_hasExtraInfo = extra, sc_sessionRelation = rel\<rparr>))))))"

definition sanitize_hop :: "js \<Rightarrow> js_error + scoped_hop" where
  "sanitize_hop hop =
     bindE (readp hop ''events'') (\<lambda>events.
     bindE (guardE (is_arr events \<and> length (arr_of events) \<le> maxExportEvents)
              (JsError ''invalid-response-evidence-events'')) (\<lambda>_.
     bindE (evidence_count (getp hop ''hopOrdinal'')) (\<lambda>ord.
     bindE (evidence_count (getp hop ''namespaceHopCount'')) (\<lambda>ns.
     bindE (evidence_count (getp hop ''rawIdHopCount'')) (\<lambda>raw.
     bindE (evidence_count (getp hop ''omittedEvents'')) (\<lambda>omitted.
     bindE (mapE sanitize_event (arr_of events)) (\<lambda>evs.
     Inr \<lparr>sh_hopOrdinal = ord, sh_namespaceHopCount = ns, sh_rawIdHopCount = raw,
          sh_omittedEvents = omitted, sh_events = evs\<rparr>)))))))"

text \<open>\<open>value.hops.some(hop => hop.omittedEvents !== 0)\<close>, which throws on a null entry it reaches.\<close>

fun some_hop_omits :: "js list \<Rightarrow> js_error + bool" where
  "some_hop_omits [] = Inr False"
| "some_hop_omits (h # hs) =
     bindE (readp h ''omittedEvents'') (\<lambda>v.
       if \<not> strict_eq v (int_js 0) then Inr True else some_hop_omits hs)"

definition claims_completeness :: "js \<Rightarrow> js_error + bool" where
  "claims_completeness v =
     (if getp v ''complete'' \<noteq> Bool True then Inr False
      else if \<not> strict_eq (getp v ''omittedEvents'') (int_js 0) then Inr True
      else if \<not> strict_eq (getp v ''omittedHops'') (int_js 0) then Inr True
      else some_hop_omits (arr_of (getp v ''hops'')))"

definition sanitizeResponseEvidence :: "js \<Rightarrow> js_error + scoped_evidence" where
  "sanitizeResponseEvidence v =
     bindE (guardE (truthy v \<and> is_bool (getp v ''complete'') \<and> is_arr (getp v ''hops'') \<and>
              length (arr_of (getp v ''hops'')) \<le> maxExportHops) (JsError ''invalid-response-evidence'')) (\<lambda>_.
     bindE (claims_completeness v) (\<lambda>inconsistent.
     bindE (guardE (\<not> inconsistent) (JsError ''inconsistent-response-evidence-completeness'')) (\<lambda>_.
     bindE (evidence_count (getp v ''omittedEvents'')) (\<lambda>omitted.
     bindE (evidence_count (getp v ''omittedHops'')) (\<lambda>omittedHops.
     bindE (mapE sanitize_hop (arr_of (getp v ''hops''))) (\<lambda>hops.
     Inr \<lparr>se_complete = (getp v ''complete'' = Bool True), se_omittedEvents = omitted,
          se_omittedHops = omittedHops, se_hops = hops\<rparr>))))))"

text \<open>The document form of a projection, as it stands in a report.\<close>

definition scoped_event_js :: "scoped_event \<Rightarrow> js" where
  "scoped_event_js e = Obj [(''ordinal'', int_js (sc_ordinal e)), (''kind'', Str (sc_kind e)),
     (''statusBucket'', Str (sc_statusBucket e)), (''hasExtraInfo'', Str (sc_hasExtraInfo e)),
     (''sessionRelation'', Str (sc_sessionRelation e))]"

definition scoped_hop_js :: "scoped_hop \<Rightarrow> js" where
  "scoped_hop_js h = Obj [(''hopOrdinal'', int_js (sh_hopOrdinal h)),
     (''namespaceHopCount'', int_js (sh_namespaceHopCount h)), (''rawIdHopCount'', int_js (sh_rawIdHopCount h)),
     (''omittedEvents'', int_js (sh_omittedEvents h)), (''events'', Arr (map scoped_event_js (sh_events h)))]"

definition scoped_evidence_js :: "scoped_evidence \<Rightarrow> js" where
  "scoped_evidence_js s = Obj [(''complete'', Bool (se_complete s)),
     (''omittedEvents'', int_js (se_omittedEvents s)), (''omittedHops'', int_js (se_omittedHops s)),
     (''hops'', Arr (map scoped_hop_js (se_hops s)))]"

section \<open>The log stays within its bounds\<close>

definition evidence_inv :: "evidence_log \<Rightarrow> bool" where
  "evidence_inv elog \<longleftrightarrow>
     length (el_events elog) \<le> el_maxEvents elog \<and>
     el_bytes elog \<le> el_maxBytes elog \<and>
     el_bytes elog = sum_list (map event_bytes (el_events elog)) \<and>
     sorted_wrt (<) (map ev_ordinal (el_events elog)) \<and>
     (\<forall>e \<in> set (el_events elog).
        1 \<le> ev_ordinal e \<and> ev_ordinal e \<le> length (el_events elog) + el_omittedEvents elog \<and>
        ev_kind e \<in> set eventKinds \<and> ev_statusBucket e \<in> set responseStatusBuckets \<and>
        ev_hasExtraInfo e \<in> set extraInfoStates)"

text \<open>One observation is the tuple of arguments of a call of \<open>observe\<close>.\<close>

type_synonym observation = "nat \<times> js \<times> string \<times> js"

fun observation_step :: "observation \<Rightarrow> evidence_log \<Rightarrow> evidence_log" where
  "observation_step (epoch, sid, m, p) elog = observe_event epoch sid m p elog"

definition observe_all :: "observation list \<Rightarrow> evidence_log \<Rightarrow> evidence_log" where
  "observe_all obs = fold observation_step obs"

lemma responseStatusBucket_closed: "responseStatusBucket v \<in> set responseStatusBuckets"
  by (auto simp: responseStatusBucket_def responseStatusBuckets_def split: js.split jsnum.split)

lemma methods_range: "methods m = Some k \<Longrightarrow> k \<in> set eventKinds"
  by (auto simp: methods_def eventKinds_def split: if_splits)

lemma make_event_closed:
  assumes "k \<in> set eventKinds"
  shows "ev_kind (make_event elog ep s k p) \<in> set eventKinds"
    and "ev_statusBucket (make_event elog ep s k p) \<in> set responseStatusBuckets"
    and "ev_hasExtraInfo (make_event elog ep s k p) \<in> set extraInfoStates"
    and "ev_ordinal (make_event elog ep s k p) = length (el_events elog) + el_omittedEvents elog + 1"
  using assms by (simp_all add: make_event_def responseStatusBucket_closed extraInfoStates_def)

lemma evidence_inv_omit:
  "evidence_inv elog \<Longrightarrow> evidence_inv (elog\<lparr>el_omittedEvents := Suc (el_omittedEvents elog)\<rparr>)"
  by (auto simp: evidence_inv_def)

lemma evidence_inv_record:
  assumes inv: "evidence_inv elog" and k: "k \<in> set eventKinds"
    and room: "length (el_events elog) < el_maxEvents elog"
    and fits: "el_bytes elog + event_bytes e \<le> el_maxBytes elog"
    and e: "e = make_event elog ep s k p"
  shows "evidence_inv (elog\<lparr>el_bytes := el_bytes elog + event_bytes e, el_events := el_events elog @ [e]\<rparr>)"
proof -
  have old: "\<forall>x \<in> set (el_events elog). ev_ordinal x < ev_ordinal e"
    using inv by (auto simp: evidence_inv_def e make_event_closed(4) [OF k])
  have new: "ev_kind e \<in> set eventKinds" "ev_statusBucket e \<in> set responseStatusBuckets"
    "ev_hasExtraInfo e \<in> set extraInfoStates"
    "ev_ordinal e = length (el_events elog) + el_omittedEvents elog + 1"
    using make_event_closed [OF k] by (simp_all add: e)
  show ?thesis
    using inv room fits old new by (auto simp: evidence_inv_def sorted_wrt_append)
qed

lemma evidence_inv_observe: "evidence_inv elog \<Longrightarrow> evidence_inv (observe_event ep s m p elog)"
  by (auto simp: observe_event_def Let_def not_le not_less intro: evidence_inv_omit
      dest!: methods_range split: option.split intro!: evidence_inv_record)

lemma evidence_inv_create: "evidence_inv (createResponseEvidence me mb)"
  by (simp add: evidence_inv_def createResponseEvidence_def)

lemma observe_limits [simp]:
  "el_maxEvents (observe_event ep s m p elog) = el_maxEvents elog"
  "el_maxBytes (observe_event ep s m p elog) = el_maxBytes elog"
  by (simp_all add: observe_event_def Let_def split: option.split)

lemma observe_omitted_mono: "el_omittedEvents elog \<le> el_omittedEvents (observe_event ep s m p elog)"
  by (simp add: observe_event_def Let_def split: option.split)

lemma observe_events_prefix: "prefix (el_events elog) (el_events (observe_event ep s m p elog))"
  by (simp add: observe_event_def Let_def split: option.split)

definition tracked :: "observation \<Rightarrow> bool" where
  "tracked ob = (case ob of (_, _, m, _) \<Rightarrow> methods m \<noteq> None)"

lemma observe_counts:
  "length (el_events (observe_event ep s m p elog)) + el_omittedEvents (observe_event ep s m p elog) =
   length (el_events elog) + el_omittedEvents elog + (if methods m \<noteq> None then 1 else 0)"
  by (simp add: observe_event_def Let_def split: option.split)

interpretation evidence: accounting_machine observation_step evidence_inv
  "\<lambda>ob. if tracked ob then 1 else 0" "\<lambda>elog. length (el_events elog) + el_omittedEvents elog"
proof (unfold_locales, goal_cases)
  case (1 s x)
  then show ?case by (cases x) (auto intro: evidence_inv_observe)
next
  case (2 s x)
  then show ?case by (cases x) (simp add: observe_counts tracked_def)
qed

interpretation evidence_retained: appending_machine observation_step evidence_inv el_events
proof (unfold_locales, goal_cases)
  case (1 s x)
  then show ?case by (cases x) (auto intro: observe_events_prefix)
qed

lemma sum_list_indicator: "sum_list (map (\<lambda>x. if P x then 1 else 0) xs) = length (filter P xs)"
  by (induction xs) auto

lemma evidence_inv_observe_all: "evidence_inv elog \<Longrightarrow> evidence_inv (observe_all obs elog)"
  unfolding observe_all_def by (rule evidence.run_inv)

lemma observe_all_counts:
  "evidence_inv elog \<Longrightarrow>
   length (el_events (observe_all obs elog)) + el_omittedEvents (observe_all obs elog) =
   length (el_events elog) + el_omittedEvents elog + length (filter tracked obs)"
  unfolding observe_all_def by (simp add: evidence.run_spent sum_list_indicator)

text \<open>
  C1. Whatever sequence of protocol events the evidence log is shown, it never holds more
  events or more serialized bytes than its limits, its byte counter is the sum of the sizes of
  what it retained, its ordinals increase strictly and stay within the number of tracked
  events seen, every retained event carries only closed-vocabulary descriptions, and the
  retained and omitted events together account for every tracked event exactly once.
\<close>

theorem evidence_log_bounded:
  "evidence_inv (observe_all obs (createResponseEvidence me mb)) \<and>
   length (el_events (observe_all obs (createResponseEvidence me mb)))
     + el_omittedEvents (observe_all obs (createResponseEvidence me mb)) = length (filter tracked obs)"
  using evidence_inv_observe_all [OF evidence_inv_create]
    observe_all_counts [OF evidence_inv_create, of obs me mb]
  by (simp add: createResponseEvidence_def)

section \<open>Projections pass the sanitizer\<close>

lemma evidence_count_int_js [simp]: "n \<le> 1000000 \<Longrightarrow> evidence_count (int_js n) = Inr n"
  by (simp add: evidence_count_def int_js_def max_safe_def)

lemma evidence_count_bound: "evidence_count v = Inr n \<Longrightarrow> n \<le> 1000000 \<and> v = int_js n"
proof -
  assume "evidence_count v = Inr n"
  then have safe: "is_safe_integer v" and lo: "0 \<le> num_of v" and hi: "num_of v \<le> 1000000"
    and n: "n = nat \<lfloor>num_of v\<rfloor>"
    by (auto simp: evidence_count_def split: if_splits)
  from safe obtain r where v: "v = Num (Fin r)" and int: "of_int \<lfloor>r\<rfloor> = r"
    by (auto elim!: is_safe_integerE simp: rat_is_int_def)
  have "\<lfloor>r\<rfloor> \<le> 1000000" using hi v by (simp add: floor_le_iff)
  moreover have "(of_nat n :: rat) = r"
    using lo v n int by (simp add: of_nat_nat)
  ultimately show ?thesis using n v by (simp add: int_js_def)
qed

lemma evidence_choice_Str [simp]: "s \<in> set ss \<Longrightarrow> evidence_choice (Str s) ss = Inr s"
  by (simp add: evidence_choice_def)

lemma evidence_choice_closed: "evidence_choice v ss = Inr s \<Longrightarrow> s \<in> set ss \<and> v = Str s"
  by (cases v) (auto simp: evidence_choice_def split: if_splits)

definition scoped_event_ok :: "scoped_event \<Rightarrow> bool" where
  "scoped_event_ok e \<longleftrightarrow> sc_ordinal e \<le> 1000000 \<and> sc_kind e \<in> set eventKinds \<and>
     sc_statusBucket e \<in> set responseStatusBuckets \<and> sc_hasExtraInfo e \<in> set extraInfoStates \<and>
     sc_sessionRelation e \<in> set sessionRelations"

definition scoped_hop_ok :: "scoped_hop \<Rightarrow> bool" where
  "scoped_hop_ok h \<longleftrightarrow> sh_hopOrdinal h \<le> 1000000 \<and> sh_namespaceHopCount h \<le> 1000000 \<and>
     sh_rawIdHopCount h \<le> 1000000 \<and> sh_omittedEvents h \<le> 1000000 \<and>
     length (sh_events h) \<le> maxExportEvents \<and> (\<forall>e \<in> set (sh_events h). scoped_event_ok e)"

definition scoped_ok :: "scoped_evidence \<Rightarrow> bool" where
  "scoped_ok s \<longleftrightarrow> se_omittedEvents s \<le> 1000000 \<and> se_omittedHops s \<le> 1000000 \<and>
     length (se_hops s) \<le> maxExportHops \<and> (\<forall>h \<in> set (se_hops s). scoped_hop_ok h) \<and>
     (se_complete s \<longrightarrow> se_omittedEvents s = 0 \<and> se_omittedHops s = 0 \<and>
        (\<forall>h \<in> set (se_hops s). sh_omittedEvents h = 0))"

lemma sanitize_event_js: "scoped_event_ok e \<Longrightarrow> sanitize_event (scoped_event_js e) = Inr e"
  by (simp add: sanitize_event_def scoped_event_js_def scoped_event_ok_def readp_def)

lemma sanitize_hop_js: "scoped_hop_ok h \<Longrightarrow> sanitize_hop (scoped_hop_js h) = Inr h"
proof -
  assume h: "scoped_hop_ok h"
  then have "mapE sanitize_event (map scoped_event_js (sh_events h)) = Inr (sh_events h)"
    by (auto simp: mapE_Inr_iff list_all2_map1 list.rel_refl_strong sanitize_event_js scoped_hop_ok_def
        intro: list.rel_refl_strong)
  with h show ?thesis
    by (simp add: sanitize_hop_def scoped_hop_js_def scoped_hop_ok_def readp_def guardE_def)
qed

lemma some_hop_omits_js:
  "some_hop_omits (map scoped_hop_js hs) = Inr (\<exists>h \<in> set hs. sh_omittedEvents h \<noteq> 0)"
  by (induction hs) (auto simp: scoped_hop_js_def readp_def int_js_def)

text \<open>The sanitizer is the identity on every well-formed projection.\<close>

lemma sanitize_scoped_js:
  assumes "scoped_ok s"
  shows "sanitizeResponseEvidence (scoped_evidence_js s) = Inr s"
proof -
  have hops: "mapE sanitize_hop (map scoped_hop_js (se_hops s)) = Inr (se_hops s)"
    using assms by (auto simp: mapE_Inr_iff list_all2_map1 sanitize_hop_js scoped_ok_def
        intro: list.rel_refl_strong)
  have "claims_completeness (scoped_evidence_js s) = Inr False"
    using assms by (auto simp: claims_completeness_def scoped_evidence_js_def some_hop_omits_js
        scoped_ok_def int_js_def)
  with hops assms show ?thesis
    by (simp add: sanitizeResponseEvidence_def scoped_evidence_js_def scoped_ok_def guardE_def)
qed

text \<open>Conversely the sanitizer admits nothing else.\<close>

lemma sanitize_event_ok: "sanitize_event v = Inr e \<Longrightarrow> scoped_event_ok e"
  by (auto simp: sanitize_event_def result_simps scoped_event_ok_def
      dest!: evidence_count_bound evidence_choice_closed)

lemma sanitize_hop_ok: "sanitize_hop v = Inr h \<Longrightarrow> scoped_hop_ok h"
proof -
  assume "sanitize_hop v = Inr h"
  then obtain evs ord ns raw om where arr: "length (arr_of (getp v ''events'')) \<le> maxExportEvents"
    and counts: "ord \<le> 1000000" "ns \<le> 1000000" "raw \<le> 1000000" "om \<le> 1000000"
    and evs: "mapE sanitize_event (arr_of (getp v ''events'')) = Inr evs"
    and h: "h = \<lparr>sh_hopOrdinal = ord, sh_namespaceHopCount = ns, sh_rawIdHopCount = raw,
                 sh_omittedEvents = om, sh_events = evs\<rparr>"
    by (auto simp: sanitize_hop_def result_simps readp_def split: if_splits
        dest!: evidence_count_bound)
  have "length evs \<le> maxExportEvents" using arr mapE_length [OF evs] by simp
  moreover have "\<forall>e \<in> set evs. scoped_event_ok e"
    using mapE_set [OF evs] sanitize_event_ok by blast
  ultimately show ?thesis using counts by (simp add: h scoped_hop_ok_def)
qed

lemma sanitize_hop_omitted:
  "sanitize_hop v = Inr h \<Longrightarrow> getp v ''omittedEvents'' = int_js (sh_omittedEvents h) \<and> v \<noteq> Undef \<and> v \<noteq> Null"
  by (auto simp: sanitize_hop_def result_simps readp_def split: if_splits dest!: evidence_count_bound)

lemma some_hop_omits_False:
  "some_hop_omits vs = Inr False \<Longrightarrow> v \<in> set vs \<Longrightarrow> getp v ''omittedEvents'' = int_js 0"
  by (induction vs) (auto simp: result_simps readp_def int_js_def split: if_splits)

lemma int_js_inject [simp]: "int_js m = int_js n \<longleftrightarrow> m = n"
  by (simp add: int_js_def)

lemma sanitize_ok:
  assumes "sanitizeResponseEvidence v = Inr s"
  shows "scoped_ok s"
proof -
  let ?hops = "arr_of (getp v ''hops'')"
  from assms obtain om oh hs where len: "length ?hops \<le> maxExportHops"
    and claim: "claims_completeness v = Inr False"
    and om: "getp v ''omittedEvents'' = int_js om" "om \<le> 1000000"
    and oh: "getp v ''omittedHops'' = int_js oh" "oh \<le> 1000000"
    and hs: "mapE sanitize_hop ?hops = Inr hs"
    and s: "s = \<lparr>se_complete = (getp v ''complete'' = Bool True), se_omittedEvents = om,
                 se_omittedHops = oh, se_hops = hs\<rparr>"
    by (auto simp: sanitizeResponseEvidence_def result_simps dest!: evidence_count_bound)
  have "length hs \<le> maxExportHops" using len mapE_length [OF hs] by simp
  moreover have "\<forall>h \<in> set hs. scoped_hop_ok h"
    using mapE_set [OF hs] sanitize_hop_ok by blast
  moreover have "om = 0 \<and> oh = 0 \<and> (\<forall>h \<in> set hs. sh_omittedEvents h = 0)"
    if "getp v ''complete'' = Bool True"
  proof -
    from claim that om oh have "om = 0" "oh = 0" and none: "some_hop_omits ?hops = Inr False"
      by (auto simp: claims_completeness_def int_js_def split: if_splits)
    moreover have "sh_omittedEvents h = 0" if "h \<in> set hs" for h
      using mapE_set [OF hs that] sanitize_hop_omitted some_hop_omits_False [OF none] by force
    ultimately show ?thesis by simp
  qed
  ultimately show ?thesis using om oh by (simp add: s scoped_ok_def)
qed

lemma scoped_event_of_ok:
  assumes "evidence_inv elog" "e \<in> set (el_events elog)"
    and "length (el_events elog) + el_omittedEvents elog \<le> 1000000"
  shows "scoped_event_ok (scoped_event_of hop e)"
  using assms by (force simp: evidence_inv_def scoped_event_ok_def scoped_event_of_def sessionRelations_def)

lemma scoped_projection_ok:
  assumes inv: "evidence_inv elog"
    and seen: "length (el_events elog) + el_omittedEvents elog \<le> 1000000"
    and hops: "length all \<le> 1000000" "\<forall>h \<in> set all. h_hop h \<le> 1000000"
  shows "scoped_ok (scopedResponseEvidence (Some (evidence_snapshot_of elog)) all incl)"
proof -
  have bound: "length (filter P (el_events elog)) \<le> 1000000" "length (filter Q all) \<le> 1000000" for P Q
    using seen hops(1) length_filter_le [of P "el_events elog"] length_filter_le [of Q all] by linarith+
  have cut: "length (filter P (el_events elog)) - n \<le> 1000000" "length (filter Q all) - n \<le> 1000000"
    for P Q n using bound by (meson diff_le_self le_trans)+
  have hop: "scoped_hop_ok (scoped_hop_of (evidence_snapshot_of elog) all h)" if "h \<in> set all" for h
    using that hops(2) inv seen scoped_event_of_ok [OF inv _ seen] bound cut
    by (auto simp: scoped_hop_ok_def scoped_hop_of_def Let_def evidence_snapshot_of_def min_def
        dest!: in_set_takeD)
  show ?thesis
    using seen hop cut
    by (auto simp: scoped_ok_def scopedResponseEvidence_def Let_def evidence_snapshot_of_def
        dest!: in_set_takeD)
qed

text \<open>
  C2. A projection of any evidence log to any selection of recorded hops is accepted by
  the report sanitizer and leaves it unchanged, in every field of every hop and event, as
  long as the run stayed under a million tracked events and hops: the exporter and the
  sanitizer agree on one closed format.
\<close>

theorem scoped_evidence_roundtrip:
  assumes "length (filter tracked obs) \<le> 1000000"
    and "length all \<le> 1000000" and "\<forall>h \<in> set all. h_hop h \<le> 1000000"
    and "elog = observe_all obs (createResponseEvidence me mb)"
    and "s = scopedResponseEvidence (Some (evidence_snapshot_of elog)) all incl"
  shows "sanitizeResponseEvidence (scoped_evidence_js s) = Inr s"
proof -
  have "length (el_events elog) + el_omittedEvents elog \<le> 1000000"
    using assms(1,4) observe_all_counts [OF evidence_inv_create, of obs me mb]
    by (simp add: createResponseEvidence_def)
  with assms show ?thesis
    by (auto intro!: sanitize_scoped_js scoped_projection_ok evidence_inv_observe_all evidence_inv_create)
qed

definition demo_obs :: "observation list" where
  "demo_obs = [(1, Str ''s'', ''Network.responseReceived'',
     Obj [(''requestId'', Str ''r''), (''response'', Obj [(''status'', Num (Fin 200))])])]"

definition demo_hop :: hop_id where
  "demo_hop = \<lparr>h_epoch = 1, h_sessionId = ''s'', h_requestId = ''r'', h_hop = 0, h_terminalSessionId = None\<rparr>"

theorem scoped_evidence_roundtrip_witness:
  "sanitizeResponseEvidence (scoped_evidence_js (scopedResponseEvidence
     (Some (evidence_snapshot_of (observe_all demo_obs (createResponseEvidence 4096 1048576))))
     [demo_hop] (\<lambda>_. True))) =
   Inr (scopedResponseEvidence
     (Some (evidence_snapshot_of (observe_all demo_obs (createResponseEvidence 4096 1048576))))
     [demo_hop] (\<lambda>_. True))"
  by (rule scoped_evidence_roundtrip [OF _ _ _ refl refl]) (simp_all add: demo_obs_def demo_hop_def)

text \<open>
  Nothing else gets through: whatever document the sanitizer is given, a result it
  returns obeys the closed vocabularies and all numeric bounds, claims completeness only
  when nothing was omitted anywhere, and is a fixed point of the sanitizer.
\<close>

theorem sanitized_evidence_closed:
  assumes "sanitizeResponseEvidence v = Inr s"
  shows "scoped_ok s \<and> sanitizeResponseEvidence (scoped_evidence_js s) = Inr s"
  using assms by (auto intro: sanitize_ok sanitize_scoped_js)

theorem sanitized_evidence_closed_witness:
  "scoped_ok \<lparr>se_complete = True, se_omittedEvents = 0, se_omittedHops = 0, se_hops = []\<rparr>"
  using sanitized_evidence_closed
    [of "Obj [(''complete'', Bool True), (''omittedEvents'', int_js 0), (''omittedHops'', int_js 0),
           (''hops'', Arr [])]"
        "\<lparr>se_complete = True, se_omittedEvents = 0, se_omittedHops = 0, se_hops = []\<rparr>"]
  by (simp add: sanitizeResponseEvidence_def guardE_def claims_completeness_def int_js_def
      evidence_count_def max_safe_def)

end
