(* ===== verification/ReferenceLedger.thy ===== *)
theory ReferenceLedger
  imports ResponseEvidence
begin

text \<open>
  The class \<open>ReferenceLedger\<close> of \<open>tools/capture-completeness-reference.mjs\<close>: an independent
  observer of a browser's network events. It admits sessions and their target lineage,
  turns request events into hops, completes hops from response and terminal events, keeps
  a bounded status history, and freezes everything at \<open>finalize\<close>. Every method is a
  function on the record \<open>ledger\<close>; the \<open>active\<close> map holds references to hop objects, which
  the model represents by their index in \<open>hops\<close>.
\<close>

section \<open>State\<close>

datatype hop_state = Pending | Complete | Failed

text \<open>
  A hop object. \<open>redirect\<close>, \<open>servedFromCache\<close> and the terminal fields are absent until set;
  an absent flag is \<open>False\<close> and an absent terminal session \<open>None\<close>.
\<close>

record hop = hop_id +
  hop_targetId :: string
  hop_loaderId :: "string option"
  hop_frameId :: "string option"
  hop_url :: string
  hop_method :: string
  hop_resourceType :: js
  hop_timestamp :: rat
  hop_status :: "rat option"
  hop_statusSource :: string
  hop_wireStatus :: "rat option"
  hop_state :: hop_state
  hop_fromDiskCache :: bool
  hop_fromServiceWorker :: bool
  hop_canceled :: bool
  hop_redirect :: bool
  hop_servedFromCache :: bool
  hop_terminalTargetId :: "string option"
  hop_terminalTimestamp :: js

record session_info =
  si_epoch :: nat
  si_sessionId :: string
  si_targetId :: string
  si_parentSessionId :: js
  si_targetParentSessionId :: "string option"
  si_type :: "string option"
  si_url :: "string option"
  si_parentId :: "string option"
  si_parentFrameId :: "string option"
  si_openerId :: "string option"
  si_openerFrameId :: "string option"
  si_lineageConflict :: bool

record status_history =
  sh_starts :: nat
  sh_responses :: nat
  sh_extras :: nat
  sh_redirect :: bool
  sh_status :: "rat option"

record websocket =
  ws_sessionId :: string
  ws_targetId :: string
  ws_requestId :: js
  ws_url :: js
  ws_method :: string

record limits =
  maxSessions :: nat
  maxEvents :: nat
  maxBytes :: nat
  maxHops :: nat
  maxStatusEntries :: nat

record snapshot =
  sn_finalized :: bool
  sn_epoch :: nat
  sn_sessions :: "session_info list"
  sn_responseEvidence :: evidence_snapshot
  sn_hops :: "hop list"
  sn_websockets :: "websocket list"
  sn_errors :: "string list"
  sn_events :: nat
  sn_bytes :: nat

text \<open>A key \<open>JSON.stringify([epoch, sessionId, requestId])\<close>.\<close>

type_synonym hkey = "nat \<times> string \<times> js"

record ledger =
  l_limits :: limits
  l_sessions :: "(string \<times> string) list"
  l_sessionInfo :: "(string \<times> session_info) list"
  l_active :: "(hkey \<times> nat) list"
  l_hops :: "hop list"
  l_websockets :: "websocket list"
  l_responseEvidence :: evidence_log
  l_statusHistory :: "(hkey \<times> status_history) list"
  l_statusHistoryComplete :: bool
  l_events :: nat
  l_bytes :: nat
  l_errors :: "string list"
  l_epoch :: nat
  l_finalized :: bool
  l_finalSnapshot :: "snapshot option"

definition hkey_of :: "nat \<Rightarrow> string \<Rightarrow> js \<Rightarrow> hkey" where
  "hkey_of ep sid rid = (ep, sid, json_norm rid)"

text \<open>The defaults of the constructor: \<open>maxStatusEntries\<close> follows \<open>maxHops\<close>.\<close>

definition default_limits :: limits where
  "default_limits = \<lparr>maxSessions = 128, maxEvents = 20000, maxBytes = 16 * 1024 * 1024,
     maxHops = 10000, maxStatusEntries = 10000\<rparr>"

definition new_ledger :: "limits \<Rightarrow> ledger" where
  "new_ledger lims =
     \<lparr>l_limits = lims, l_sessions = [], l_sessionInfo = [], l_active = [], l_hops = [], l_websockets = [],
      l_responseEvidence = createResponseEvidence 4096 (1024 * 1024),
      l_statusHistory = [], l_statusHistoryComplete = True, l_events = 0, l_bytes = 0, l_errors = [],
      l_epoch = 1, l_finalized = False, l_finalSnapshot = None\<rparr>"

definition gap :: "string \<Rightarrow> ledger \<Rightarrow> ledger" where
  "gap reason L = (if length (l_errors L) < 32 then L\<lparr>l_errors := set_add reason (l_errors L)\<rparr> else L)"

section \<open>Sessions and lineage\<close>

definition valid_session_id :: "js \<Rightarrow> bool" where
  "valid_session_id v = (is_str v \<and> 0 < length (str_of v) \<and> length (str_of v) \<le> 1024)"

text \<open>
  The local function \<open>retain\<close>, given the field it writes as a reader and an updater. An
  unusable or contradicting value marks the session and records a gap; the field keeps its
  first value.
\<close>

definition retain ::
    "(session_info \<Rightarrow> string option) \<Rightarrow> ((string option \<Rightarrow> string option) \<Rightarrow> session_info \<Rightarrow> session_info)
     \<Rightarrow> js \<Rightarrow> session_info \<times> ledger \<Rightarrow> session_info \<times> ledger" where
  "retain rd upd v oL =
     (case oL of (owner, L) \<Rightarrow>
        if nullish v \<or> v = Str [] then (owner, L)
        else if \<not> is_str v \<or> 1024 < length (str_of v)
        then (owner\<lparr>si_lineageConflict := True\<rparr>, gap ''invalid-target-lineage'' L)
        else if rd owner \<noteq> None \<and> rd owner \<noteq> Some (str_of v)
        then (owner\<lparr>si_lineageConflict := True\<rparr>, gap ''target-lineage-conflict'' L)
        else (upd (\<lambda>_. Some (str_of v)) owner, L))"

definition describe_owner :: "js \<Rightarrow> js \<Rightarrow> session_info \<times> ledger \<Rightarrow> session_info \<times> ledger" where
  "describe_owner info parentSessionId oL0 =
     (let oL1 = retain si_type si_type_update (getp info ''type'') oL0;
          oL2 = retain si_parentId si_parentId_update (getp info ''parentId'') oL1;
          oL3 = retain si_parentFrameId si_parentFrameId_update (getp info ''parentFrameId'') oL2;
          oL4 = retain si_openerId si_openerId_update (getp info ''openerId'') oL3;
          oL5 = retain si_openerFrameId si_openerFrameId_update (getp info ''openerFrameId'') oL4;
          oL6 = retain si_targetParentSessionId si_targetParentSessionId_update parentSessionId oL5
      in case oL6 of (owner, L) \<Rightarrow>
           (if is_str (getp info ''url'') \<and> str_of (getp info ''url'') \<noteq> []
            then owner\<lparr>si_url := Some (str_of (getp info ''url''))\<rparr> else owner, L))"

definition describeSession :: "string \<Rightarrow> js \<Rightarrow> js \<Rightarrow> ledger \<Rightarrow> ledger" where
  "describeSession sid info parentSessionId L =
     (case map_of (l_sessionInfo L) sid of
        None \<Rightarrow> L
      | Some owner \<Rightarrow>
          (case describe_owner info parentSessionId (owner, L) of (owner', L') \<Rightarrow>
             L'\<lparr>l_sessionInfo := map_put sid owner' (l_sessionInfo L')\<rparr>))"

definition new_session_info :: "nat \<Rightarrow> string \<Rightarrow> string \<Rightarrow> js \<Rightarrow> session_info" where
  "new_session_info ep sid tid parent =
     \<lparr>si_epoch = ep, si_sessionId = sid, si_targetId = tid, si_parentSessionId = coalesce parent Null,
      si_targetParentSessionId = None, si_type = None, si_url = None, si_parentId = None,
      si_parentFrameId = None, si_openerId = None, si_openerFrameId = None, si_lineageConflict = False\<rparr>"

text \<open>\<open>session\<close>: \<open>info\<close> is the target-info object (\<open>Obj []\<close> when the caller omits it).\<close>

definition session :: "js \<Rightarrow> js \<Rightarrow> js \<Rightarrow> js \<Rightarrow> ledger \<Rightarrow> ledger \<times> bool" where
  "session sidv tidv info parent L =
     (if \<not> (valid_session_id sidv \<and> valid_session_id tidv) then (gap ''invalid-session'' L, False)
      else
        let sid = str_of sidv; tid = str_of tidv in
        case map_of (l_sessions L) sid of
          Some tid0 \<Rightarrow>
            if tid0 \<noteq> tid then (gap ''session-reused'' L, False)
            else (describeSession sid info parent L, False)
        | None \<Rightarrow>
            if maxSessions (l_limits L) \<le> length (l_sessions L) then (gap ''session-limit'' L, False)
            else
              let L1 = L\<lparr>l_sessions := map_put sid tid (l_sessions L),
                         l_sessionInfo := map_put sid (new_session_info (l_epoch L) sid tid parent) (l_sessionInfo L)\<rparr>
              in (describeSession sid info parent L1, True))"

datatype relation = RelTrue | RelFalse | RelNull

text \<open>
  \<open>parentRelation\<close>: the loop walks from the destination to its observed parent. Each round
  adds a target to \<open>visited\<close> and the next one is a known session's, so it ends.
\<close>

function parent_walk ::
    "(string \<times> session_info) list \<Rightarrow> nat \<Rightarrow> string \<Rightarrow> string list \<Rightarrow> bool \<Rightarrow> session_info \<Rightarrow> relation" where
  "parent_walk infos ep source visited hasParent current =
     (if si_targetId current \<in> set visited then RelFalse
      else if si_epoch current \<noteq> ep \<or> si_lineageConflict current then RelFalse
      else
        let sessionParent = (case si_targetParentSessionId current of None \<Rightarrow> None | Some k \<Rightarrow> map_of infos k);
            parentId = (case si_parentId current of Some p \<Rightarrow> Some p
                        | None \<Rightarrow> map_option si_targetId sessionParent)
        in if (case sessionParent of None \<Rightarrow> False | Some sp \<Rightarrow> si_epoch sp \<noteq> ep) then RelFalse
           else if si_parentId current \<noteq> None \<and> sessionParent \<noteq> None
                   \<and> si_parentId current \<noteq> map_option si_targetId sessionParent then RelFalse
           else case parentId of
               None \<Rightarrow> if hasParent then RelFalse else RelNull
             | Some pid \<Rightarrow>
                 if pid = source then RelTrue
                 else case filter (\<lambda>s. si_epoch s = ep \<and> si_targetId s = pid) (map snd infos) of
                     [parent] \<Rightarrow> parent_walk infos ep source (set_add (si_targetId current) visited) True parent
                   | _ \<Rightarrow> RelFalse)"
  by pat_completeness auto
termination
proof (relation "measure (\<lambda>(infos, ep, source, visited, hp, current).
         card (insert (si_targetId current) (si_targetId ` snd ` set infos) - set visited))", goal_cases)
  case 1
  show ?case by simp
next
  case (2 infos ep source visited hp current sp pid pid' parent ys)
  let ?T = "si_targetId ` snd ` set infos"
  from 2 have "filter (\<lambda>s. si_epoch s = ep \<and> si_targetId s = pid') (map snd infos) = [parent]" by simp
  then have "parent \<in> set (filter (\<lambda>s. si_epoch s = ep \<and> si_targetId s = pid') (map snd infos))" by simp
  then have "parent \<in> set (map snd infos)" by simp
  then have mem: "si_targetId parent \<in> ?T" by auto
  have "insert (si_targetId parent) ?T - set (set_add (si_targetId current) visited)
        \<subset> insert (si_targetId current) ?T - set visited"
    using 2(1) mem by auto
  then show ?case by (simp add: psubset_card_mono)
qed

declare parent_walk.simps [simp del]

definition parentRelation :: "ledger \<Rightarrow> session_info \<Rightarrow> session_info \<Rightarrow> relation" where
  "parentRelation L source destination =
     parent_walk (l_sessionInfo L) (l_epoch L) (si_targetId source) [] False destination"

section \<open>Main-resource handoff\<close>

text \<open>
  \<open>mainResourceCompletion\<close>: the hop (by index) another session started that this session's
  \<open>loadingFinished\<close> may complete, when the adoption is proven.
\<close>

definition document_handoff :: "hop \<Rightarrow> session_info \<Rightarrow> session_info \<Rightarrow> relation \<Rightarrow> bool" where
  "document_handoff h source destination rel =
     (hop_resourceType h = Str ''Document'' \<and> hop_loaderId h = Some (h_requestId h) \<and>
      hop_frameId h = Some (si_targetId destination) \<and> si_type destination = Some ''iframe'' \<and>
      si_type source \<in> {Some ''page'', Some ''iframe''} \<and> rel = RelTrue)"

definition worker_handoff :: "hop \<Rightarrow> session_info \<Rightarrow> session_info \<Rightarrow> relation \<Rightarrow> bool" where
  "worker_handoff h source destination rel =
     (hop_resourceType h = Str ''Script'' \<and> hop_loaderId h = Some [] \<and>
      h_requestId h = si_targetId destination \<and>
      si_type destination \<in> {Some ''worker'', Some ''shared_worker''} \<and>
      si_type source \<in> {Some ''page'', Some ''iframe'', Some ''worker'', Some ''shared_worker''} \<and>
      rel \<noteq> RelFalse \<and> (si_url destination = None \<or> si_url destination = Some (hop_url h)))"

definition handoff_candidates :: "ledger \<Rightarrow> js \<Rightarrow> nat list" where
  "handoff_candidates L rid =
     filter (\<lambda>i. h_epoch (l_hops L ! i) = l_epoch L \<and> Str (h_requestId (l_hops L ! i)) = rid)
       (map snd (l_active L))"

definition mainResourceCompletion :: "string \<Rightarrow> js \<Rightarrow> ledger \<Rightarrow> nat option" where
  "mainResourceCompletion sid params L =
     (case map_of (l_sessionInfo L) sid of
        None \<Rightarrow> None
      | Some destination \<Rightarrow>
          if si_epoch destination \<noteq> l_epoch L \<or> si_lineageConflict destination
             \<or> \<not> is_finite (getp params ''timestamp'') then None
          else case handoff_candidates L (getp params ''requestId'') of
              [i] \<Rightarrow>
                (case map_of (l_sessionInfo L) (h_sessionId (l_hops L ! i)) of
                   None \<Rightarrow> None
                 | Some source \<Rightarrow>
                     if hop_state (l_hops L ! i) \<noteq> Pending \<or> si_epoch source \<noteq> l_epoch L
                        \<or> si_lineageConflict source \<or> si_targetId source = si_targetId destination
                        \<or> num_of (getp params ''timestamp'') < hop_timestamp (l_hops L ! i) then None
                     else
                       let rel = parentRelation L source destination
                       in if document_handoff (l_hops L ! i) source destination rel
                             \<or> worker_handoff (l_hops L ! i) source destination rel
                          then Some i else None)
            | _ \<Rightarrow> None)"

section \<open>Status history\<close>

definition http_status :: "js \<Rightarrow> bool" where
  "http_status v = (is_integer v \<and> 100 \<le> num_of v \<and> num_of v \<le> 599)"

definition status_methods :: "string list" where
  "status_methods = [''Network.requestWillBeSent'', ''Network.responseReceived'',
     ''Network.responseReceivedExtraInfo'']"

definition empty_history :: status_history where
  "empty_history = \<lparr>sh_starts = 0, sh_responses = 0, sh_extras = 0, sh_redirect = False, sh_status = None\<rparr>"

definition note_history :: "string \<Rightarrow> js \<Rightarrow> status_history \<Rightarrow> status_history" where
  "note_history meth params h =
     (if meth = ''Network.requestWillBeSent''
      then h\<lparr>sh_starts := min (sh_starts h + 1) 2,
             sh_redirect := (sh_redirect h \<or> getp params ''redirectResponse'' \<noteq> Undef)\<rparr>
      else if meth = ''Network.responseReceived''
      then h\<lparr>sh_responses := min (sh_responses h + 1) 2\<rparr>
      else
        let h1 = h\<lparr>sh_extras := min (sh_extras h + 1) 2\<rparr>
        in if sh_extras h1 = 1 \<and> http_status (getp params ''statusCode'')
           then h1\<lparr>sh_status := Some (num_of (getp params ''statusCode''))\<rparr> else h1)"

definition observeStatusHistory :: "string \<Rightarrow> string \<Rightarrow> js \<Rightarrow> ledger \<Rightarrow> ledger" where
  "observeStatusHistory sid meth params L =
     (if meth \<notin> set status_methods then L
      else
        let ridv = getp params ''requestId''
        in if \<not> is_str ridv \<or> str_of ridv = [] \<or> 1024 < length (str_of ridv)
           then gap ''status-history-incomplete'' (L\<lparr>l_statusHistoryComplete := False\<rparr>)
           else
             let hid = hkey_of (l_epoch L) sid ridv
             in case map_of (l_statusHistory L) hid of
                  Some h \<Rightarrow> L\<lparr>l_statusHistory := map_put hid (note_history meth params h) (l_statusHistory L)\<rparr>
                | None \<Rightarrow>
                    if maxStatusEntries (l_limits L) \<le> length (l_statusHistory L)
                    then gap ''status-history-limit'' (L\<lparr>l_statusHistoryComplete := False\<rparr>)
                    else L\<lparr>l_statusHistory :=
                             map_put hid (note_history meth params empty_history) (l_statusHistory L)\<rparr>)"

definition correlate_hop :: "ledger \<Rightarrow> hop \<Rightarrow> hop" where
  "correlate_hop L h =
     (case map_of (l_statusHistory L) (hkey_of (h_epoch h) (h_sessionId h) (Str (h_requestId h))) of
        None \<Rightarrow> h
      | Some history \<Rightarrow>
          if h_epoch h \<noteq> l_epoch L
             \<or> map_option si_epoch (map_of (l_sessionInfo L) (h_sessionId h)) \<noteq> Some (h_epoch h)
             \<or> h_hop h \<noteq> 0 \<or> hop_redirect h \<or> sh_starts history \<noteq> 1 \<or> sh_redirect history
             \<or> sh_extras history \<noteq> 1 \<or> 1 < sh_responses history \<or> sh_status history = None
          then h
          else
            let h1 = h\<lparr>hop_wireStatus := sh_status history\<rparr>
            in if sh_responses history = 0 \<and> hop_statusSource h = ''unavailable'' \<and> hop_status h = None
                  \<and> sh_status history \<noteq> Some 304
               then h1\<lparr>hop_status := sh_status history, hop_statusSource := ''response-received-extra-info''\<rparr>
               else h1)"

definition correlateExtraInfoStatus :: "ledger \<Rightarrow> ledger" where
  "correlateExtraInfoStatus L =
     (if \<not> l_statusHistoryComplete L \<or> l_errors L \<noteq> []
         \<or> \<not> es_complete (evidence_snapshot_of (l_responseEvidence L)) then L
      else L\<lparr>l_hops := map (correlate_hop L) (l_hops L)\<rparr>)"

section \<open>Events\<close>

definition update_hop :: "nat \<Rightarrow> (hop \<Rightarrow> hop) \<Rightarrow> ledger \<Rightarrow> ledger" where
  "update_hop i f L = L\<lparr>l_hops := (l_hops L)[i := f (l_hops L ! i)]\<rparr>"

text \<open>\<open>response(hop, response, source)\<close>.\<close>

definition response_hop :: "js \<Rightarrow> hop \<Rightarrow> hop" where
  "response_hop response h =
     h\<lparr>hop_status := Some (num_of (getp response ''status'')),
       hop_fromDiskCache := (getp response ''fromDiskCache'' = Bool True),
       hop_fromServiceWorker := (getp response ''fromServiceWorker'' = Bool True)\<rparr>"

definition response :: "nat \<Rightarrow> js \<Rightarrow> string \<Rightarrow> ledger \<Rightarrow> ledger" where
  "response i resp source L =
     (let L1 = update_hop i (\<lambda>h. h\<lparr>hop_statusSource := source\<rparr>) L
      in if \<not> truthy resp \<or> \<not> is_finite (getp resp ''status'') then gap ''malformed-response'' L1
         else update_hop i (response_hop resp) L1)"

definition opt_str :: "js \<Rightarrow> string option" where
  "opt_str v = (if is_str v then Some (str_of v) else None)"

definition new_hop :: "nat \<Rightarrow> string \<Rightarrow> string \<Rightarrow> js \<Rightarrow> nat \<Rightarrow> hop" where
  "new_hop ep sid tid p ordinal =
     \<lparr>h_epoch = ep, h_sessionId = sid, h_requestId = str_of (getp p ''requestId''), h_hop = ordinal,
      h_terminalSessionId = None, hop_targetId = tid, hop_loaderId = opt_str (getp p ''loaderId''),
      hop_frameId = opt_str (getp p ''frameId''), hop_url = str_of (getp (getp p ''request'') ''url''),
      hop_method = str_of (getp (getp p ''request'') ''method''),
      hop_resourceType = coalesce (getp p ''type'') (Str []),
      hop_timestamp = num_of (getp p ''timestamp''), hop_status = None, hop_statusSource = ''unavailable'',
      hop_wireStatus = None, hop_state = Pending, hop_fromDiskCache = False, hop_fromServiceWorker = False,
      hop_canceled = False, hop_redirect = False, hop_servedFromCache = False,
      hop_terminalTargetId = None, hop_terminalTimestamp = Undef\<rparr>"

definition wellformed_request :: "js \<Rightarrow> bool" where
  "wellformed_request p = (is_str (getp p ''requestId'') \<and> is_str (getp (getp p ''request'') ''url'') \<and>
     is_str (getp (getp p ''request'') ''method'') \<and> is_finite (getp p ''timestamp''))"

definition redirect_previous :: "js \<Rightarrow> nat option \<Rightarrow> ledger \<Rightarrow> ledger" where
  "redirect_previous p previous L =
     (if \<not> truthy (getp p ''redirectResponse'') then L
      else case previous of
          None \<Rightarrow> gap ''redirect-start-missing'' L
        | Some i \<Rightarrow> update_hop i (\<lambda>h. h\<lparr>hop_state := Complete, hop_redirect := True\<rparr>)
                     (response i (getp p ''redirectResponse'') ''redirect-response'' L))"

definition request_will_be_sent :: "string \<Rightarrow> string \<Rightarrow> js \<Rightarrow> ledger \<Rightarrow> ledger" where
  "request_will_be_sent sid tid p L =
     (if \<not> wellformed_request p then gap ''malformed-request'' L
      else
        let k = hkey_of (l_epoch L) sid (getp p ''requestId'');
            previous = map_of (l_active L) k
        in if previous \<noteq> None \<and> \<not> truthy (getp p ''redirectResponse'') then gap ''request-id-reused'' L
           else
             let L1 = redirect_previous p previous L
             in if maxHops (l_limits L1) \<le> length (l_hops L1) then gap ''hop-limit'' L1
                else
                  let h = new_hop (l_epoch L) sid tid p
                            (case previous of None \<Rightarrow> 0 | Some i \<Rightarrow> h_hop (l_hops L1 ! i) + 1)
                  in L1\<lparr>l_hops := l_hops L1 @ [h], l_active := map_put k (length (l_hops L1)) (l_active L1)\<rparr>)"

definition web_socket_created :: "string \<Rightarrow> string \<Rightarrow> js \<Rightarrow> ledger \<Rightarrow> ledger" where
  "web_socket_created sid tid p L =
     (if maxHops (l_limits L) \<le> length (l_websockets L) then gap ''websocket-limit'' L
      else L\<lparr>l_websockets := l_websockets L @
             [\<lparr>ws_sessionId = sid, ws_targetId = tid, ws_requestId = getp p ''requestId'',
               ws_url = getp p ''url'', ws_method = ''GET''\<rparr>]\<rparr>)"

definition hop_methods :: "string list" where
  "hop_methods = [''Network.responseReceived'', ''Network.requestServedFromCache'',
     ''Network.loadingFinished'', ''Network.loadingFailed'']"

definition finish_hop :: "string \<Rightarrow> string \<Rightarrow> js \<Rightarrow> hop \<Rightarrow> hop" where
  "finish_hop sid tid p h =
     h\<lparr>hop_state := Complete, h_terminalSessionId := Some sid, hop_terminalTargetId := Some tid,
       hop_terminalTimestamp := coalesce (getp p ''timestamp'') Null\<rparr>"

definition fail_hop :: "js \<Rightarrow> hop \<Rightarrow> hop" where
  "fail_hop p h = h\<lparr>hop_state := Failed, hop_canceled := (getp p ''canceled'' = Bool True)\<rparr>"

definition hop_event :: "string \<Rightarrow> string \<Rightarrow> string \<Rightarrow> js \<Rightarrow> ledger \<Rightarrow> ledger" where
  "hop_event meth sid tid p L =
     (if meth \<notin> set hop_methods then L
      else
        case (case map_of (l_active L) (hkey_of (l_epoch L) sid (getp p ''requestId'')) of
                Some i \<Rightarrow> Some i
              | None \<Rightarrow> if meth = ''Network.loadingFinished'' then mainResourceCompletion sid p L else None) of
          None \<Rightarrow> gap ''orphan-network-event'' L
        | Some i \<Rightarrow>
            if meth = ''Network.responseReceived'' then response i (getp p ''response'') ''response-received'' L
            else if meth = ''Network.requestServedFromCache''
            then update_hop i (\<lambda>h. h\<lparr>hop_servedFromCache := True\<rparr>) L
            else if meth = ''Network.loadingFinished'' then update_hop i (finish_hop sid tid p) L
            else update_hop i (fail_hop p) L)"

definition network_event :: "js \<Rightarrow> string \<Rightarrow> js \<Rightarrow> ledger \<Rightarrow> ledger" where
  "network_event sidv meth p L0 =
     (let L = L0\<lparr>l_responseEvidence := observe_event (l_epoch L0) sidv meth p (l_responseEvidence L0)\<rparr>
      in case (if is_str sidv then map_of (l_sessions L) (str_of sidv) else None) of
           None \<Rightarrow> gap ''unknown-session'' L
         | Some tid \<Rightarrow>
             let sid = str_of sidv;
                 L1 = observeStatusHistory sid meth p L
             in if meth = ''Network.webSocketCreated'' then web_socket_created sid tid p L1
                else if meth = ''Network.requestWillBeSent'' then request_will_be_sent sid tid p L1
                else hop_event meth sid tid p L1)"

text \<open>
  \<open>ingest(message, byteLength)\<close>; the caller's byte length is the argument \<open>n\<close>. A missing
  \<open>params\<close> defaults to the empty object.
\<close>

definition ingest :: "js \<Rightarrow> nat \<Rightarrow> ledger \<Rightarrow> ledger" where
  "ingest message n L =
     (if l_finalized L then L
      else if \<not> is_obj message then gap ''malformed-message'' L
      else
        let L1 = L\<lparr>l_events := l_events L + 1, l_bytes := l_bytes L + n\<rparr>
        in if maxEvents (l_limits L1) < l_events L1 \<or> maxBytes (l_limits L1) < l_bytes L1
           then gap ''event-budget'' L1
           else
             let meth = getp message ''method'';
                 p = (if getp message ''params'' = Undef then Obj [] else getp message ''params'')
             in if \<not> is_str meth \<or> \<not> is_obj p then gap ''malformed-event'' L1
                else if \<not> prefix ''Network.'' (str_of meth) then L1
                else network_event (getp message ''sessionId'') (str_of meth) p L1)"

section \<open>Snapshots\<close>

definition live_snapshot :: "ledger \<Rightarrow> snapshot" where
  "live_snapshot L =
     \<lparr>sn_finalized = l_finalized L, sn_epoch = l_epoch L, sn_sessions = map snd (l_sessionInfo L),
      sn_responseEvidence = evidence_snapshot_of (l_responseEvidence L), sn_hops = l_hops L,
      sn_websockets = l_websockets L, sn_errors = l_errors L, sn_events = l_events L, sn_bytes = l_bytes L\<rparr>"

definition ledger_snapshot :: "ledger \<Rightarrow> snapshot" where
  "ledger_snapshot L = (case l_finalSnapshot L of Some s \<Rightarrow> s | None \<Rightarrow> live_snapshot L)"

definition finalize :: "ledger \<Rightarrow> ledger" where
  "finalize L =
     (if l_finalized L then L
      else
        let L1 = correlateExtraInfoStatus L;
            L2 = L1\<lparr>l_finalized := True\<rparr>
        in L2\<lparr>l_finalSnapshot := Some (ledger_snapshot L2)\<rparr>)"

end
