(* ===== verification/LedgerInvariant.thy ===== *)
theory LedgerInvariant
  imports ReferenceLedger
begin

text \<open>
  The invariant of the reference ledger and its preservation by every public operation.
  The part about hops speaks only of the list of hop identities and of fields the
  operations rewrite in place, so each operation is checked against the fields it writes.
\<close>

named_theorems ledger_simps \<open>what the ledger's primitive operations leave unchanged\<close>

section \<open>Frame facts\<close>

lemma gap_frame [simp, ledger_simps]:
  "l_limits (gap r L) = l_limits L" "l_sessions (gap r L) = l_sessions L"
  "l_sessionInfo (gap r L) = l_sessionInfo L" "l_active (gap r L) = l_active L"
  "l_hops (gap r L) = l_hops L" "l_websockets (gap r L) = l_websockets L"
  "l_responseEvidence (gap r L) = l_responseEvidence L" "l_statusHistory (gap r L) = l_statusHistory L"
  "l_statusHistoryComplete (gap r L) = l_statusHistoryComplete L" "l_events (gap r L) = l_events L"
  "l_bytes (gap r L) = l_bytes L" "l_epoch (gap r L) = l_epoch L" "l_finalized (gap r L) = l_finalized L"
  "l_finalSnapshot (gap r L) = l_finalSnapshot L"
  by (simp_all add: gap_def)

lemma gap_errors_not_Nil [simp]: "l_errors (gap r L) \<noteq> []"
  by (auto simp: gap_def)

lemma gap_errors_prefix: "prefix (l_errors L) (l_errors (gap r L))"
  by (simp add: gap_def prefix_set_add)

definition errors_ok :: "string list \<Rightarrow> bool" where
  "errors_ok es \<longleftrightarrow> length es \<le> 32 \<and> distinct es"

lemma errors_ok_gap [simp]: "errors_ok (l_errors L) \<Longrightarrow> errors_ok (l_errors (gap r L))"
  by (auto simp: errors_ok_def gap_def length_set_add)

lemma update_hop_frame [simp, ledger_simps]:
  "l_limits (update_hop i f L) = l_limits L" "l_sessions (update_hop i f L) = l_sessions L"
  "l_sessionInfo (update_hop i f L) = l_sessionInfo L" "l_active (update_hop i f L) = l_active L"
  "l_websockets (update_hop i f L) = l_websockets L"
  "l_responseEvidence (update_hop i f L) = l_responseEvidence L"
  "l_statusHistory (update_hop i f L) = l_statusHistory L"
  "l_statusHistoryComplete (update_hop i f L) = l_statusHistoryComplete L"
  "l_events (update_hop i f L) = l_events L" "l_bytes (update_hop i f L) = l_bytes L"
  "l_epoch (update_hop i f L) = l_epoch L" "l_finalized (update_hop i f L) = l_finalized L"
  "l_finalSnapshot (update_hop i f L) = l_finalSnapshot L" "l_errors (update_hop i f L) = l_errors L"
  "length (l_hops (update_hop i f L)) = length (l_hops L)"
  by (simp_all add: update_hop_def)

section \<open>Hop identities\<close>

definition hop_key :: "hop \<Rightarrow> hkey" where
  "hop_key h = hkey_of (h_epoch h) (h_sessionId h) (Str (h_requestId h))"

text \<open>What no in-place update touches: the namespace of a hop, its ordinal and its target.\<close>

definition hop_ident :: "hop \<Rightarrow> hkey \<times> nat" where
  "hop_ident h = (hop_key h, h_hop h)"

definition same_ident :: "(hop \<Rightarrow> hop) \<Rightarrow> bool" where
  "same_ident f \<longleftrightarrow> (\<forall>h. h_epoch (f h) = h_epoch h \<and> h_sessionId (f h) = h_sessionId h \<and>
     h_requestId (f h) = h_requestId h \<and> h_hop (f h) = h_hop h \<and> hop_targetId (f h) = hop_targetId h)"

lemma same_identD:
  "same_ident f \<Longrightarrow> h_epoch (f h) = h_epoch h" "same_ident f \<Longrightarrow> h_sessionId (f h) = h_sessionId h"
  "same_ident f \<Longrightarrow> h_requestId (f h) = h_requestId h" "same_ident f \<Longrightarrow> h_hop (f h) = h_hop h"
  "same_ident f \<Longrightarrow> hop_targetId (f h) = hop_targetId h"
  by (auto simp: same_ident_def)

lemma same_ident_updates [simp]:
  "same_ident (\<lambda>h. h\<lparr>hop_statusSource := src\<rparr>)" "same_ident (response_hop resp)"
  "same_ident (\<lambda>h. h\<lparr>hop_state := Complete, hop_redirect := True\<rparr>)"
  "same_ident (\<lambda>h. h\<lparr>hop_servedFromCache := True\<rparr>)"
  "same_ident (finish_hop sid tid p)" "same_ident (fail_hop p)" "same_ident (correlate_hop L)"
  by (auto simp: same_ident_def response_hop_def finish_hop_def fail_hop_def correlate_hop_def Let_def
      split: option.split)

lemma hop_ident_same [simp]: "same_ident f \<Longrightarrow> hop_ident (f h) = hop_ident h"
  by (simp add: hop_ident_def hop_key_def same_identD)

text \<open>
  Namespaces and their ordinals: the active map points to the last hop of each namespace
  that has one, and the ordinals of a namespace count up from zero in order of observation.
\<close>

definition chain_ok :: "('k \<times> nat) list \<Rightarrow> ('k \<times> nat) list \<Rightarrow> bool" where
  "chain_ok ids active \<longleftrightarrow>
     (\<forall>k i. map_of active k = Some i \<longrightarrow> i < length ids \<and> fst (ids ! i) = k) \<and>
     (\<forall>j < length ids. \<exists>i. map_of active (fst (ids ! j)) = Some i \<and> j \<le> i) \<and>
     (\<forall>k. map snd (filter (\<lambda>x. fst x = k) ids) = [0..<length (filter (\<lambda>x. fst x = k) ids)])"

lemma last_filter_nth:
  assumes "i < length xs" "P (xs ! i)" "\<And>j. j < length xs \<Longrightarrow> P (xs ! j) \<Longrightarrow> j \<le> i"
  shows "filter P xs \<noteq> [] \<and> last (filter P xs) = xs ! i"
proof -
  have "filter P (drop (Suc i) xs) = []"
  proof -
    have "\<not> P (drop (Suc i) xs ! j)" if "j < length xs - Suc i" for j
    proof -
      have "Suc (i + j) < length xs" using that by linarith
      then show ?thesis using assms(3) [of "Suc i + j"] by auto
    qed
    then show ?thesis by (auto simp: filter_empty_conv in_set_conv_nth)
  qed
  moreover have "xs = take i xs @ xs ! i # drop (Suc i) xs"
    by (rule id_take_nth_drop [OF assms(1)])
  ultimately have "filter P xs = filter P (take i xs) @ [xs ! i]"
    using assms(2) by (metis filter.simps(2) filter_append)
  then show ?thesis by simp
qed

lemma chain_ok_Nil [simp]: "chain_ok [] []"
  by (simp add: chain_ok_def)

lemma chain_ok_append:
  assumes ok: "chain_ok ids active"
    and n: "n = (case map_of active k of None \<Rightarrow> 0 | Some i \<Rightarrow> snd (ids ! i) + 1)"
  shows "chain_ok (ids @ [(k, n)]) (map_put k (length ids) active)"
proof -
  let ?F = "\<lambda>k xs. filter (\<lambda>x. fst x = k) xs"
  have ord: "map snd (?F k' ids) = [0..<length (?F k' ids)]" for k'
    using ok by (simp add: chain_ok_def)
  have "n = length (?F k ids)"
  proof (cases "map_of active k")
    case None
    have "?F k ids = []"
    proof -
      have "fst (ids ! j) \<noteq> k" if "j < length ids" for j
        using that None ok by (auto simp: chain_ok_def)
      then show ?thesis by (force simp: filter_empty_conv in_set_conv_nth)
    qed
    then show ?thesis by (simp add: n None)
  next
    case (Some i)
    have i: "i < length ids" "fst (ids ! i) = k"
      using ok Some unfolding chain_ok_def by blast+
    have "j \<le> i" if "j < length ids" "fst (ids ! j) = k" for j
    proof -
      from ok that(1) obtain i' where "map_of active (fst (ids ! j)) = Some i'" "j \<le> i'"
        unfolding chain_ok_def by blast
      with that(2) Some show ?thesis by simp
    qed
    then have last: "?F k ids \<noteq> []" "last (?F k ids) = ids ! i"
      using last_filter_nth [of i ids "\<lambda>x. fst x = k"] i by auto
    then have "snd (ids ! i) = last (map snd (?F k ids))" by (simp add: last_map)
    then show ?thesis using last(1) by (simp add: n Some ord last_upt)
  qed
  then have new: "map snd (?F k' (ids @ [(k, n)])) = [0..<length (?F k' (ids @ [(k, n)]))]" for k'
    by (simp add: ord)
  have "\<exists>i. map_of (map_put k (length ids) active) (fst ((ids @ [(k, n)]) ! j)) = Some i \<and> j \<le> i"
    if "j < Suc (length ids)" for j
    using that ok by (auto simp: chain_ok_def nth_append)
  moreover have "i < Suc (length ids) \<and> fst ((ids @ [(k, n)]) ! i) = k'"
    if "map_of (map_put k (length ids) active) k' = Some i" for k' i
  proof (cases "k' = k")
    case True
    then show ?thesis using that by (auto simp: nth_append)
  next
    case False
    with that have "map_of active k' = Some i" by simp
    then have "i < length ids" "fst (ids ! i) = k'" using ok unfolding chain_ok_def by blast+
    then show ?thesis by (simp add: nth_append)
  qed
  ultimately show ?thesis using new unfolding chain_ok_def by simp
qed

section \<open>Status provenance\<close>

definition statusSources :: "string list" where
  "statusSources = [''unavailable'', ''response-received'', ''redirect-response'',
     ''response-received-extra-info'']"

definition http_rat :: "rat \<Rightarrow> bool" where
  "http_rat w \<longleftrightarrow> rat_is_int w \<and> 100 \<le> w \<and> w \<le> 599"

definition prov_ok :: "hop \<Rightarrow> bool" where
  "prov_ok h \<longleftrightarrow> hop_statusSource h \<in> set statusSources \<and>
     (\<forall>w. hop_wireStatus h = Some w \<longrightarrow> http_rat w) \<and>
     (hop_statusSource h = ''unavailable'' \<longrightarrow> hop_status h = None) \<and>
     (hop_statusSource h = ''response-received-extra-info'' \<longrightarrow>
        hop_status h = hop_wireStatus h \<and> hop_status h \<noteq> None \<and> hop_status h \<noteq> Some 304)"

definition hist_ok :: "status_history \<Rightarrow> bool" where
  "hist_ok h \<longleftrightarrow> (\<forall>w. sh_status h = Some w \<longrightarrow> http_rat w) \<and>
     sh_starts h \<le> 2 \<and> sh_responses h \<le> 2 \<and> sh_extras h \<le> 2"

lemma statusSources_member [simp]:
  "''unavailable'' \<in> set statusSources" "''response-received'' \<in> set statusSources"
  "''redirect-response'' \<in> set statusSources" "''response-received-extra-info'' \<in> set statusSources"
  by (simp_all add: statusSources_def)

lemma http_status_rat: "http_status v \<Longrightarrow> http_rat (num_of v)"
  by (auto simp: http_status_def http_rat_def is_integer_def split: js.splits jsnum.splits)

lemma hist_ok_note: "hist_ok h \<Longrightarrow> hist_ok (note_history m p h)"
  by (auto simp: hist_ok_def note_history_def Let_def http_status_rat)

lemma hist_ok_empty [simp]: "hist_ok empty_history"
  by (simp add: hist_ok_def empty_history_def)

lemma prov_ok_new [simp]: "prov_ok (new_hop ep sid tid p n)"
  by (simp add: prov_ok_def new_hop_def)

text \<open>Until \<open>finalize\<close> no wire status is attached to any hop.\<close>

definition prov_live :: "hop \<Rightarrow> bool" where
  "prov_live h \<longleftrightarrow> prov_ok h \<and> hop_wireStatus h = None"

lemma prov_live_source: "prov_live h \<Longrightarrow> hop_statusSource h \<noteq> ''response-received-extra-info''"
  by (auto simp: prov_live_def prov_ok_def)

lemma prov_live_new [simp]: "prov_live (new_hop ep sid tid p n)"
  by (simp add: prov_live_def) (simp add: new_hop_def)

lemma prov_ok_correlate:
  assumes "prov_live h" "\<forall>(k, x) \<in> set (l_statusHistory L). hist_ok x"
  shows "prov_ok (correlate_hop L h)"
proof (cases "map_of (l_statusHistory L) (hkey_of (h_epoch h) (h_sessionId h) (Str (h_requestId h)))")
  case None
  then show ?thesis using assms(1) by (simp add: correlate_hop_def prov_live_def)
next
  case (Some x)
  then have "hist_ok x" using assms(2) by (auto dest: map_of_SomeD)
  then have w: "\<forall>w. sh_status x = Some w \<longrightarrow> http_rat w" by (simp add: hist_ok_def)
  have src: "hop_statusSource h \<noteq> ''response-received-extra-info''"
    using assms(1) by (rule prov_live_source)
  have ok: "prov_ok h" using assms(1) by (simp add: prov_live_def)
  show ?thesis
  proof (cases "hop_statusSource h = ''unavailable''")
    case True
    then show ?thesis using ok Some w
      by (auto simp: correlate_hop_def Let_def prov_ok_def)
  next
    case False
    then show ?thesis using ok Some w src
      by (auto simp: correlate_hop_def Let_def prov_ok_def)
  qed
qed

section \<open>The invariant\<close>

definition sessions_inv :: "ledger \<Rightarrow> bool" where
  "sessions_inv L \<longleftrightarrow>
     length (l_sessions L) \<le> maxSessions (l_limits L) \<and>
     map fst (l_sessions L) = map fst (l_sessionInfo L) \<and> distinct (map fst (l_sessions L)) \<and>
     (\<forall>sid info. map_of (l_sessionInfo L) sid = Some info \<longrightarrow>
        si_sessionId info = sid \<and> map_of (l_sessions L) sid = Some (si_targetId info)) \<and>
     (\<forall>sid tid. map_of (l_sessions L) sid = Some tid \<longrightarrow> sid \<noteq> [] \<and> tid \<noteq> [])"

definition hops_inv :: "ledger \<Rightarrow> bool" where
  "hops_inv L \<longleftrightarrow>
     length (l_hops L) \<le> maxHops (l_limits L) \<and>
     chain_ok (map hop_ident (l_hops L)) (l_active L) \<and>
     (\<forall>h \<in> set (l_hops L). prov_ok h \<and> (\<not> l_finalized L \<longrightarrow> prov_live h) \<and>
        map_of (l_sessions L) (h_sessionId h) = Some (hop_targetId h))"

definition history_inv :: "ledger \<Rightarrow> bool" where
  "history_inv L \<longleftrightarrow> length (l_statusHistory L) \<le> maxStatusEntries (l_limits L) \<and>
     (\<forall>(k, x) \<in> set (l_statusHistory L). hist_ok x)"

definition ledger_inv :: "ledger \<Rightarrow> bool" where
  "ledger_inv L \<longleftrightarrow> sessions_inv L \<and> hops_inv L \<and> history_inv L \<and>
     length (l_websockets L) \<le> maxHops (l_limits L) \<and> errors_ok (l_errors L) \<and>
     evidence_inv (l_responseEvidence L) \<and> (l_finalized L \<longleftrightarrow> l_finalSnapshot L \<noteq> None)"

lemma ledger_inv_new [simp]: "ledger_inv (new_ledger lims)"
  by (simp add: ledger_inv_def sessions_inv_def hops_inv_def history_inv_def errors_ok_def
      new_ledger_def evidence_inv_create)

text \<open>Each part depends on a few fields only.\<close>

lemma inv_parts_gap [simp]:
  "sessions_inv (gap r L) = sessions_inv L" "hops_inv (gap r L) = hops_inv L"
  "history_inv (gap r L) = history_inv L"
  by (simp_all only: sessions_inv_def hops_inv_def history_inv_def gap_frame)

lemma sessions_inv_errors: "sessions_inv (L\<lparr>l_errors := es\<rparr>) = sessions_inv L"
  by (simp add: sessions_inv_def)

lemma ledger_inv_gap [simp]: "ledger_inv L \<Longrightarrow> ledger_inv (gap r L)"
  by (simp add: ledger_inv_def)

subsection \<open>Sessions\<close>

text \<open>What describing a session may change: its lineage fields and the list of gaps.\<close>

definition describes :: "session_info \<times> ledger \<Rightarrow> session_info \<times> ledger \<Rightarrow> bool" where
  "describes a b \<longleftrightarrow> si_epoch (fst b) = si_epoch (fst a) \<and> si_sessionId (fst b) = si_sessionId (fst a) \<and>
     si_targetId (fst b) = si_targetId (fst a) \<and>
     snd b = (snd a)\<lparr>l_errors := l_errors (snd b)\<rparr> \<and> prefix (l_errors (snd a)) (l_errors (snd b)) \<and>
     (errors_ok (l_errors (snd a)) \<longrightarrow> errors_ok (l_errors (snd b)))"

definition lineage_update :: "((string option \<Rightarrow> string option) \<Rightarrow> session_info \<Rightarrow> session_info) \<Rightarrow> bool" where
  "lineage_update upd \<longleftrightarrow> (\<forall>f s. si_epoch (upd f s) = si_epoch s \<and>
     si_sessionId (upd f s) = si_sessionId s \<and> si_targetId (upd f s) = si_targetId s)"

lemma lineage_updates [simp]:
  "lineage_update si_type_update" "lineage_update si_parentId_update" "lineage_update si_parentFrameId_update"
  "lineage_update si_openerId_update" "lineage_update si_openerFrameId_update"
  "lineage_update si_targetParentSessionId_update"
  by (simp_all add: lineage_update_def)

lemma describes_refl [simp]: "describes a a"
  by (simp add: describes_def)

lemma describes_trans: "describes a b \<Longrightarrow> describes b c \<Longrightarrow> describes a c"
proof -
  assume ab: "describes a b" and bc: "describes b c"
  have "snd c = (snd a)\<lparr>l_errors := l_errors (snd c)\<rparr>"
  proof -
    have "snd c = (snd b)\<lparr>l_errors := l_errors (snd c)\<rparr>" using bc by (simp add: describes_def)
    also have "\<dots> = ((snd a)\<lparr>l_errors := l_errors (snd b)\<rparr>)\<lparr>l_errors := l_errors (snd c)\<rparr>"
      using ab unfolding describes_def by metis
    finally show ?thesis by simp
  qed
  then show ?thesis using ab bc prefix_order.trans unfolding describes_def by metis
qed

lemma gap_is_update: "gap r L = L\<lparr>l_errors := l_errors (gap r L)\<rparr>"
  by (simp add: gap_def)

lemma describes_gap: "describes (a, L) (a\<lparr>si_lineageConflict := True\<rparr>, gap r L)"
  unfolding describes_def fst_conv snd_conv
  by (intro conjI) (simp_all add: gap_errors_prefix gap_is_update [symmetric])

lemma describes_retain: "lineage_update upd \<Longrightarrow> describes oL (retain rd upd v oL)"
proof -
  assume upd: "lineage_update upd"
  obtain a L where oL: "oL = (a, L)" by (cases oL)
  have "describes (a, L) (upd f a, L)" for f
    using upd by (simp add: describes_def lineage_update_def)
  then show ?thesis by (simp add: oL retain_def describes_gap)
qed

lemma describes_describe: "describes oL (describe_owner info parent oL)"
proof -
  have url: "describes aL (case aL of (a, L) \<Rightarrow> (if c then a\<lparr>si_url := x\<rparr> else a, L))" for aL c x
    by (cases aL) (simp add: describes_def)
  show ?thesis
    unfolding describe_owner_def Let_def
    by (intro describes_trans [OF _ url] describes_trans [OF _ describes_retain] describes_refl)
      (rule lineage_updates)+
qed

lemma describeSession_shape:
  "\<exists>infos es. describeSession sid info parent L = L\<lparr>l_sessionInfo := infos, l_errors := es\<rparr> \<and>
     prefix (l_errors L) es \<and> (errors_ok (l_errors L) \<longrightarrow> errors_ok es) \<and>
     (infos = l_sessionInfo L \<or> (\<exists>owner owner'. map_of (l_sessionInfo L) sid = Some owner \<and>
        infos = map_put sid owner' (l_sessionInfo L) \<and> si_epoch owner' = si_epoch owner \<and>
        si_sessionId owner' = si_sessionId owner \<and> si_targetId owner' = si_targetId owner))"
proof (cases "map_of (l_sessionInfo L) sid")
  case None
  then have "describeSession sid info parent L = L\<lparr>l_sessionInfo := l_sessionInfo L, l_errors := l_errors L\<rparr>"
    by (simp add: describeSession_def)
  then show ?thesis by blast
next
  case (Some owner)
  obtain o' L' where d: "describe_owner info parent (owner, L) = (o', L')" by force
  have desc: "describes (owner, L) (o', L')" using describes_describe [of "(owner, L)" info parent] d by simp
  then have L': "L' = L\<lparr>l_errors := l_errors L'\<rparr>" and rest: "prefix (l_errors L) (l_errors L')"
    "errors_ok (l_errors L) \<longrightarrow> errors_ok (l_errors L')"
    "si_epoch o' = si_epoch owner" "si_sessionId o' = si_sessionId owner" "si_targetId o' = si_targetId owner"
    by (auto simp only: describes_def fst_conv snd_conv)
  have infos: "l_sessionInfo L' = l_sessionInfo L" by (subst L') simp
  have "describeSession sid info parent L = L'\<lparr>l_sessionInfo := map_put sid o' (l_sessionInfo L)\<rparr>"
    by (simp add: describeSession_def Some d infos)
  also have "\<dots> = L\<lparr>l_sessionInfo := map_put sid o' (l_sessionInfo L), l_errors := l_errors L'\<rparr>"
    by (subst L') simp
  finally show ?thesis using Some rest by blast
qed

lemma map_fst_put: "map_of m k \<noteq> None \<Longrightarrow> map fst (map_put k v m) = map fst m"
  by (induction m) (auto simp: map_put_def)

lemma map_fst_put_new: "map_of m k = None \<Longrightarrow> map fst (map_put k v m) = map fst m @ [k]"
  by (induction m) (auto simp: map_put_def)

lemma sessions_inv_describe: "sessions_inv L \<Longrightarrow> sessions_inv (describeSession sid info parent L)"
proof -
  assume inv: "sessions_inv L"
  obtain infos es where eq: "describeSession sid info parent L = L\<lparr>l_sessionInfo := infos, l_errors := es\<rparr>"
    and alt: "infos = l_sessionInfo L \<or> (\<exists>owner owner'. map_of (l_sessionInfo L) sid = Some owner \<and>
        infos = map_put sid owner' (l_sessionInfo L) \<and> si_epoch owner' = si_epoch owner \<and>
        si_sessionId owner' = si_sessionId owner \<and> si_targetId owner' = si_targetId owner)"
    using describeSession_shape [of sid info parent L] by blast
  from alt show ?thesis
  proof (elim disjE exE conjE)
    assume "infos = l_sessionInfo L"
    then show ?thesis using inv by (simp add: eq sessions_inv_errors)
  next
    fix owner owner'
    assume a: "map_of (l_sessionInfo L) sid = Some owner" "infos = map_put sid owner' (l_sessionInfo L)"
      "si_sessionId owner' = si_sessionId owner" "si_targetId owner' = si_targetId owner"
    then show ?thesis using inv map_fst_put [of "l_sessionInfo L" sid owner']
      by (auto simp: eq sessions_inv_def)
  qed
qed

lemma ledger_inv_describe: "ledger_inv L \<Longrightarrow> ledger_inv (describeSession sid info parent L)"
proof -
  assume inv: "ledger_inv L"
  obtain infos es where eq: "describeSession sid info parent L = L\<lparr>l_sessionInfo := infos, l_errors := es\<rparr>"
    and es: "errors_ok (l_errors L) \<longrightarrow> errors_ok es"
    using describeSession_shape [of sid info parent L] by blast
  have "sessions_inv (describeSession sid info parent L)"
    using inv by (simp add: ledger_inv_def sessions_inv_describe)
  then show ?thesis using inv es by (simp add: eq ledger_inv_def hops_inv_def history_inv_def)
qed

lemma ledger_inv_session: "ledger_inv L \<Longrightarrow> ledger_inv (fst (session sidv tidv info parent L))"
proof -
  assume inv: "ledger_inv L"
  let ?sid = "str_of sidv" and ?tid = "str_of tidv"
  let ?L1 = "L\<lparr>l_sessions := map_put ?sid ?tid (l_sessions L),
      l_sessionInfo := map_put ?sid (new_session_info (l_epoch L) ?sid ?tid parent) (l_sessionInfo L)\<rparr>"
  have new: "ledger_inv ?L1" if none: "map_of (l_sessions L) ?sid = None"
    and room: "length (l_sessions L) < maxSessions (l_limits L)"
    and ids: "?sid \<noteq> []" "?tid \<noteq> []"
  proof -
    have s: "sessions_inv L" and h: "hops_inv L" using inv by (auto simp: ledger_inv_def)
    have keys: "map fst (l_sessions L) = map fst (l_sessionInfo L)" and d: "distinct (map fst (l_sessions L))"
      using s by (auto simp: sessions_inv_def)
    have none': "map_of (l_sessionInfo L) ?sid = None"
      using none keys by (metis list.set_map map_of_eq_None_iff)
    have "sessions_inv ?L1"
      using s none none' room ids map_fst_put_new [OF none] map_fst_put_new [OF none'] d
      by (auto simp: sessions_inv_def length_map_put new_session_info_def map_of_eq_None_iff)
    moreover have "hops_inv ?L1"
      using h none by (auto simp: hops_inv_def)
    ultimately show ?thesis using inv by (simp add: ledger_inv_def history_inv_def)
  qed
  show ?thesis
    using inv new
    by (auto simp: session_def Let_def valid_session_id_def intro: ledger_inv_describe split: option.split)
qed

subsection \<open>Status history and hops\<close>

lemma history_inv_put:
  assumes "history_inv L" "hist_ok x"
    and "map_of (l_statusHistory L) k \<noteq> None \<or> length (l_statusHistory L) < maxStatusEntries (l_limits L)"
  shows "history_inv (L\<lparr>l_statusHistory := map_put k x (l_statusHistory L)\<rparr>)"
  using assms set_map_put [of k x "l_statusHistory L"]
  by (auto simp: history_inv_def length_map_put)

lemma ledger_inv_history:
  "ledger_inv L \<Longrightarrow> history_inv (L\<lparr>l_statusHistory := hs\<rparr>) \<Longrightarrow> ledger_inv (L\<lparr>l_statusHistory := hs\<rparr>)"
  "ledger_inv L \<Longrightarrow> ledger_inv (L\<lparr>l_statusHistoryComplete := b\<rparr>)"
proof -
  have parts: "sessions_inv (L\<lparr>l_statusHistory := hs\<rparr>) = sessions_inv L" "hops_inv (L\<lparr>l_statusHistory := hs\<rparr>) = hops_inv L"
    "sessions_inv (L\<lparr>l_statusHistoryComplete := b\<rparr>) = sessions_inv L"
    "hops_inv (L\<lparr>l_statusHistoryComplete := b\<rparr>) = hops_inv L"
    "history_inv (L\<lparr>l_statusHistoryComplete := b\<rparr>) = history_inv L"
    by (simp_all add: sessions_inv_def hops_inv_def history_inv_def)
  show "ledger_inv L \<Longrightarrow> history_inv (L\<lparr>l_statusHistory := hs\<rparr>) \<Longrightarrow> ledger_inv (L\<lparr>l_statusHistory := hs\<rparr>)"
    "ledger_inv L \<Longrightarrow> ledger_inv (L\<lparr>l_statusHistoryComplete := b\<rparr>)"
    by (simp_all add: ledger_inv_def parts)
qed

lemma ledger_inv_observeStatusHistory:
  assumes inv: "ledger_inv L"
  shows "ledger_inv (observeStatusHistory sid m p L)"
proof -
  let ?k = "hkey_of (l_epoch L) sid (getp p ''requestId'')"
  have h: "history_inv L" using inv by (simp add: ledger_inv_def)
  have old: "ledger_inv (L\<lparr>l_statusHistory := map_put ?k (note_history m p x) (l_statusHistory L)\<rparr>)"
    if "map_of (l_statusHistory L) ?k = Some x" for x
  proof (rule ledger_inv_history(1) [OF inv], rule history_inv_put [OF h])
    have "hist_ok x" using h that by (auto simp: history_inv_def dest: map_of_SomeD)
    then show "hist_ok (note_history m p x)" by (rule hist_ok_note)
    show "map_of (l_statusHistory L) ?k \<noteq> None \<or> length (l_statusHistory L) < maxStatusEntries (l_limits L)"
      using that by simp
  qed
  have new: "ledger_inv (L\<lparr>l_statusHistory := map_put ?k (note_history m p empty_history) (l_statusHistory L)\<rparr>)"
    if "length (l_statusHistory L) < maxStatusEntries (l_limits L)"
    by (rule ledger_inv_history(1) [OF inv], rule history_inv_put [OF h])
      (use that in \<open>auto intro: hist_ok_note\<close>)
  show ?thesis
    using inv old new
    by (auto simp: observeStatusHistory_def Let_def not_le ledger_inv_history(2) split: option.split)
qed

text \<open>In-place updates of a hop keep the invariant if they keep its identity and its provenance.\<close>

definition prov_keeping :: "bool \<Rightarrow> (hop \<Rightarrow> hop) \<Rightarrow> bool" where
  "prov_keeping fin f \<longleftrightarrow> same_ident f \<and> (\<forall>h. prov_ok h \<longrightarrow> prov_ok (f h)) \<and>
     (\<not> fin \<longrightarrow> (\<forall>h. prov_live h \<longrightarrow> prov_live (f h)))"

lemma hops_inv_update:
  assumes "hops_inv L" "prov_keeping (l_finalized L) f"
  shows "hops_inv (update_hop i f L)"
proof (cases "i < length (l_hops L)")
  case True
  have "map hop_ident ((l_hops L)[i := f (l_hops L ! i)]) = map hop_ident (l_hops L)"
    using assms(2) True by (simp add: map_update prov_keeping_def list_update_same_conv)
  moreover have "\<forall>h \<in> set ((l_hops L)[i := f (l_hops L ! i)]).
      prov_ok h \<and> (\<not> l_finalized L \<longrightarrow> prov_live h) \<and> map_of (l_sessions L) (h_sessionId h) = Some (hop_targetId h)"
    using assms True nth_mem [OF True] set_update_subset_insert [of "l_hops L" i "f (l_hops L ! i)"]
    by (auto simp: hops_inv_def prov_keeping_def same_identD)
  ultimately show ?thesis using assms(1) by (simp add: hops_inv_def update_hop_def)
next
  case False
  then show ?thesis using assms(1) by (simp add: hops_inv_def update_hop_def list_update_beyond)
qed

lemma ledger_inv_update:
  assumes "ledger_inv L" "prov_keeping (l_finalized L) f"
  shows "ledger_inv (update_hop i f L)"
proof -
  have "sessions_inv (update_hop i f L) = sessions_inv L" "history_inv (update_hop i f L) = history_inv L"
    by (simp_all only: sessions_inv_def history_inv_def update_hop_frame)
  then show ?thesis using assms hops_inv_update by (simp add: ledger_inv_def)
qed

lemma prov_keeping_frame:
  assumes "same_ident f" "\<And>h. hop_statusSource (f h) = hop_statusSource h"
    "\<And>h. hop_status (f h) = hop_status h" "\<And>h. hop_wireStatus (f h) = hop_wireStatus h"
  shows "prov_keeping fin f"
proof -
  have "prov_ok (f h) = prov_ok h" for h by (simp add: prov_ok_def assms(2-4))
  then have "prov_live (f h) = prov_live h" for h by (simp add: prov_live_def assms(4))
  then show ?thesis using assms(1) \<open>\<And>h. prov_ok (f h) = prov_ok h\<close> by (simp add: prov_keeping_def)
qed

lemma prov_keeping_updates [simp]:
  "prov_keeping fin (\<lambda>h. h\<lparr>hop_state := Complete, hop_redirect := True\<rparr>)"
  "prov_keeping fin (\<lambda>h. h\<lparr>hop_servedFromCache := True\<rparr>)"
  "prov_keeping fin (finish_hop sid tid p)" "prov_keeping fin (fail_hop p)"
  by (rule prov_keeping_frame; simp add: same_ident_def finish_hop_def fail_hop_def)+

lemma prov_keeping_source:
  "src \<in> {''response-received'', ''redirect-response''} \<Longrightarrow> prov_keeping fin (\<lambda>h. h\<lparr>hop_statusSource := src\<rparr>)"
  by (auto simp: prov_keeping_def prov_live_def prov_ok_def)

text \<open>A response first names its source and then fills the status in; together they keep provenance.\<close>

lemma prov_keeping_response:
  "src \<in> {''response-received'', ''redirect-response''} \<Longrightarrow>
   prov_keeping fin (response_hop resp \<circ> (\<lambda>h. h\<lparr>hop_statusSource := src\<rparr>))"
  by (auto simp: prov_keeping_def prov_live_def prov_ok_def same_ident_def response_hop_def)

lemma update_hop_twice:
  "update_hop i g (update_hop i f L) = (if i < length (l_hops L) then update_hop i (g \<circ> f) L else L)"
  by (auto simp: update_hop_def list_update_beyond)

lemma ledger_inv_response:
  assumes "ledger_inv L" "src \<in> {''response-received'', ''redirect-response''}"
  shows "ledger_inv (response i resp src L)"
proof -
  have "ledger_inv (update_hop i (\<lambda>h. h\<lparr>hop_statusSource := src\<rparr>) L)"
    by (rule ledger_inv_update [OF assms(1) prov_keeping_source [OF assms(2)]])
  moreover have "ledger_inv (update_hop i (response_hop resp \<circ> (\<lambda>h. h\<lparr>hop_statusSource := src\<rparr>)) L)"
    by (rule ledger_inv_update [OF assms(1) prov_keeping_response [OF assms(2)]])
  ultimately show ?thesis using assms(1) by (simp add: response_def Let_def update_hop_twice)
qed

lemma response_frame [simp, ledger_simps]:
  "l_limits (response i resp src L) = l_limits L" "l_sessions (response i resp src L) = l_sessions L"
  "l_sessionInfo (response i resp src L) = l_sessionInfo L" "l_active (response i resp src L) = l_active L"
  "l_epoch (response i resp src L) = l_epoch L" "l_finalized (response i resp src L) = l_finalized L"
  "l_finalSnapshot (response i resp src L) = l_finalSnapshot L" "l_websockets (response i resp src L) = l_websockets L"
  "l_responseEvidence (response i resp src L) = l_responseEvidence L"
  "length (l_hops (response i resp src L)) = length (l_hops L)"
  by (simp_all add: response_def Let_def)

lemma redirect_frame [simp, ledger_simps]:
  "l_limits (redirect_previous p prev L) = l_limits L" "l_sessions (redirect_previous p prev L) = l_sessions L"
  "l_sessionInfo (redirect_previous p prev L) = l_sessionInfo L" "l_active (redirect_previous p prev L) = l_active L"
  "l_epoch (redirect_previous p prev L) = l_epoch L" "l_finalized (redirect_previous p prev L) = l_finalized L"
  "l_finalSnapshot (redirect_previous p prev L) = l_finalSnapshot L"
  "l_websockets (redirect_previous p prev L) = l_websockets L"
  "length (l_hops (redirect_previous p prev L)) = length (l_hops L)"
  by (simp_all add: redirect_previous_def split: option.split)

lemma ledger_inv_redirect: "ledger_inv L \<Longrightarrow> ledger_inv (redirect_previous p prev L)"
  by (auto simp: redirect_previous_def intro!: ledger_inv_update ledger_inv_response split: option.split)

text \<open>The other fields of a run do not matter to the invariant.\<close>

lemma ledger_inv_other [simp]:
  "ledger_inv (L\<lparr>l_events := a\<rparr>) = ledger_inv L" "ledger_inv (L\<lparr>l_bytes := b\<rparr>) = ledger_inv L"
  "ledger_inv (L\<lparr>l_epoch := e\<rparr>) = ledger_inv L"
  by (simp_all add: ledger_inv_def sessions_inv_def hops_inv_def history_inv_def)

lemma ledger_inv_evidence:
  "ledger_inv L \<Longrightarrow> evidence_inv elog \<Longrightarrow> ledger_inv (L\<lparr>l_responseEvidence := elog\<rparr>)"
proof -
  have "sessions_inv (L\<lparr>l_responseEvidence := elog\<rparr>) = sessions_inv L"
    "hops_inv (L\<lparr>l_responseEvidence := elog\<rparr>) = hops_inv L"
    "history_inv (L\<lparr>l_responseEvidence := elog\<rparr>) = history_inv L"
    by (simp_all add: sessions_inv_def hops_inv_def history_inv_def)
  then show "ledger_inv L \<Longrightarrow> evidence_inv elog \<Longrightarrow> ledger_inv (L\<lparr>l_responseEvidence := elog\<rparr>)"
    by (simp add: ledger_inv_def)
qed

lemma hop_ident_new:
  "is_str (getp p ''requestId'') \<Longrightarrow>
   hop_ident (new_hop ep sid tid p n) = (hkey_of ep sid (getp p ''requestId''), n)"
  by (auto simp: hop_ident_def hop_key_def new_hop_def elim!: is_strE)

lemma ledger_inv_append_hop:
  assumes inv: "ledger_inv L" and rid: "is_str (getp p ''requestId'')"
    and sid: "map_of (l_sessions L) sid = Some tid"
    and room: "length (l_hops L) < maxHops (l_limits L)"
    and k: "k = hkey_of ep sid (getp p ''requestId'')"
    and n: "n = (case map_of (l_active L) k of None \<Rightarrow> 0 | Some i \<Rightarrow> h_hop (l_hops L ! i) + 1)"
  shows "ledger_inv (L\<lparr>l_hops := l_hops L @ [new_hop ep sid tid p n],
                       l_active := map_put k (length (l_hops L)) (l_active L)\<rparr>)"
proof -
  let ?h = "new_hop ep sid tid p n"
  have h: "hops_inv L" using inv by (simp add: ledger_inv_def)
  have "i < length (l_hops L)" if "map_of (l_active L) k = Some i" for i
    using h that unfolding hops_inv_def chain_ok_def by (metis length_map)
  then have "n = (case map_of (l_active L) k of None \<Rightarrow> 0 | Some i \<Rightarrow> snd (map hop_ident (l_hops L) ! i) + 1)"
    by (auto simp: n hop_ident_def split: option.split)
  then have "chain_ok (map hop_ident (l_hops L) @ [(k, n)]) (map_put k (length (l_hops L)) (l_active L))"
    using h chain_ok_append [of "map hop_ident (l_hops L)" "l_active L" n k] by (simp add: hops_inv_def)
  moreover have "hop_ident ?h = (k, n)" using rid by (simp add: k hop_ident_new)
  moreover have "h_sessionId ?h = sid" "hop_targetId ?h = tid" by (simp_all add: new_hop_def)
  ultimately have "hops_inv (L\<lparr>l_hops := l_hops L @ [?h], l_active := map_put k (length (l_hops L)) (l_active L)\<rparr>)"
    using h room sid by (simp add: hops_inv_def)
  moreover have "sessions_inv (L\<lparr>l_hops := hs, l_active := as\<rparr>) = sessions_inv L"
    "history_inv (L\<lparr>l_hops := hs, l_active := as\<rparr>) = history_inv L" for hs as
    by (simp_all add: sessions_inv_def history_inv_def)
  ultimately show ?thesis using inv by (simp add: ledger_inv_def)
qed

lemma ledger_inv_request:
  assumes "ledger_inv L" "map_of (l_sessions L) sid = Some tid"
  shows "ledger_inv (request_will_be_sent sid tid p L)"
proof -
  let ?k = "hkey_of (l_epoch L) sid (getp p ''requestId'')"
  let ?L1 = "redirect_previous p (map_of (l_active L) ?k) L"
  have "ledger_inv (?L1\<lparr>l_hops := l_hops ?L1 @ [new_hop (l_epoch L) sid tid p
          (case map_of (l_active L) ?k of None \<Rightarrow> 0 | Some i \<Rightarrow> h_hop (l_hops ?L1 ! i) + 1)],
        l_active := map_put ?k (length (l_hops ?L1)) (l_active ?L1)\<rparr>)"
    if "wellformed_request p" "length (l_hops L) < maxHops (l_limits L)"
    using that assms
    by (intro ledger_inv_append_hop ledger_inv_redirect) (simp_all add: wellformed_request_def)
  then show ?thesis
    using assms ledger_inv_redirect [OF assms(1)]
    by (auto simp: request_will_be_sent_def Let_def not_le)
qed

lemma ledger_inv_websocket: "ledger_inv L \<Longrightarrow> ledger_inv (web_socket_created sid tid p L)"
proof -
  have "sessions_inv (L\<lparr>l_websockets := ws\<rparr>) = sessions_inv L" "hops_inv (L\<lparr>l_websockets := ws\<rparr>) = hops_inv L"
    "history_inv (L\<lparr>l_websockets := ws\<rparr>) = history_inv L" for ws
    by (simp_all add: sessions_inv_def hops_inv_def history_inv_def)
  then show "ledger_inv L \<Longrightarrow> ledger_inv (web_socket_created sid tid p L)"
    by (auto simp: web_socket_created_def ledger_inv_def)
qed

lemma ledger_inv_hop_event:
  assumes "ledger_inv L"
  shows "ledger_inv (hop_event m sid tid p L)"
proof -
  have "ledger_inv (update_hop i (\<lambda>h. h\<lparr>hop_servedFromCache := True\<rparr>) L)"
    "ledger_inv (update_hop i (finish_hop sid tid p) L)" "ledger_inv (update_hop i (fail_hop p) L)"
    "ledger_inv (response i resp ''response-received'' L)" for i resp
    by (rule ledger_inv_update [OF assms] ledger_inv_response [OF assms], simp)+
  then show ?thesis
    unfolding hop_event_def by (simp add: assms split: option.split)
qed

lemma observeStatusHistory_frame [simp, ledger_simps]:
  "l_limits (observeStatusHistory sid m p L) = l_limits L"
  "l_sessions (observeStatusHistory sid m p L) = l_sessions L"
  "l_sessionInfo (observeStatusHistory sid m p L) = l_sessionInfo L"
  "l_active (observeStatusHistory sid m p L) = l_active L" "l_hops (observeStatusHistory sid m p L) = l_hops L"
  "l_websockets (observeStatusHistory sid m p L) = l_websockets L"
  "l_responseEvidence (observeStatusHistory sid m p L) = l_responseEvidence L"
  "l_epoch (observeStatusHistory sid m p L) = l_epoch L"
  "l_finalized (observeStatusHistory sid m p L) = l_finalized L"
  "l_finalSnapshot (observeStatusHistory sid m p L) = l_finalSnapshot L"
  "l_events (observeStatusHistory sid m p L) = l_events L" "l_bytes (observeStatusHistory sid m p L) = l_bytes L"
  by (simp_all add: observeStatusHistory_def Let_def split: option.split)

lemma ledger_inv_network: "ledger_inv L \<Longrightarrow> ledger_inv (network_event sidv m p L)"
proof -
  assume inv: "ledger_inv L"
  let ?L = "L\<lparr>l_responseEvidence := observe_event (l_epoch L) sidv m p (l_responseEvidence L)\<rparr>"
  have L: "ledger_inv ?L"
    by (rule ledger_inv_evidence [OF inv evidence_inv_observe]) (use inv in \<open>simp add: ledger_inv_def\<close>)
  have "ledger_inv (observeStatusHistory sid m p ?L)" for sid
    by (rule ledger_inv_observeStatusHistory [OF L])
  then show ?thesis
    using L by (auto simp: network_event_def Let_def
        intro!: ledger_inv_websocket ledger_inv_request ledger_inv_hop_event split: option.split if_splits)
qed

lemma ledger_inv_ingest: "ledger_inv L \<Longrightarrow> ledger_inv (ingest msg n L)"
  by (auto simp: ingest_def Let_def intro!: ledger_inv_network)

lemma correlate_frame [simp, ledger_simps]:
  "l_limits (correlateExtraInfoStatus L) = l_limits L" "l_sessions (correlateExtraInfoStatus L) = l_sessions L"
  "l_sessionInfo (correlateExtraInfoStatus L) = l_sessionInfo L" "l_active (correlateExtraInfoStatus L) = l_active L"
  "l_websockets (correlateExtraInfoStatus L) = l_websockets L" "l_epoch (correlateExtraInfoStatus L) = l_epoch L"
  "l_responseEvidence (correlateExtraInfoStatus L) = l_responseEvidence L"
  "l_statusHistory (correlateExtraInfoStatus L) = l_statusHistory L"
  "l_errors (correlateExtraInfoStatus L) = l_errors L" "l_finalized (correlateExtraInfoStatus L) = l_finalized L"
  "l_finalSnapshot (correlateExtraInfoStatus L) = l_finalSnapshot L"
  "l_events (correlateExtraInfoStatus L) = l_events L" "l_bytes (correlateExtraInfoStatus L) = l_bytes L"
  "length (l_hops (correlateExtraInfoStatus L)) = length (l_hops L)"
  by (simp_all add: correlateExtraInfoStatus_def)

lemma ledger_inv_finalize: "ledger_inv L \<Longrightarrow> ledger_inv (finalize L)"
proof (cases "l_finalized L")
  case False
  assume inv: "ledger_inv L"
  let ?L1 = "correlateExtraInfoStatus L"
  have s: "sessions_inv L" and h: "hops_inv L" and hist: "history_inv L"
    using inv by (auto simp: ledger_inv_def)
  have "map hop_ident (l_hops ?L1) = map hop_ident (l_hops L)"
    by (simp add: correlateExtraInfoStatus_def)
  moreover have "\<forall>x \<in> set (l_hops ?L1). prov_ok x \<and> map_of (l_sessions L) (h_sessionId x) = Some (hop_targetId x)"
    using h hist False
    by (auto simp: correlateExtraInfoStatus_def hops_inv_def history_inv_def same_identD
        intro!: prov_ok_correlate)
  ultimately have "hops_inv (?L1\<lparr>l_finalized := True, l_finalSnapshot := Some sn\<rparr>)" for sn
    using h by (simp add: hops_inv_def)
  moreover have "sessions_inv (?L1\<lparr>l_finalized := b, l_finalSnapshot := sn\<rparr>) = sessions_inv L"
    "history_inv (?L1\<lparr>l_finalized := b, l_finalSnapshot := sn\<rparr>) = history_inv L" for b sn
    by (simp_all add: sessions_inv_def history_inv_def)
  ultimately show ?thesis using inv False by (simp add: finalize_def Let_def ledger_inv_def)
qed (simp add: finalize_def)

end
