(* ===== verification/LedgerClaims.thy ===== *)
theory LedgerClaims
  imports LedgerInvariant
begin

text \<open>
  Runs of the reference ledger and what they guarantee: bounded and consistent state, a
  frozen snapshot, no silent loss of request starts, and isolation between sessions.
\<close>

section \<open>Runs\<close>

text \<open>The operations a recorder performs, and the owner's \<open>ledger.epoch++\<close> on a new connection.\<close>

datatype ledger_op =
    SessionOp js js js js
  | DescribeOp string js js
  | IngestOp js nat
  | FinalizeOp
  | ReconnectOp

fun apply_op :: "ledger_op \<Rightarrow> ledger \<Rightarrow> ledger" where
  "apply_op (SessionOp sid tid info parent) L = fst (session sid tid info parent L)"
| "apply_op (DescribeOp sid info parent) L = describeSession sid info parent L"
| "apply_op (IngestOp msg n) L = ingest msg n L"
| "apply_op FinalizeOp L = finalize L"
| "apply_op ReconnectOp L = L\<lparr>l_epoch := l_epoch L + 1\<rparr>"

definition ledger_run :: "limits \<Rightarrow> ledger_op list \<Rightarrow> ledger" where
  "ledger_run lims ops = fold apply_op ops (new_ledger lims)"

lemma describe_frame [simp]:
  "l_finalized (describeSession sid info parent L) = l_finalized L"
  "l_finalSnapshot (describeSession sid info parent L) = l_finalSnapshot L"
  "l_limits (describeSession sid info parent L) = l_limits L"
  "l_hops (describeSession sid info parent L) = l_hops L"
  "l_websockets (describeSession sid info parent L) = l_websockets L"
  "prefix (l_errors L) (l_errors (describeSession sid info parent L))"
  using describeSession_shape [of sid info parent L] by auto

lemma session_frame [simp]:
  "l_finalized (fst (session sidv tidv info parent L)) = l_finalized L"
  "l_finalSnapshot (fst (session sidv tidv info parent L)) = l_finalSnapshot L"
  "l_limits (fst (session sidv tidv info parent L)) = l_limits L"
  "l_hops (fst (session sidv tidv info parent L)) = l_hops L"
  "l_websockets (fst (session sidv tidv info parent L)) = l_websockets L"
  by (simp_all add: session_def Let_def split: option.split)

lemma session_errors: "prefix (l_errors L) (l_errors (fst (session sidv tidv info parent L)))"
proof -
  have "prefix (l_errors L) (l_errors (describeSession sid info parent (L\<lparr>l_sessions := a, l_sessionInfo := b\<rparr>)))"
    for sid a b using describe_frame(6) [of "L\<lparr>l_sessions := a, l_sessionInfo := b\<rparr>"] by simp
  then show ?thesis
    by (simp add: session_def Let_def gap_errors_prefix split: option.split)
qed

lemma response_errors: "prefix (l_errors L) (l_errors (response i resp src L))"
  using gap_errors_prefix [of "update_hop i (\<lambda>h. h\<lparr>hop_statusSource := src\<rparr>) L"]
  by (simp add: response_def Let_def)

lemma redirect_errors: "prefix (l_errors L) (l_errors (redirect_previous p prev L))"
  by (simp add: redirect_previous_def gap_errors_prefix response_errors split: option.split)

lemma request_errors: "prefix (l_errors L) (l_errors (request_will_be_sent sid tid p L))"
  using redirect_errors gap_errors_prefix prefix_order.trans
  unfolding request_will_be_sent_def Let_def by (auto; blast)

lemma websocket_errors: "prefix (l_errors L) (l_errors (web_socket_created sid tid p L))"
  by (simp add: web_socket_created_def gap_errors_prefix)

lemma hop_event_errors: "prefix (l_errors L) (l_errors (hop_event m sid tid p L))"
  unfolding hop_event_def by (simp add: gap_errors_prefix response_errors split: option.split)

lemma history_errors: "prefix (l_errors L) (l_errors (observeStatusHistory sid m p L))"
  using gap_errors_prefix [of "L\<lparr>l_statusHistoryComplete := False\<rparr>"]
  by (simp add: observeStatusHistory_def Let_def split: option.split)

lemma network_errors: "prefix (l_errors L) (l_errors (network_event sidv m p L))"
proof -
  let ?L = "L\<lparr>l_responseEvidence := observe_event (l_epoch L) sidv m p (l_responseEvidence L)\<rparr>"
  have "prefix (l_errors L) (l_errors (observeStatusHistory sid m p ?L))" for sid
    using history_errors [of ?L sid m p] by simp
  moreover have "prefix (l_errors L) (l_errors (gap r ?L))" for r
    using gap_errors_prefix [of ?L r] by simp
  ultimately show ?thesis
    using websocket_errors request_errors hop_event_errors prefix_order.trans
    unfolding network_event_def Let_def by (auto split: option.split; blast)
qed

lemma ingest_errors: "prefix (l_errors L) (l_errors (ingest msg n L))"
proof -
  let ?L = "L\<lparr>l_events := l_events L + 1, l_bytes := l_bytes L + n\<rparr>"
  show ?thesis
    using gap_errors_prefix [of ?L] network_errors [of ?L] gap_errors_prefix [of L]
    by (simp add: ingest_def Let_def)
qed

lemma finalize_frame [simp]: "l_errors (finalize L) = l_errors L" "l_finalized (finalize L)"
  "l_websockets (finalize L) = l_websockets L" "length (l_hops (finalize L)) = length (l_hops L)"
  by (simp_all add: finalize_def Let_def)

lemma apply_op_inv: "ledger_inv L \<Longrightarrow> ledger_inv (apply_op x L)"
  by (cases x) (auto intro: ledger_inv_session ledger_inv_describe ledger_inv_ingest ledger_inv_finalize)

lemma apply_op_errors: "prefix (l_errors L) (l_errors (apply_op x L))"
  by (cases x) (auto simp: session_errors ingest_errors)

lemma apply_op_latched:
  assumes "ledger_inv L" "l_finalized L"
  shows "l_finalized (apply_op x L)" "ledger_snapshot (apply_op x L) = ledger_snapshot L"
  using assms by (cases x; auto simp: ledger_snapshot_def ingest_def finalize_def ledger_inv_def)+

interpretation ledger_m: latching_machine apply_op ledger_inv l_finalized ledger_snapshot
  by unfold_locales (auto intro: apply_op_inv simp: apply_op_latched)

interpretation ledger_errors_m: appending_machine apply_op ledger_inv l_errors
  by unfold_locales (auto intro: apply_op_errors)

text \<open>
  C3. Under every sequence of sessions, descriptions, events, reconnections and
  finalisation, valid or hostile, the ledger keeps its limits and its internal agreement:
  session tables match, the active map names the last hop of each request namespace, hop
  ordinals of a namespace are 0, 1, 2, ... in order of observation, every hop's status
  provenance is one the comparator accepts, and the gap list is short and duplicate-free.
\<close>

theorem ledger_run_inv: "ledger_inv (ledger_run lims ops)"
  unfolding ledger_run_def by (rule ledger_m.run_inv) simp

text \<open>
  Finalisation freezes the evidence: whatever operations follow, the snapshot stays the
  one taken at finalisation.
\<close>

theorem finalize_freezes_snapshot:
  "ledger_snapshot (ledger_run lims (ops @ FinalizeOp # later)) =
   ledger_snapshot (ledger_run lims (ops @ [FinalizeOp]))"
proof -
  have "ledger_inv (ledger_run lims (ops @ [FinalizeOp]))" by (rule ledger_run_inv)
  moreover have "l_finalized (ledger_run lims (ops @ [FinalizeOp]))" by (simp add: ledger_run_def)
  ultimately have "ledger_snapshot (fold apply_op later (ledger_run lims (ops @ [FinalizeOp]))) =
      ledger_snapshot (ledger_run lims (ops @ [FinalizeOp]))"
    by (rule ledger_m.run_view)
  then show ?thesis by (simp add: ledger_run_def)
qed

section \<open>No silent loss\<close>

fun counted :: "string \<Rightarrow> ledger_op list \<Rightarrow> nat" where
  "counted m [] = 0"
| "counted m (FinalizeOp # ops) = 0"
| "counted m (IngestOp msg n # ops) = (if getp msg ''method'' = Str m then 1 else 0) + counted m ops"
| "counted m (_ # ops) = counted m ops"

lemma request_hops:
  "l_errors (request_will_be_sent sid tid p L) = [] \<Longrightarrow>
   length (l_hops (request_will_be_sent sid tid p L)) = Suc (length (l_hops L))"
  by (auto simp: request_will_be_sent_def Let_def split: if_splits)

lemma request_websockets [simp]: "l_websockets (request_will_be_sent sid tid p L) = l_websockets L"
  by (simp add: request_will_be_sent_def Let_def)

lemma hop_event_lengths [simp]:
  "length (l_hops (hop_event m sid tid p L)) = length (l_hops L)"
  "l_websockets (hop_event m sid tid p L) = l_websockets L"
  by (simp_all add: hop_event_def split: option.split)

lemma network_lengths:
  assumes "l_errors (network_event sidv m p L) = []"
  shows "length (l_hops (network_event sidv m p L)) =
           length (l_hops L) + (if m = ''Network.requestWillBeSent'' then 1 else 0)"
    and "length (l_websockets (network_event sidv m p L)) =
           length (l_websockets L) + (if m = ''Network.webSocketCreated'' then 1 else 0)"
  using assms request_hops
  by (auto simp: network_event_def Let_def web_socket_created_def split: option.splits if_splits)

lemma ingest_lengths:
  assumes "l_errors (ingest msg n L) = []" "\<not> l_finalized L"
  shows "length (l_hops (ingest msg n L)) =
           length (l_hops L) + (if getp msg ''method'' = Str ''Network.requestWillBeSent'' then 1 else 0)"
    and "length (l_websockets (ingest msg n L)) =
           length (l_websockets L) + (if getp msg ''method'' = Str ''Network.webSocketCreated'' then 1 else 0)"
  using assms
  by (auto simp: ingest_def Let_def network_lengths str_of_def elim!: is_strE split: if_splits)

lemma request_finalized [simp]: "l_finalized (request_will_be_sent sid tid p L) = l_finalized L"
  by (simp add: request_will_be_sent_def Let_def)

lemma hop_event_finalized [simp]: "l_finalized (hop_event m sid tid p L) = l_finalized L"
  by (simp add: hop_event_def split: option.split)

lemma network_finalized [simp]: "l_finalized (network_event sidv m p L) = l_finalized L"
  by (simp add: network_event_def Let_def web_socket_created_def split: option.split)

lemma ingest_finalized [simp]: "l_finalized (ingest msg n L) = l_finalized L"
  by (simp add: ingest_def Let_def)

lemma fold_finalized:
  assumes "ledger_inv L" "l_finalized L"
  shows "l_hops (fold apply_op ops L) = l_hops L \<and> l_websockets (fold apply_op ops L) = l_websockets L"
  using assms
proof (induction ops arbitrary: L)
  case (Cons x ops)
  have "l_hops (apply_op x L) = l_hops L \<and> l_websockets (apply_op x L) = l_websockets L"
    using Cons.prems by (cases x) (simp_all add: ingest_def finalize_def)
  then show ?case using Cons by (simp add: apply_op_inv apply_op_latched)
qed simp

lemma fold_counts:
  assumes "ledger_inv L" "\<not> l_finalized L" "l_errors (fold apply_op ops L) = []"
  shows "length (l_hops (fold apply_op ops L)) = length (l_hops L) + counted ''Network.requestWillBeSent'' ops \<and>
    length (l_websockets (fold apply_op ops L)) = length (l_websockets L) + counted ''Network.webSocketCreated'' ops"
  using assms
proof (induction ops arbitrary: L)
  case (Cons x ops)
  have inv: "ledger_inv (apply_op x L)" using Cons.prems(1) by (rule apply_op_inv)
  have ok: "l_errors (fold apply_op ops (apply_op x L)) = []" using Cons.prems(3) by simp
  have none: "l_errors (apply_op x L) = []" using ledger_errors_m.run_Nil [OF inv ok] .
  show ?case
  proof (cases x)
    case (IngestOp msg n)
    have "\<not> l_finalized (apply_op x L)"
      using Cons.prems(2) by (simp add: IngestOp)
    then show ?thesis
      using Cons.IH [OF inv _ ok] ingest_lengths [of msg n L] none Cons.prems(2) by (simp add: IngestOp)
  next
    case FinalizeOp
    then show ?thesis using fold_finalized [OF inv] by simp
  qed (use Cons.IH [OF inv _ ok] Cons.prems(2) in simp_all)
qed simp

text \<open>
  C4. Nothing is lost silently: if a run ends with an empty gap list, then it recorded
  exactly one hop for every \<open>requestWillBeSent\<close> message and one entry for every
  \<open>webSocketCreated\<close> message it was given before finalisation, whatever else came between.
\<close>

theorem no_silent_loss:
  assumes "l_errors (ledger_run lims ops) = []"
  shows "length (l_hops (ledger_run lims ops)) = counted ''Network.requestWillBeSent'' ops \<and>
    length (l_websockets (ledger_run lims ops)) = counted ''Network.webSocketCreated'' ops"
  using fold_counts [of "new_ledger lims" ops] assms
  by (simp add: ledger_run_def) (simp add: new_ledger_def)

definition demo_ops :: "ledger_op list" where
  "demo_ops = [SessionOp (Str ''s'') (Str ''t'') (Obj [(''type'', Str ''page'')]) Undef,
     IngestOp (Obj [(''method'', Str ''Network.requestWillBeSent''), (''sessionId'', Str ''s''),
       (''params'', Obj [(''requestId'', Str ''r''), (''timestamp'', Num (Fin 1)),
         (''request'', Obj [(''url'', Str ''http://a/''), (''method'', Str ''GET'')])])]) 100]"

lemmas ledger_eval = ledger_run_def new_ledger_def default_limits_def session_def valid_session_id_def
  describeSession_def describe_owner_def retain_def new_session_info_def map_put_def ingest_def
  network_event_def observeStatusHistory_def status_methods_def hkey_of_def note_history_def
  empty_history_def request_will_be_sent_def wellformed_request_def redirect_previous_def
  Let_def coalesce_def

theorem no_silent_loss_witness:
  "length (l_hops (ledger_run default_limits demo_ops)) = counted ''Network.requestWillBeSent'' demo_ops \<and>
   length (l_websockets (ledger_run default_limits demo_ops)) = counted ''Network.webSocketCreated'' demo_ops"
  by (rule no_silent_loss)
    (simp add: demo_ops_def ledger_eval)

section \<open>Isolation between sessions\<close>

text \<open>
  The parent a session's description names: its \<open>parentId\<close>, or else the target of the
  session it was attached through. \<open>lineage\<close> is a chain of such parents, each a session
  of the current epoch without contradictions and the only one of its target.
\<close>

definition observed_parent :: "(string \<times> session_info) list \<Rightarrow> session_info \<Rightarrow> string option" where
  "observed_parent infos s =
     (case si_parentId s of
        Some p \<Rightarrow> Some p
      | None \<Rightarrow> map_option si_targetId (Option.bind (si_targetParentSessionId s) (map_of infos)))"

inductive lineage :: "(string \<times> session_info) list \<Rightarrow> nat \<Rightarrow> string \<Rightarrow> session_info \<Rightarrow> bool"
  for infos ep source where
  direct: "si_epoch s = ep \<Longrightarrow> \<not> si_lineageConflict s \<Longrightarrow> observed_parent infos s = Some source \<Longrightarrow>
    lineage infos ep source s"
| via: "si_epoch s = ep \<Longrightarrow> \<not> si_lineageConflict s \<Longrightarrow> observed_parent infos s = Some pid \<Longrightarrow>
    filter (\<lambda>x. si_epoch x = ep \<and> si_targetId x = pid) (map snd infos) = [parent] \<Longrightarrow>
    lineage infos ep source parent \<Longrightarrow> lineage infos ep source s"

lemma observed_parent_walk:
  "observed_parent infos s = (case si_parentId s of Some p \<Rightarrow> Some p
     | None \<Rightarrow> map_option si_targetId (case si_targetParentSessionId s of None \<Rightarrow> None | Some k \<Rightarrow> map_of infos k))"
  by (simp add: observed_parent_def split: option.split)

lemma parent_walk_lineage:
  "parent_walk infos ep source visited hp s = RelTrue \<Longrightarrow> lineage infos ep source s"
proof (induction infos ep source visited hp s rule: parent_walk.induct)
  case (1 infos ep source visited hp s)
  let ?sp = "case si_targetParentSessionId s of None \<Rightarrow> None | Some k \<Rightarrow> map_of infos k"
  have pre: "si_targetId s \<notin> set visited" "si_epoch s = ep" "\<not> si_lineageConflict s"
    "\<not> (case ?sp of None \<Rightarrow> False | Some x \<Rightarrow> si_epoch x \<noteq> ep)"
    "\<not> (si_parentId s \<noteq> None \<and> ?sp \<noteq> None \<and> si_parentId s \<noteq> map_option si_targetId ?sp)"
    using 1(2) by (auto simp: parent_walk.simps [of infos ep source visited hp s] Let_def split: if_splits)
  obtain pid where pid: "observed_parent infos s = Some pid"
    using 1(2) pre by (cases "observed_parent infos s")
      (auto simp: parent_walk.simps [of infos ep source visited hp s] Let_def observed_parent_walk split: if_splits)
  show ?case
  proof (cases "pid = source")
    case True
    then show ?thesis using pre pid by (auto intro: lineage.direct)
  next
    case False
    then obtain parent where par: "filter (\<lambda>x. si_epoch x = ep \<and> si_targetId x = pid) (map snd infos) = [parent]"
      and rec: "parent_walk infos ep source (set_add (si_targetId s) visited) True parent = RelTrue"
      using 1(2) pre pid
      by (auto simp: parent_walk.simps [of infos ep source visited hp s] Let_def observed_parent_walk
          split: if_splits list.splits)
    have "lineage infos ep source parent"
      using 1(1) [OF _ _ refl refl, of pid parent "[]"] pre pid par rec False by (simp add: observed_parent_walk)
    then show ?thesis using pre pid par by (auto intro: lineage.via)
  qed
qed

definition proven_handoff :: "ledger \<Rightarrow> hop \<Rightarrow> session_info \<Rightarrow> session_info \<Rightarrow> bool" where
  "proven_handoff L h source destination \<longleftrightarrow>
     hop_state h = Pending \<and> si_targetId source \<noteq> si_targetId destination \<and>
     si_epoch source = l_epoch L \<and> si_epoch destination = l_epoch L \<and> h_epoch h = l_epoch L \<and>
     \<not> si_lineageConflict source \<and> \<not> si_lineageConflict destination \<and>
     (hop_resourceType h = Str ''Document'' \<and> hop_frameId h = Some (si_targetId destination) \<and>
        lineage (l_sessionInfo L) (l_epoch L) (si_targetId source) destination \<or>
      hop_resourceType h = Str ''Script'' \<and> h_requestId h = si_targetId destination)"

lemma singleton_filter: "filter P xs = [x] \<Longrightarrow> x \<in> set xs \<and> P x \<and> (\<forall>y \<in> set xs. P y \<longrightarrow> y = x)"
proof -
  assume eq: "filter P xs = [x]"
  have "set (filter P xs) = {x}" by (simp add: eq)
  then show ?thesis by auto
qed

lemma handoff_proven:
  assumes "mainResourceCompletion sid p L = Some i"
  shows "\<exists>source destination. map_of (l_sessionInfo L) sid = Some destination \<and>
     map_of (l_sessionInfo L) (h_sessionId (l_hops L ! i)) = Some source \<and>
     proven_handoff L (l_hops L ! i) source destination \<and>
     (\<forall>j \<in> snd ` set (l_active L). h_epoch (l_hops L ! j) = l_epoch L \<and>
        h_requestId (l_hops L ! j) = h_requestId (l_hops L ! i) \<longrightarrow> j = i)"
proof -
  from assms obtain destination source where dest: "map_of (l_sessionInfo L) sid = Some destination"
    and src: "map_of (l_sessionInfo L) (h_sessionId (l_hops L ! i)) = Some source"
    and cand: "handoff_candidates L (getp p ''requestId'') = [i]"
    and pend: "hop_state (l_hops L ! i) = Pending" "si_epoch source = l_epoch L" "si_epoch destination = l_epoch L"
      "\<not> si_lineageConflict source" "\<not> si_lineageConflict destination" "si_targetId source \<noteq> si_targetId destination"
    and ok: "document_handoff (l_hops L ! i) source destination (parentRelation L source destination) \<or>
       worker_handoff (l_hops L ! i) source destination (parentRelation L source destination)"
    by (auto simp: mainResourceCompletion_def Let_def split: option.splits if_splits list.splits)
  have c: "h_epoch (l_hops L ! i) = l_epoch L" "Str (h_requestId (l_hops L ! i)) = getp p ''requestId''"
    "\<forall>j \<in> snd ` set (l_active L). h_epoch (l_hops L ! j) = l_epoch L \<and>
        Str (h_requestId (l_hops L ! j)) = getp p ''requestId'' \<longrightarrow> j = i"
    using singleton_filter [OF cand [unfolded handoff_candidates_def]] by auto
  have uniq: "\<forall>j \<in> snd ` set (l_active L). h_epoch (l_hops L ! j) = l_epoch L \<and>
        h_requestId (l_hops L ! j) = h_requestId (l_hops L ! i) \<longrightarrow> j = i"
    using c(2,3) by metis
  have "proven_handoff L (l_hops L ! i) source destination"
    using pend c(1) ok
    by (auto simp: proven_handoff_def document_handoff_def worker_handoff_def parentRelation_def
        dest: parent_walk_lineage)
  with dest src uniq show ?thesis by blast
qed

lemma update_hop_other: "i \<noteq> j \<Longrightarrow> l_hops (update_hop i f L) ! j = l_hops L ! j"
  by (simp add: update_hop_def)

lemma response_other: "i \<noteq> j \<Longrightarrow> l_hops (response i resp src L) ! j = l_hops L ! j"
  by (simp add: response_def Let_def update_hop_other)

lemma request_changes_own:
  assumes "j < length (l_hops L)" "l_hops (request_will_be_sent sid tid p L) ! j \<noteq> l_hops L ! j"
  shows "map_of (l_active L) (hkey_of (l_epoch L) sid (getp p ''requestId'')) = Some j"
proof (rule ccontr)
  assume other: "map_of (l_active L) (hkey_of (l_epoch L) sid (getp p ''requestId'')) \<noteq> Some j"
  have "l_hops (redirect_previous p (map_of (l_active L) (hkey_of (l_epoch L) sid (getp p ''requestId''))) L) ! j
        = l_hops L ! j"
    using other by (auto simp: redirect_previous_def update_hop_other response_other split: option.split)
  then show False
    using assms by (simp add: request_will_be_sent_def Let_def nth_append split: if_splits)
qed

lemma hop_event_changes:
  assumes "l_hops (hop_event m sid tid p L) ! j \<noteq> l_hops L ! j"
  shows "map_of (l_active L) (hkey_of (l_epoch L) sid (getp p ''requestId'')) = Some j \<or>
    m = ''Network.loadingFinished'' \<and> mainResourceCompletion sid p L = Some j \<and>
    (j < length (l_hops L) \<longrightarrow> l_hops (hop_event m sid tid p L) ! j = finish_hop sid tid p (l_hops L ! j))"
proof -
  let ?own = "map_of (l_active L) (hkey_of (l_epoch L) sid (getp p ''requestId''))"
  have "\<exists>i. (?own = Some i \<or> ?own = None \<and> m = ''Network.loadingFinished'' \<and> mainResourceCompletion sid p L = Some i \<and>
      hop_event m sid tid p L = update_hop i (finish_hop sid tid p) L) \<and>
      (\<forall>k. k \<noteq> i \<longrightarrow> l_hops (hop_event m sid tid p L) ! k = l_hops L ! k)"
  proof (cases ?own)
    case (Some i)
    then show ?thesis by (auto simp: hop_event_def update_hop_other response_other)
  next
    case None
    then show ?thesis using assms
      by (auto simp: hop_event_def hop_methods_def update_hop_other split: option.splits if_splits)
  qed
  then obtain i where i: "?own = Some i \<or> ?own = None \<and> m = ''Network.loadingFinished'' \<and>
      mainResourceCompletion sid p L = Some i \<and> hop_event m sid tid p L = update_hop i (finish_hop sid tid p) L"
    and frame: "\<forall>k. k \<noteq> i \<longrightarrow> l_hops (hop_event m sid tid p L) ! k = l_hops L ! k" by blast
  have "i = j" using frame assms by metis
  with i show ?thesis by (auto simp: update_hop_def)
qed

lemma handoff_frame:
  assumes "l_sessionInfo L1 = l_sessionInfo L" "l_active L1 = l_active L" "l_hops L1 = l_hops L"
    "l_epoch L1 = l_epoch L"
  shows "mainResourceCompletion sid p L1 = mainResourceCompletion sid p L"
  unfolding mainResourceCompletion_def handoff_candidates_def parentRelation_def assms ..

lemma network_changes:
  assumes inv: "ledger_inv L" and j: "j < length (l_hops L)"
    and ne: "l_hops (network_event sidv m p L) ! j \<noteq> l_hops L ! j"
  shows "\<exists>sid tid. sidv = Str sid \<and> (h_sessionId (l_hops L ! j) = sid \<or>
    m = ''Network.loadingFinished'' \<and> mainResourceCompletion sid p L = Some j \<and>
    l_hops (network_event sidv m p L) ! j = finish_hop sid tid p (l_hops L ! j))"
proof -
  let ?L = "L\<lparr>l_responseEvidence := observe_event (l_epoch L) sidv m p (l_responseEvidence L)\<rparr>"
  obtain sid tid where sid: "sidv = Str sid" "map_of (l_sessions L) sid = Some tid"
    using ne by (cases sidv) (auto simp: network_event_def Let_def split: option.splits)
  let ?L1 = "observeStatusHistory sid m p ?L"
  have own: "h_sessionId (l_hops L ! j) = sid"
    if "map_of (l_active L) (hkey_of (l_epoch L) sid (getp p ''requestId'')) = Some j"
  proof -
    have "fst (map hop_ident (l_hops L) ! j) = hkey_of (l_epoch L) sid (getp p ''requestId'')"
      using inv that unfolding ledger_inv_def hops_inv_def chain_ok_def by blast
    then show ?thesis using j by (simp add: hop_ident_def hop_key_def hkey_of_def)
  qed
  have frame: "l_sessionInfo ?L1 = l_sessionInfo L" "l_active ?L1 = l_active L" "l_hops ?L1 = l_hops L"
    "l_epoch ?L1 = l_epoch L" by simp_all
  consider "m = ''Network.webSocketCreated''" "network_event sidv m p L = web_socket_created sid tid p ?L1"
    | "m = ''Network.requestWillBeSent''" "network_event sidv m p L = request_will_be_sent sid tid p ?L1"
    | "network_event sidv m p L = hop_event m sid tid p ?L1"
    using sid unfolding network_event_def Let_def sid(1) js.case option.case
    by (cases "m = ''Network.webSocketCreated''"; cases "m = ''Network.requestWillBeSent''"; simp)
  then show ?thesis
  proof cases
    case 1
    then show ?thesis using ne by (simp add: web_socket_created_def split: if_splits)
  next
    case 2
    then have "map_of (l_active L) (hkey_of (l_epoch L) sid (getp p ''requestId'')) = Some j"
      using request_changes_own [of j ?L1 sid tid p] ne j frame by simp
    then show ?thesis using own sid by blast
  next
    case 3
    then show ?thesis
      using hop_event_changes [of m sid tid p ?L1 j] ne j frame own sid handoff_frame [OF frame] by auto
  qed
qed

text \<open>
  C5. Sessions cannot disturb one another's evidence: if ingesting a message changes a hop
  that belongs to a session other than the message's own, then the message is a
  \<open>loadingFinished\<close>, the change is exactly the completion of that hop, the hop was pending
  and the only active claimant of its raw request id, both sessions are of the current
  connection without contradicted lineage, and either an observed chain of unique parents
  leads from the finishing target to the hop's target (a document) or the request id names
  the finishing worker target.
\<close>

theorem foreign_hops_isolated:
  assumes "ledger_inv L" and "j < length (l_hops L)"
    and "l_hops (ingest msg n L) ! j \<noteq> l_hops L ! j"
    and "getp msg ''sessionId'' \<noteq> Str (h_sessionId (l_hops L ! j))"
  shows "\<exists>sid tid p source destination. getp msg ''method'' = Str ''Network.loadingFinished'' \<and>
    getp msg ''sessionId'' = Str sid \<and>
    l_hops (ingest msg n L) ! j = finish_hop sid tid p (l_hops L ! j) \<and>
    map_of (l_sessionInfo L) sid = Some destination \<and>
    map_of (l_sessionInfo L) (h_sessionId (l_hops L ! j)) = Some source \<and>
    proven_handoff L (l_hops L ! j) source destination \<and>
    (\<forall>i \<in> snd ` set (l_active L). h_epoch (l_hops L ! i) = l_epoch L \<and>
        h_requestId (l_hops L ! i) = h_requestId (l_hops L ! j) \<longrightarrow> i = j)"
proof -
  let ?L = "L\<lparr>l_events := l_events L + 1, l_bytes := l_bytes L + n\<rparr>"
  obtain p m where m: "getp msg ''method'' = Str m"
    and eq: "ingest msg n L = network_event (getp msg ''sessionId'') m p ?L"
    using assms(3) by (auto simp: ingest_def Let_def split: if_splits elim!: is_strE)
  have "ledger_inv ?L" using assms(1) by simp
  then obtain sid tid where sid: "getp msg ''sessionId'' = Str sid"
    and fin: "m = ''Network.loadingFinished''" "mainResourceCompletion sid p ?L = Some j"
      "l_hops (ingest msg n L) ! j = finish_hop sid tid p (l_hops L ! j)"
    using network_changes [of ?L j "getp msg ''sessionId''" m p] assms(2-4) eq by auto
  have "mainResourceCompletion sid p L = Some j" using fin(2) handoff_frame [of ?L L] by simp
  from handoff_proven [OF this] show ?thesis using sid m fin by blast
qed

definition handoff_ops :: "ledger_op list" where
  "handoff_ops = [SessionOp (Str ''s'') (Str ''t'') (Obj [(''type'', Str ''page'')]) Undef,
     SessionOp (Str ''w'') (Str ''u'') (Obj [(''type'', Str ''iframe''), (''parentId'', Str ''t'')]) (Str ''s''),
     IngestOp (Obj [(''method'', Str ''Network.requestWillBeSent''), (''sessionId'', Str ''s''),
       (''params'', Obj [(''requestId'', Str ''r''), (''timestamp'', Num (Fin 1)),
         (''type'', Str ''Document''), (''frameId'', Str ''u''), (''loaderId'', Str ''r''),
         (''request'', Obj [(''url'', Str ''http://a/''), (''method'', Str ''GET'')])])]) 100]"

definition handoff_finish :: js where
  "handoff_finish = Obj [(''method'', Str ''Network.loadingFinished''), (''sessionId'', Str ''w''),
     (''params'', Obj [(''requestId'', Str ''r''), (''timestamp'', Num (Fin 2))])]"

lemma handoff_example:
  "length (l_hops (ledger_run default_limits handoff_ops)) = 1"
  "h_sessionId (l_hops (ledger_run default_limits handoff_ops) ! 0) = ''s''"
  "l_hops (ingest handoff_finish 50 (ledger_run default_limits handoff_ops)) ! 0 \<noteq>
   l_hops (ledger_run default_limits handoff_ops) ! 0"
  by (simp_all add: handoff_ops_def handoff_finish_def ledger_eval new_hop_def hop_event_def hop_methods_def
      mainResourceCompletion_def handoff_candidates_def document_handoff_def worker_handoff_def parentRelation_def
      parent_walk.simps update_hop_def finish_hop_def set_add_def opt_str_def)

theorem foreign_hops_isolated_witness:
  "proven_handoff (ledger_run default_limits handoff_ops) (l_hops (ledger_run default_limits handoff_ops) ! 0)
     (the (map_of (l_sessionInfo (ledger_run default_limits handoff_ops)) ''s''))
     (the (map_of (l_sessionInfo (ledger_run default_limits handoff_ops)) ''w''))"
proof -
  have "getp handoff_finish ''sessionId'' \<noteq> Str (h_sessionId (l_hops (ledger_run default_limits handoff_ops) ! 0))"
    unfolding handoff_example by (simp add: handoff_finish_def)
  from foreign_hops_isolated [OF ledger_run_inv _ handoff_example(3) this] handoff_example(1)
  obtain sid source destination where sid: "getp handoff_finish ''sessionId'' = Str sid"
    and found: "map_of (l_sessionInfo (ledger_run default_limits handoff_ops)) sid = Some destination"
      "map_of (l_sessionInfo (ledger_run default_limits handoff_ops))
        (h_sessionId (l_hops (ledger_run default_limits handoff_ops) ! 0)) = Some source"
      "proven_handoff (ledger_run default_limits handoff_ops) (l_hops (ledger_run default_limits handoff_ops) ! 0)
        source destination"
    by auto
  have "sid = ''w''" using sid by (simp add: handoff_finish_def)
  then show ?thesis using found unfolding handoff_example by simp
qed

end
