(* ===== verification/CompareCapture.thy ===== *)
theory CompareCapture
  imports JsValue Machine
begin

text \<open>
  The comparator of \<open>tools/capture-completeness-reference.mjs\<close>: row validation, descriptive
  counts, and \<open>compareCapture\<close>, which matches the hops of the reference observer with the
  rows of the captured snapshot. Both documents are untrusted values. The URL parser and
  the numeric coercion of a value that is not a number are arguments (\<open>parse_url\<close>,
  \<open>coerce\<close>), as is the caller's \<open>include\<close> predicate.
\<close>

section \<open>Host interface\<close>

text \<open>What the tools read of \<open>new URL(text)\<close>; \<open>None\<close> is the \<open>TypeError\<close> of a text that is not a URL.\<close>

record url_parts =
  u_protocol :: string
  u_origin :: string
  u_hostname :: string
  u_pathname :: string
  u_username :: string
  u_password :: string
  u_ops :: "string list"

type_synonym url_parser = "string \<Rightarrow> url_parts option"

section \<open>Row validation\<close>

definition malformedHopFieldNames :: "string list" where
  "malformedHopFieldNames = [''state'', ''status'', ''resourceType'', ''fromDiskCache'', ''fromServiceWorker'']"

definition malformedHopFields :: "js \<Rightarrow> bool \<Rightarrow> (string \<times> bool) list" where
  "malformedHopFields row reference =
     [(''state'', \<not> one_of [''complete'', ''failed'', ''pending''] (getp row ''state'')),
      (''status'', \<not> (is_finite (getp row ''status'') \<or>
          (getp row ''status'' = Null \<and> \<not> strict_eq (getp row ''state'') (Str ''complete'')))),
      (''resourceType'', \<not> is_str (getp row (if reference then ''resourceType'' else ''resource_type''))),
      (''fromDiskCache'', \<not> is_bool (getp row (if reference then ''fromDiskCache'' else ''from_disk_cache''))),
      (''fromServiceWorker'',
         \<not> is_bool (getp row (if reference then ''fromServiceWorker'' else ''from_service_worker'')))]"

definition count_row_fields :: "bool \<Rightarrow> js \<Rightarrow> (string \<times> nat) list \<Rightarrow> (string \<times> nat) list" where
  "count_row_fields reference row counts =
     map (\<lambda>(name, n). (name, if map_of (malformedHopFields row reference) name = Some True then n + 1 else n)) counts"

definition count_side :: "bool \<Rightarrow> js list \<Rightarrow> (string \<times> nat) list" where
  "count_side reference rows =
     fold (count_row_fields reference) rows (map (\<lambda>name. (name, 0)) malformedHopFieldNames)"

record field_counts =
  fc_reference :: "(string \<times> nat) list"
  fc_reb :: "(string \<times> nat) list"

definition countMalformedHopFields :: "js list \<Rightarrow> js list \<Rightarrow> field_counts" where
  "countMalformedHopFields reference reb = \<lparr>fc_reference = count_side True reference, fc_reb = count_side False reb\<rparr>"

definition statusValueBucketNames :: "string list" where
  "statusValueBucketNames =
     [''missing'', ''null'', ''zero'', ''httpRange'', ''otherNumber'', ''nonfiniteNumber'', ''nonnumber'']"

definition statusValueBucket :: "js \<Rightarrow> string" where
  "statusValueBucket status =
     (case status of
        Undef \<Rightarrow> ''missing''
      | Null \<Rightarrow> ''null''
      | Num (Fin r) \<Rightarrow>
          if r = 0 then ''zero''
          else if rat_is_int r \<and> 100 \<le> r \<and> r \<le> 599 then ''httpRange'' else ''otherNumber''
      | Num _ \<Rightarrow> ''nonfiniteNumber''
      | _ \<Rightarrow> ''nonnumber'')"

definition bucket_side :: "js list \<Rightarrow> (string \<times> nat) list" where
  "bucket_side rows =
     fold (\<lambda>row counts. map (\<lambda>(name, n). (name, if name = statusValueBucket (getp row ''status'') then n + 1 else n)) counts)
       rows (map (\<lambda>name. (name, 0)) statusValueBucketNames)"

definition countStatusValues :: "js list \<Rightarrow> js list \<Rightarrow> field_counts" where
  "countStatusValues reference reb = \<lparr>fc_reference = bucket_side reference, fc_reb = bucket_side reb\<rparr>"

record provenance =
  pv_present :: bool
  pv_complete :: bool
  pv_valid :: bool

definition status_sources :: "string list" where
  "status_sources = [''unavailable'', ''response-received'', ''redirect-response'', ''response-received-extra-info'']"

definition statusProvenance :: "js \<Rightarrow> provenance" where
  "statusProvenance row =
     (let present = (has_own row ''status_source'' \<or> has_own row ''wire_status'');
          complete = (has_own row ''status_source'' \<and> has_own row ''wire_status'');
          source = getp row ''status_source''; wire = getp row ''wire_status''; status = getp row ''status''
      in \<lparr>pv_present = present, pv_complete = complete,
          pv_valid =
            (complete \<and> one_of status_sources source \<and>
             (wire = Null \<or> (is_integer wire \<and> 100 \<le> num_of wire \<and> num_of wire \<le> 599)) \<and>
             (source \<noteq> Str ''unavailable'' \<or> status = Null) \<and>
             (source \<noteq> Str ''response-received-extra-info'' \<or>
                (\<not> strict_eq status (Num (Fin 304)) \<and> strict_eq status wire \<and> is_integer status)))\<rparr>)"

section \<open>Issues\<close>

definition add_issue :: "string \<Rightarrow> string list \<Rightarrow> string list" where
  "add_issue code issues = (if length issues < 64 then issues @ [code] else issues)"

definition add_when :: "bool \<Rightarrow> string \<Rightarrow> string list \<Rightarrow> string list" where
  "add_when b code issues = (if b then add_issue code issues else issues)"

definition reference_epoch_invalid :: "js \<Rightarrow> js list \<Rightarrow> bool" where
  "reference_epoch_invalid reference hops =
     (\<not> is_safe_integer (getp reference ''epoch'') \<or> num_of (getp reference ''epoch'') < 1 \<or>
      (\<exists>h \<in> set hops. \<not> strict_eq (getp h ''epoch'') (getp reference ''epoch'')))"

definition reb_identity_missing :: "js \<Rightarrow> bool" where
  "reb_identity_missing network =
     (getp network ''capture_enabled'' \<noteq> Bool True \<or> \<not> is_str (getp network ''instance_id'') \<or>
      str_of (getp network ''instance_id'') = [] \<or> \<not> is_safe_integer (getp network ''capture_epoch'') \<or>
      num_of (getp network ''capture_epoch'') < 0)"

definition coverage_counters :: "string list" where
  "coverage_counters = [''gaps'', ''target_overflow'', ''failed_targets'', ''unattached_targets_omitted'']"

definition coverage_schema_bad :: "js \<Rightarrow> bool" where
  "coverage_schema_bad coverage =
     (\<not> truthy coverage \<or>
      (\<exists>k \<in> set coverage_counters. \<not> is_integer (getp coverage k) \<or> num_of (getp coverage k) < 0) \<or>
      \<not> is_bool (getp coverage ''catalog_incomplete'') \<or> \<not> is_bool (getp coverage ''discovery_stale'') \<or>
      \<not> is_arr (getp coverage ''unattached_targets''))"

text \<open>\<open>(v ?? 0) > 0\<close>: a value that is not a number is coerced first; \<open>NaN\<close> is not positive.\<close>

definition positive :: "(js \<Rightarrow> jsnum) \<Rightarrow> js \<Rightarrow> bool" where
  "positive coerce v =
     (case (case coalesce v (Num (Fin 0)) of Num n \<Rightarrow> n | w \<Rightarrow> coerce w) of
        Fin r \<Rightarrow> 0 < r | PosInf \<Rightarrow> True | _ \<Rightarrow> False)"

text \<open>The truth value of \<open>v?.length\<close>.\<close>

definition has_length :: "js \<Rightarrow> bool" where
  "has_length v =
     (case v of Arr xs \<Rightarrow> xs \<noteq> [] | Str s \<Rightarrow> s \<noteq> [] | _ \<Rightarrow> truthy (getp v ''length''))"

definition coverage_incomplete :: "(js \<Rightarrow> jsnum) \<Rightarrow> js \<Rightarrow> js \<Rightarrow> bool" where
  "coverage_incomplete coerce network coverage =
     (\<not> truthy coverage \<or> getp coverage ''state'' \<noteq> Str ''ready'' \<or>
      getp coverage ''startup_mode'' \<noteq> Str ''passive'' \<or> truthy (getp coverage ''catalog_incomplete'') \<or>
      truthy (getp coverage ''discovery_stale'') \<or>
      (\<exists>k \<in> set coverage_counters. positive coerce (getp coverage k)) \<or>
      positive coerce (getp coverage ''document_navigation_gaps'') \<or>
      has_length (getp coverage ''unattached_targets'') \<or> \<not> strict_eq (getp network ''dropped'') (Num (Fin 0)))"

definition validUrl :: "url_parser \<Rightarrow> js \<Rightarrow> bool" where
  "validUrl parse_url v =
     (is_str v \<and> (case parse_url (str_of v) of None \<Rightarrow> False | Some u \<Rightarrow> u_protocol u \<noteq> []))"

definition validId :: "js \<Rightarrow> bool" where
  "validId v = (is_str v \<and> str_of v \<noteq> [])"

definition row_timestamp :: "js \<Rightarrow> js" where
  "row_timestamp r = getp (getp (getp r ''timing_evidence'') ''request_monotonic_seconds'') ''value''"

definition malformed_reference_row :: "js \<Rightarrow> bool" where
  "malformed_reference_row h =
     (\<not> truthy h \<or> (\<exists>k \<in> set [''sessionId'', ''targetId'', ''requestId'', ''url'', ''method'']. \<not> validId (getp h k)) \<or>
      \<not> is_finite (getp h ''timestamp'') \<or> \<not> is_integer (getp h ''hop'') \<or> num_of (getp h ''hop'') < 0)"

definition malformed_reb_row :: "js \<Rightarrow> bool" where
  "malformed_reb_row r =
     (\<not> truthy r \<or> (\<exists>k \<in> set [''id'', ''target_id'', ''protocol_request_id'', ''url'', ''method'']. \<not> validId (getp r k)) \<or>
      getp (getp (getp r ''timing_evidence'') ''request_monotonic_seconds'') ''state'' \<noteq> Str ''available'' \<or>
      \<not> is_finite (row_timestamp r))"

definition provenance_malformed :: "js \<Rightarrow> bool" where
  "provenance_malformed row = (pv_present (statusProvenance row) \<and> \<not> pv_valid (statusProvenance row))"

definition any_malformed :: "field_counts \<Rightarrow> bool" where
  "any_malformed c = ((\<exists>(_, n) \<in> set (fc_reference c). 0 < n) \<or> (\<exists>(_, n) \<in> set (fc_reb c). 0 < n))"

text \<open>The issues found before the rows are matched, in the order the code adds them.\<close>

definition validation_issues ::
    "url_parser \<Rightarrow> (js \<Rightarrow> jsnum) \<Rightarrow> (js \<Rightarrow> bool) \<Rightarrow> js \<Rightarrow> js \<Rightarrow> string list" where
  "validation_issues parse_url coerce incl reference network =
     (let hops = arr_of (getp reference ''hops''); requests = arr_of (getp network ''requests'');
          coverage = getp network ''capture_status''
      in fold (\<lambda>(b, code). add_when b code)
          [(arr_of (getp reference ''errors'') \<noteq> [] \<or> getp reference ''finalized'' \<noteq> Bool True, ''reference-incomplete''),
           (reference_epoch_invalid reference hops, ''reference-epoch-invalid''),
           (reb_identity_missing network, ''reb-identity-missing''),
           (coverage_schema_bad coverage, ''reb-coverage-schema''),
           (coverage_incomplete coerce network coverage, ''reb-coverage-incomplete''),
           ((\<exists>h \<in> set (hops @ requests). \<not> truthy h \<or> \<not> validUrl parse_url (getp h ''url'')), ''malformed-url''),
           (filter (\<lambda>h. truthy h \<and> incl h) hops = [], ''empty-reference''),
           (any_malformed (countMalformedHopFields hops requests), ''malformed-hop-state''),
           ((\<exists>row \<in> set (hops @ requests). provenance_malformed row), ''malformed-status-provenance''),
           ((\<exists>h \<in> set hops. malformed_reference_row h), ''malformed-reference''),
           ((\<exists>r \<in> set requests. malformed_reb_row r), ''malformed-reb-row'')] [])"

section \<open>Matching\<close>

type_synonym identity = "js \<times> js \<times> js"

definition identity :: "js \<Rightarrow> js \<Rightarrow> js \<Rightarrow> identity" where
  "identity target request timestamp = (json_norm target, json_norm request, json_norm timestamp)"

definition row_identity :: "js \<Rightarrow> identity" where
  "row_identity row = identity (getp row ''target_id'') (getp row ''protocol_request_id'') (row_timestamp row)"

definition hop_identity :: "js \<Rightarrow> identity" where
  "hop_identity hop = identity (getp hop ''targetId'') (getp hop ''requestId'') (getp hop ''timestamp'')"

text \<open>The index maps an identity to the rows that have it, by their position in \<open>rows\<close>.\<close>

definition index_put :: "js list \<Rightarrow> nat \<Rightarrow> (identity \<times> nat list) list \<Rightarrow> (identity \<times> nat list) list" where
  "index_put rows i m =
     (let k = row_identity (rows ! i)
      in map_put k ((case map_of m k of None \<Rightarrow> [] | Some is \<Rightarrow> is) @ [i]) m)"

definition index_rows :: "js list \<Rightarrow> (identity \<times> nat list) list" where
  "index_rows rows = fold (index_put rows) [0..<length rows] []"

definition extra_info :: js where
  "extra_info = Str ''response-received-extra-info''"

definition fallback :: "js \<Rightarrow> js \<Rightarrow> bool" where
  "fallback hop row = (getp hop ''status_source'' = extra_info \<or> getp row ''status_source'' = extra_info)"

definition compared_fields :: "js \<Rightarrow> js \<Rightarrow> (string \<times> js \<times> js) list" where
  "compared_fields hop row =
     [(''url'', getp row ''url'', getp hop ''url''),
      (''method'', getp row ''method'', getp hop ''method''),
      (''status'', getp row ''status'', getp hop ''status''),
      (''state'', getp row ''state'', getp hop ''state''),
      (''resourceType'', getp row ''resource_type'', getp hop ''resourceType''),
      (''fromDiskCache'', getp row ''from_disk_cache'', getp hop ''fromDiskCache''),
      (''fromServiceWorker'', getp row ''from_service_worker'', getp hop ''fromServiceWorker'')] @
     (if fallback hop row \<or> (pv_complete (statusProvenance hop) \<and> pv_complete (statusProvenance row))
      then [(''statusSource'', getp row ''status_source'', getp hop ''status_source''),
            (''wireStatus'', getp row ''wire_status'', getp hop ''wire_status'')]
      else [])"

definition differences :: "js \<Rightarrow> js \<Rightarrow> string list" where
  "differences hop row =
     map fst (filter (\<lambda>(_, actual, expected). \<not> strict_eq actual expected) (compared_fields hop row))"

record matching =
  mt_matched :: nat
  mt_missing :: nat
  mt_ambiguous :: nat
  mt_mismatched :: nat
  mt_mismatchReasons :: "(string \<times> nat) list"
  mt_consumed :: "nat list"
  mt_seen :: "identity list"
  mt_issues :: "string list"

definition start_matching :: "string list \<Rightarrow> matching" where
  "start_matching issues =
     \<lparr>mt_matched = 0, mt_missing = 0, mt_ambiguous = 0, mt_mismatched = 0, mt_mismatchReasons = [],
      mt_consumed = [], mt_seen = [], mt_issues = issues\<rparr>"

definition count_reason :: "string \<Rightarrow> (string \<times> nat) list \<Rightarrow> (string \<times> nat) list" where
  "count_reason name m = map_put name ((case map_of m name of None \<Rightarrow> 0 | Some n \<Rightarrow> n) + 1) m"

definition pair_issues :: "js \<Rightarrow> js \<Rightarrow> string list \<Rightarrow> string list" where
  "pair_issues hop row issues =
     add_when (fallback hop row \<and> \<not> (pv_complete (statusProvenance hop) \<and> pv_complete (statusProvenance row)))
       ''missing-status-provenance''
       (add_when (truthy (getp row ''url_truncated'') \<or> truthy (getp row ''method_truncated'')) ''truncated-identity''
         (add_when (getp hop ''state'' = Str ''pending'' \<or> getp row ''state'' = Str ''pending'') ''pending-request''
           issues))"

definition compare_pair :: "js \<Rightarrow> js list \<Rightarrow> nat \<Rightarrow> matching \<Rightarrow> matching" where
  "compare_pair hop rows i st =
     (let st1 = st\<lparr>mt_consumed := set_add i (mt_consumed st), mt_issues := pair_issues hop (rows ! i) (mt_issues st)\<rparr>;
          ds = differences hop (rows ! i)
      in if ds \<noteq> []
         then st1\<lparr>mt_mismatched := mt_mismatched st1 + 1,
                  mt_mismatchReasons := fold count_reason ds (mt_mismatchReasons st1)\<rparr>
         else st1\<lparr>mt_matched := mt_matched st1 + 1\<rparr>)"

definition compare_hop :: "js list \<Rightarrow> (identity \<times> nat list) list \<Rightarrow> js \<Rightarrow> matching \<Rightarrow> matching" where
  "compare_hop rows index hop st =
     (let k = hop_identity hop
      in if k \<in> set (mt_seen st)
         then st\<lparr>mt_ambiguous := mt_ambiguous st + 1,
                 mt_issues := add_issue ''duplicate-reference-observation'' (mt_issues st)\<rparr>
         else
           let st1 = st\<lparr>mt_seen := set_add k (mt_seen st)\<rparr>
           in case (case map_of index k of None \<Rightarrow> [] | Some is \<Rightarrow> is) of
                [] \<Rightarrow> st1\<lparr>mt_missing := mt_missing st1 + 1\<rparr>
              | [i] \<Rightarrow> compare_pair hop rows i st1
              | _ \<Rightarrow> st1\<lparr>mt_ambiguous := mt_ambiguous st1 + 1\<rparr>)"

section \<open>The comparison\<close>

record comparison_details =
  cd_referenceHops :: nat
  cd_rebHops :: nat
  cd_matched :: nat
  cd_missing :: nat
  cd_extra :: nat
  cd_ambiguous :: nat
  cd_mismatched :: nat
  cd_mismatchReasons :: "(string \<times> nat) list"
  cd_malformedFields :: field_counts
  cd_scopedMalformedFields :: field_counts
  cd_statusValueBuckets :: field_counts
  cd_scopedStatusValueBuckets :: field_counts

text \<open>An early return carries a verdict and its one issue only.\<close>

record comparison =
  cmp_verdict :: string
  cmp_issues :: "string list"
  cmp_details :: "comparison_details option"

definition rejected :: "string \<Rightarrow> comparison" where
  "rejected code = \<lparr>cmp_verdict = ''incomplete'', cmp_issues = [code], cmp_details = None\<rparr>"

definition compareCapture ::
    "url_parser \<Rightarrow> (js \<Rightarrow> jsnum) \<Rightarrow> (js \<Rightarrow> bool) \<Rightarrow> js \<Rightarrow> js \<Rightarrow> comparison" where
  "compareCapture parse_url coerce incl reference network =
     (if \<not> truthy reference \<or> \<not> is_arr (getp reference ''hops'') \<or> \<not> is_arr (getp reference ''errors'')
      then rejected ''invalid-reference''
      else if \<not> truthy network \<or> \<not> is_arr (getp network ''requests'') \<or>
              10000 < length (arr_of (getp network ''requests'')) \<or> 10000 < length (arr_of (getp reference ''hops''))
      then rejected ''invalid-reb-snapshot''
      else
        let hops = arr_of (getp reference ''hops''); requests = arr_of (getp network ''requests'');
            refs = filter (\<lambda>h. truthy h \<and> incl h) hops;
            rows = filter (\<lambda>r. truthy r \<and> incl r) requests;
            st = fold (compare_hop rows (index_rows rows)) refs
                   (start_matching (validation_issues parse_url coerce incl reference network));
            extra = length rows - length (mt_consumed st)
        in \<lparr>cmp_verdict =
              (if mt_issues st \<noteq> [] then ''incomplete''
               else if mt_missing st \<noteq> 0 \<or> extra \<noteq> 0 \<or> mt_ambiguous st \<noteq> 0 \<or> mt_mismatched st \<noteq> 0
               then ''fail'' else ''pass''),
            cmp_issues = mt_issues st,
            cmp_details = Some
              \<lparr>cd_referenceHops = length refs, cd_rebHops = length rows, cd_matched = mt_matched st,
               cd_missing = mt_missing st, cd_extra = extra, cd_ambiguous = mt_ambiguous st,
               cd_mismatched = mt_mismatched st, cd_mismatchReasons = mt_mismatchReasons st,
               cd_malformedFields = countMalformedHopFields hops requests,
               cd_scopedMalformedFields = countMalformedHopFields refs rows,
               cd_statusValueBuckets = countStatusValues hops requests,
               cd_scopedStatusValueBuckets = countStatusValues refs rows\<rparr>\<rparr>)"

section \<open>The index and one step of the matching\<close>

text \<open>The positions of the rows that have an identity.\<close>

definition bucket :: "js list \<Rightarrow> identity \<Rightarrow> nat list" where
  "bucket rows k = filter (\<lambda>i. row_identity (rows ! i) = k) [0..<length rows]"

lemma set_bucket: "set (bucket rows k) = {i. i < length rows \<and> row_identity (rows ! i) = k}"
  by (auto simp: bucket_def)

lemma index_fold:
  "(case map_of (fold (index_put rows) [0..<n] []) k of None \<Rightarrow> [] | Some is \<Rightarrow> is) =
     filter (\<lambda>i. row_identity (rows ! i) = k) [0..<n]"
  by (induction n) (auto simp: index_put_def Let_def)

lemma index_bucket: "(case map_of (index_rows rows) k of None \<Rightarrow> [] | Some is \<Rightarrow> is) = bucket rows k"
  unfolding index_rows_def bucket_def by (rule index_fold)

lemma compare_hop_cases:
  obtains
    (duplicate) "hop_identity hop \<in> set (mt_seen st)"
      "compare_hop rows (index_rows rows) hop st =
        st\<lparr>mt_ambiguous := mt_ambiguous st + 1,
           mt_issues := add_issue ''duplicate-reference-observation'' (mt_issues st)\<rparr>"
  | (absent) "hop_identity hop \<notin> set (mt_seen st)" "bucket rows (hop_identity hop) = []"
      "compare_hop rows (index_rows rows) hop st =
        st\<lparr>mt_seen := set_add (hop_identity hop) (mt_seen st), mt_missing := mt_missing st + 1\<rparr>"
  | (unique) i where "hop_identity hop \<notin> set (mt_seen st)" "bucket rows (hop_identity hop) = [i]"
      "compare_hop rows (index_rows rows) hop st =
        compare_pair hop rows i (st\<lparr>mt_seen := set_add (hop_identity hop) (mt_seen st)\<rparr>)"
  | (several) "hop_identity hop \<notin> set (mt_seen st)"
      "compare_hop rows (index_rows rows) hop st =
        st\<lparr>mt_seen := set_add (hop_identity hop) (mt_seen st), mt_ambiguous := mt_ambiguous st + 1\<rparr>"
proof (cases "hop_identity hop \<in> set (mt_seen st)")
  case True
  then show thesis by (intro duplicate) (simp_all add: compare_hop_def Let_def)
next
  case new: False
  consider "bucket rows (hop_identity hop) = []" | i where "bucket rows (hop_identity hop) = [i]"
    | i j js where "bucket rows (hop_identity hop) = i # j # js"
    by (cases "bucket rows (hop_identity hop)" rule: remdups_adj.cases) auto
  then show thesis
    using new by cases (auto intro: absent unique several simp: compare_hop_def Let_def index_bucket)
qed

section \<open>Accounting\<close>

definition matching_ok :: "js list \<Rightarrow> matching \<Rightarrow> bool" where
  "matching_ok rows st \<longleftrightarrow>
     distinct (mt_consumed st) \<and>
     (\<forall>i \<in> set (mt_consumed st). i < length rows \<and> row_identity (rows ! i) \<in> set (mt_seen st)) \<and>
     length (mt_consumed st) = mt_matched st + mt_mismatched st"

definition accounted :: "matching \<Rightarrow> nat" where
  "accounted st = mt_matched st + mt_missing st + mt_ambiguous st + mt_mismatched st"

lemma add_issue_prefix: "prefix issues (add_issue code issues)"
  by (simp add: add_issue_def)

lemma add_issue_not_Nil [simp]: "add_issue code issues \<noteq> []"
  by (auto simp: add_issue_def)

lemma add_when_prefix: "prefix issues (add_when b code issues)"
  by (simp add: add_when_def add_issue_prefix)

lemma add_when_Nil [simp]: "add_when b code issues = [] \<longleftrightarrow> \<not> b \<and> issues = []"
  by (simp add: add_when_def)

lemma pair_issues_prefix: "prefix issues (pair_issues hop row issues)"
  unfolding pair_issues_def by (meson add_when_prefix prefix_order.trans)

lemma compare_pair_frame [simp]:
  "mt_seen (compare_pair hop rows i st) = mt_seen st"
  "mt_consumed (compare_pair hop rows i st) = set_add i (mt_consumed st)"
  "mt_issues (compare_pair hop rows i st) = pair_issues hop (rows ! i) (mt_issues st)"
  "mt_missing (compare_pair hop rows i st) = mt_missing st"
  "mt_ambiguous (compare_pair hop rows i st) = mt_ambiguous st"
  "mt_matched (compare_pair hop rows i st) =
     mt_matched st + (if differences hop (rows ! i) = [] then 1 else 0)"
  "mt_mismatched (compare_pair hop rows i st) =
     mt_mismatched st + (if differences hop (rows ! i) = [] then 0 else 1)"
  by (simp_all add: compare_pair_def Let_def)

lemma bucket_single: "bucket rows k = [i] \<Longrightarrow> i < length rows \<and> row_identity (rows ! i) = k"
  using set_bucket [of rows k] by auto

lemma compare_hop_ok:
  assumes "matching_ok rows st"
  shows "matching_ok rows (compare_hop rows (index_rows rows) hop st)"
proof (cases rule: compare_hop_cases [of hop st rows])
  case (unique i)
  have i: "i < length rows" "row_identity (rows ! i) = hop_identity hop"
    using bucket_single [OF unique(2)] by simp_all
  then have new: "i \<notin> set (mt_consumed st)" using assms unique(1) by (auto simp: matching_ok_def)
  show ?thesis using assms unique(3) i new
    by (auto simp: matching_ok_def length_set_add)
qed (use assms in \<open>auto simp: matching_ok_def\<close>)

lemma compare_hop_accounts:
  "accounted (compare_hop rows (index_rows rows) hop st) = accounted st + 1"
  by (cases rule: compare_hop_cases [of hop st rows]) (simp_all add: accounted_def)

lemma compare_hop_issues:
  "prefix (mt_issues st) (mt_issues (compare_hop rows (index_rows rows) hop st))"
  by (cases rule: compare_hop_cases [of hop st rows]) (simp_all add: add_issue_prefix pair_issues_prefix)

interpretation matching_m: accounting_machine "compare_hop rows (index_rows rows)" "matching_ok rows"
    "\<lambda>_. 1" accounted for rows
  by unfold_locales (simp_all add: compare_hop_ok compare_hop_accounts)

interpretation matching_issues: appending_machine "compare_hop rows (index_rows rows)" "matching_ok rows" mt_issues
    for rows
  by unfold_locales (simp add: compare_hop_issues)

lemma start_matching_ok [simp]: "matching_ok rows (start_matching issues)" "accounted (start_matching issues) = 0"
  by (simp_all add: matching_ok_def start_matching_def accounted_def)

lemma consumed_bound: "matching_ok rows st \<Longrightarrow> length (mt_consumed st) \<le> length rows"
proof -
  assume ok: "matching_ok rows st"
  then have "set (mt_consumed st) \<subseteq> {..<length rows}" by (auto simp: matching_ok_def)
  from card_mono [OF _ this] ok show ?thesis by (simp add: matching_ok_def distinct_card)
qed

text \<open>
  C6. The report of a comparison accounts for everything: each reference hop in scope is
  counted exactly once, as matched, missing, ambiguous or mismatched; each captured row in
  scope is consumed by one matched or mismatched hop or counted as extra; and the verdict
  is \<open>pass\<close> exactly when no issue was found and no hop or row is left over.
\<close>

theorem comparison_accounts:
  assumes "cmp_details (compareCapture pu coerce incl reference network) = Some d"
  shows "cd_matched d + cd_missing d + cd_ambiguous d + cd_mismatched d = cd_referenceHops d \<and>
    cd_matched d + cd_mismatched d + cd_extra d = cd_rebHops d \<and>
    (cmp_verdict (compareCapture pu coerce incl reference network) = ''pass'' \<longleftrightarrow>
       cmp_issues (compareCapture pu coerce incl reference network) = [] \<and>
       cd_matched d = cd_referenceHops d \<and> cd_matched d = cd_rebHops d)"
proof -
  define rows where "rows = filter (\<lambda>r. truthy r \<and> incl r) (arr_of (getp network ''requests''))"
  define refs where "refs = filter (\<lambda>h. truthy h \<and> incl h) (arr_of (getp reference ''hops''))"
  define st where "st = fold (compare_hop rows (index_rows rows)) refs
    (start_matching (validation_issues pu coerce incl reference network))"
  have ok: "matching_ok rows st" unfolding st_def by (rule matching_m.run_inv) simp
  have total: "accounted st = length refs"
    unfolding st_def by (subst matching_m.run_spent) (simp_all add: sum_list_triv)
  have used: "length (mt_consumed st) = mt_matched st + mt_mismatched st" using ok by (simp add: matching_ok_def)
  note bound = consumed_bound [OF ok]
  have d: "cd_matched d = mt_matched st" "cd_missing d = mt_missing st" "cd_ambiguous d = mt_ambiguous st"
    "cd_mismatched d = mt_mismatched st" "cd_extra d = length rows - length (mt_consumed st)"
    "cd_referenceHops d = length refs" "cd_rebHops d = length rows"
    and c: "cmp_issues (compareCapture pu coerce incl reference network) = mt_issues st"
      "cmp_verdict (compareCapture pu coerce incl reference network) =
        (if mt_issues st \<noteq> [] then ''incomplete''
         else if mt_missing st \<noteq> 0 \<or> length rows - length (mt_consumed st) \<noteq> 0 \<or> mt_ambiguous st \<noteq> 0
           \<or> mt_mismatched st \<noteq> 0 then ''fail'' else ''pass'')"
    using assms
    by (auto simp: compareCapture_def rejected_def Let_def rows_def [symmetric] refs_def [symmetric] st_def [symmetric]
        split: if_splits)
  show ?thesis
    using total used bound unfolding d c accounted_def by auto
qed

definition demo_reference :: js where
  "demo_reference = Obj [(''finalized'', Bool True), (''epoch'', Num (Fin 1)), (''errors'', Arr []),
     (''hops'', Arr [Obj [(''epoch'', Num (Fin 1)), (''sessionId'', Str ''s''), (''targetId'', Str ''t''),
        (''requestId'', Str ''r''), (''hop'', Num (Fin 0)), (''url'', Str ''http://a/''), (''method'', Str ''GET''),
        (''resourceType'', Str ''Document''), (''timestamp'', Num (Fin 1)), (''status'', Num (Fin 200)),
        (''status_source'', Str ''response-received''), (''wire_status'', Null), (''state'', Str ''complete''),
        (''fromDiskCache'', Bool False), (''fromServiceWorker'', Bool False)]])]"

definition demo_network :: js where
  "demo_network = Obj [(''capture_enabled'', Bool True), (''instance_id'', Str ''i''), (''capture_epoch'', Num (Fin 0)),
     (''dropped'', Num (Fin 0)),
     (''capture_status'', Obj [(''state'', Str ''ready''), (''startup_mode'', Str ''passive''),
        (''catalog_incomplete'', Bool False), (''discovery_stale'', Bool False), (''unattached_targets'', Arr []),
        (''gaps'', Num (Fin 0)), (''target_overflow'', Num (Fin 0)), (''failed_targets'', Num (Fin 0)),
        (''unattached_targets_omitted'', Num (Fin 0))]),
     (''requests'', Arr [Obj [(''id'', Str ''x''), (''target_id'', Str ''t''), (''protocol_request_id'', Str ''r''),
        (''url'', Str ''http://a/''), (''method'', Str ''GET''), (''resource_type'', Str ''Document''),
        (''timing_evidence'', Obj [(''request_monotonic_seconds'',
            Obj [(''state'', Str ''available''), (''value'', Num (Fin 1))])]),
        (''status'', Num (Fin 200)), (''status_source'', Str ''response-received''), (''wire_status'', Null),
        (''state'', Str ''complete''), (''from_disk_cache'', Bool False), (''from_service_worker'', Bool False)]])]"

definition demo_parser :: url_parser where
  "demo_parser t = (if prefix ''http://a/'' t
     then Some \<lparr>u_protocol = ''http:'', u_origin = ''http://a'', u_hostname = ''a'', u_pathname = ''/'', u_username = [], u_password = [],
       u_ops = []\<rparr> else None)"

definition demo_comparison :: comparison where
  "demo_comparison = compareCapture demo_parser (\<lambda>_. NaN) (\<lambda>_. True) demo_reference demo_network"

lemma demo_verdict: "cmp_verdict demo_comparison = ''pass''"
  by code_simp

lemma demo_details: "cmp_details demo_comparison \<noteq> None"
  using demo_verdict by (auto simp: demo_comparison_def compareCapture_def rejected_def Let_def split: if_splits)

theorem comparison_accounts_witness:
  "cd_matched (the (cmp_details demo_comparison)) + cd_missing (the (cmp_details demo_comparison))
   + cd_ambiguous (the (cmp_details demo_comparison)) + cd_mismatched (the (cmp_details demo_comparison))
   = cd_referenceHops (the (cmp_details demo_comparison))"
  using comparison_accounts [of demo_parser "\<lambda>_. NaN" "\<lambda>_. True" demo_reference demo_network
      "the (cmp_details demo_comparison)"] demo_details
  by (auto simp: demo_comparison_def)

section \<open>What a pass means\<close>

lemma count_rows_fold:
  "fold (count_row_fields reference) rows counts =
     map (\<lambda>(name, n). (name, n + length (filter (\<lambda>row. map_of (malformedHopFields row reference) name = Some True) rows)))
       counts"
  by (induction rows arbitrary: counts) (auto simp: count_row_fields_def)

lemma count_side_eq:
  "count_side reference rows =
     map (\<lambda>name. (name, length (filter (\<lambda>row. map_of (malformedHopFields row reference) name = Some True) rows)))
       malformedHopFieldNames"
  by (simp add: count_side_def count_rows_fold)

definition fields_ok :: "js \<Rightarrow> bool \<Rightarrow> bool" where
  "fields_ok row reference \<longleftrightarrow>
     one_of [''complete'', ''failed'', ''pending''] (getp row ''state'') \<and>
     (is_finite (getp row ''status'') \<or> getp row ''status'' = Null \<and> getp row ''state'' \<noteq> Str ''complete'') \<and>
     is_str (getp row (if reference then ''resourceType'' else ''resource_type'')) \<and>
     is_bool (getp row (if reference then ''fromDiskCache'' else ''from_disk_cache'')) \<and>
     is_bool (getp row (if reference then ''fromServiceWorker'' else ''from_service_worker''))"

lemma fields_ok_iff:
  "(\<forall>name \<in> set malformedHopFieldNames. map_of (malformedHopFields row reference) name \<noteq> Some True) \<longleftrightarrow>
   fields_ok row reference"
  by (simp add: malformedHopFieldNames_def malformedHopFields_def fields_ok_def)

lemma any_malformed_iff:
  "any_malformed (countMalformedHopFields hops requests) \<longleftrightarrow>
   (\<exists>h \<in> set hops. \<not> fields_ok h True) \<or> (\<exists>r \<in> set requests. \<not> fields_ok r False)"
proof -
  have "(\<exists>(_, n) \<in> set (count_side reference rows). 0 < n) \<longleftrightarrow> (\<exists>row \<in> set rows. \<not> fields_ok row reference)"
    for reference rows
    unfolding fields_ok_iff [symmetric] count_side_eq set_map
    by (simp add: filter_empty_conv) blast
  then show ?thesis by (simp add: any_malformed_def countMalformedHopFields_def)
qed

lemma fold_issues_Nil: "fold (\<lambda>(b, code). add_when b code) checks issues = [] \<longleftrightarrow>
  issues = [] \<and> (\<forall>(b, code) \<in> set checks. \<not> b)"
  by (induction checks arbitrary: issues) auto

text \<open>The whole-run conditions of a pass: both observers are complete and nothing was dropped.\<close>

definition full_coverage :: "js \<Rightarrow> js \<Rightarrow> bool" where
  "full_coverage reference network \<longleftrightarrow>
     getp reference ''errors'' = Arr [] \<and> getp reference ''finalized'' = Bool True \<and>
     getp network ''capture_enabled'' = Bool True \<and> getp network ''dropped'' = Num (Fin 0) \<and>
     getp (getp network ''capture_status'') ''state'' = Str ''ready'' \<and>
     getp (getp network ''capture_status'') ''unattached_targets'' = Arr [] \<and>
     getp (getp network ''capture_status'') ''catalog_incomplete'' = Bool False \<and>
     getp (getp network ''capture_status'') ''discovery_stale'' = Bool False \<and>
     (\<forall>k \<in> set coverage_counters. getp (getp network ''capture_status'') k = Num (Fin 0))"

text \<open>A reference hop and a captured row that tell the same story about one terminated request.\<close>

definition exact_pair :: "url_parser \<Rightarrow> js \<Rightarrow> js \<Rightarrow> bool" where
  "exact_pair pu hop row \<longleftrightarrow>
     validUrl pu (getp hop ''url'') \<and> getp row ''url'' = getp hop ''url'' \<and>
     getp row ''method'' = getp hop ''method'' \<and> getp row ''status'' = getp hop ''status'' \<and>
     getp row ''state'' = getp hop ''state'' \<and> getp row ''resource_type'' = getp hop ''resourceType'' \<and>
     getp row ''from_disk_cache'' = getp hop ''fromDiskCache'' \<and>
     getp row ''from_service_worker'' = getp hop ''fromServiceWorker'' \<and>
     (getp hop ''state'' = Str ''complete'' \<and> is_finite (getp hop ''status'') \<or> getp hop ''state'' = Str ''failed'') \<and>
     (has_own hop ''status_source'' \<and> has_own row ''status_source'' \<longrightarrow>
        getp row ''status_source'' = getp hop ''status_source'' \<and> getp row ''wire_status'' = getp hop ''wire_status'')"

definition clean :: "matching \<Rightarrow> bool" where
  "clean st \<longleftrightarrow> mt_issues st = [] \<and> mt_missing st = 0 \<and> mt_ambiguous st = 0 \<and> mt_mismatched st = 0"

definition matched_exactly :: "js list \<Rightarrow> js \<Rightarrow> nat \<Rightarrow> bool" where
  "matched_exactly rows hop i \<longleftrightarrow>
     bucket rows (hop_identity hop) = [i] \<and> differences hop (rows ! i) = [] \<and> pair_issues hop (rows ! i) [] = []"

lemma compare_hop_clean:
  assumes "clean (compare_hop rows (index_rows rows) hop st)"
  shows "clean st \<and> hop_identity hop \<notin> set (mt_seen st) \<and> (\<exists>i. matched_exactly rows hop i) \<and>
    set (mt_seen (compare_hop rows (index_rows rows) hop st)) = insert (hop_identity hop) (set (mt_seen st))"
proof (cases rule: compare_hop_cases [of hop st rows])
  case (unique i)
  have "mt_issues st = []"
    using assms pair_issues_prefix [of "mt_issues st" hop "rows ! i"] unique(3) by (simp add: clean_def)
  then show ?thesis using assms unique
    by (auto simp: clean_def matched_exactly_def split: if_splits)
qed (use assms in \<open>auto simp: clean_def\<close>)

lemma fold_clean:
  assumes "clean (fold (compare_hop rows (index_rows rows)) hops st)"
  shows "clean st \<and> distinct (map hop_identity hops) \<and> hop_identity ` set hops \<inter> set (mt_seen st) = {} \<and>
    (\<forall>hop \<in> set hops. \<exists>i. matched_exactly rows hop i)"
  using assms
proof (induction hops arbitrary: st)
  case (Cons hop hops)
  let ?st = "compare_hop rows (index_rows rows) hop st"
  have ih: "clean ?st \<and> distinct (map hop_identity hops) \<and> hop_identity ` set hops \<inter> set (mt_seen ?st) = {} \<and>
    (\<forall>hop \<in> set hops. \<exists>i. matched_exactly rows hop i)"
    by (rule Cons.IH) (use Cons.prems in simp)
  then have "clean ?st" by simp
  from compare_hop_clean [OF this] ih show ?case by auto
qed simp

lemma positive_zero: "is_integer v \<Longrightarrow> \<not> num_of v < 0 \<Longrightarrow> \<not> positive coerce v \<Longrightarrow> v = Num (Fin 0)"
  by (auto simp: is_integer_def positive_def coalesce_def split: js.splits jsnum.splits)

lemma coverage_ok:
  assumes "\<not> coverage_schema_bad coverage" "\<not> coverage_incomplete coerce network coverage"
  shows "getp network ''dropped'' = Num (Fin 0) \<and> getp coverage ''state'' = Str ''ready'' \<and>
    getp coverage ''unattached_targets'' = Arr [] \<and> getp coverage ''catalog_incomplete'' = Bool False \<and>
    getp coverage ''discovery_stale'' = Bool False \<and>
    (\<forall>k \<in> set coverage_counters. getp coverage k = Num (Fin 0))"
proof -
  have "\<forall>k \<in> set coverage_counters. getp coverage k = Num (Fin 0)"
    using assms positive_zero unfolding coverage_schema_bad_def coverage_incomplete_def by blast
  moreover have "getp coverage ''unattached_targets'' = Arr []"
    using assms unfolding coverage_schema_bad_def coverage_incomplete_def
    by (auto elim!: is_arrE simp: has_length_def)
  ultimately show ?thesis
    using assms unfolding coverage_schema_bad_def coverage_incomplete_def by (auto elim!: is_boolE)
qed

lemma no_differences:
  assumes "differences hop row = []"
  shows "strict_eq (getp row ''url'') (getp hop ''url'')" "strict_eq (getp row ''method'') (getp hop ''method'')"
    "strict_eq (getp row ''status'') (getp hop ''status'')" "strict_eq (getp row ''state'') (getp hop ''state'')"
    "strict_eq (getp row ''resource_type'') (getp hop ''resourceType'')"
    "strict_eq (getp row ''from_disk_cache'') (getp hop ''fromDiskCache'')"
    "strict_eq (getp row ''from_service_worker'') (getp hop ''fromServiceWorker'')"
    "pv_complete (statusProvenance hop) \<Longrightarrow> pv_complete (statusProvenance row) \<Longrightarrow>
      strict_eq (getp row ''status_source'') (getp hop ''status_source'') \<and>
      strict_eq (getp row ''wire_status'') (getp hop ''wire_status'')"
proof -
  have "\<forall>(name, actual, expected) \<in> set (compared_fields hop row). strict_eq actual expected"
    using assms by (auto simp: differences_def filter_empty_conv)
  note all = this [unfolded compared_fields_def]
  show "strict_eq (getp row ''url'') (getp hop ''url'')" "strict_eq (getp row ''method'') (getp hop ''method'')"
    "strict_eq (getp row ''status'') (getp hop ''status'')" "strict_eq (getp row ''state'') (getp hop ''state'')"
    "strict_eq (getp row ''resource_type'') (getp hop ''resourceType'')"
    "strict_eq (getp row ''from_disk_cache'') (getp hop ''fromDiskCache'')"
    "strict_eq (getp row ''from_service_worker'') (getp hop ''fromServiceWorker'')"
    using all by simp_all
  show "pv_complete (statusProvenance hop) \<Longrightarrow> pv_complete (statusProvenance row) \<Longrightarrow>
      strict_eq (getp row ''status_source'') (getp hop ''status_source'') \<and>
      strict_eq (getp row ''wire_status'') (getp hop ''wire_status'')"
    using all by simp
qed

text \<open>Everything the eleven checks establish when none of them adds an issue.\<close>

lemma validation_clean:
  assumes "validation_issues pu coerce incl reference network = []"
    and "hops = arr_of (getp reference ''hops'')" "requests = arr_of (getp network ''requests'')"
  shows "arr_of (getp reference ''errors'') = []" "getp reference ''finalized'' = Bool True"
    "\<not> reb_identity_missing network" "\<not> coverage_schema_bad (getp network ''capture_status'')"
    "\<not> coverage_incomplete coerce network (getp network ''capture_status'')"
    "h \<in> set hops \<Longrightarrow> validUrl pu (getp h ''url'') \<and> fields_ok h True \<and> \<not> provenance_malformed h
       \<and> \<not> malformed_reference_row h"
    "r \<in> set requests \<Longrightarrow> validUrl pu (getp r ''url'') \<and> fields_ok r False \<and> \<not> provenance_malformed r
       \<and> \<not> malformed_reb_row r"
    "filter (\<lambda>h. truthy h \<and> incl h) hops \<noteq> []"
  using assms
  by (auto simp: validation_issues_def Let_def fold_issues_Nil any_malformed_iff)

lemma provenance_complete:
  "has_own row ''status_source'' \<Longrightarrow> \<not> provenance_malformed row \<Longrightarrow> pv_complete (statusProvenance row)"
  by (auto simp: provenance_malformed_def statusProvenance_def Let_def)

lemma matched_pair:
  assumes m: "matched_exactly rows hop i"
    and hop: "validUrl pu (getp hop ''url'')" "fields_ok hop True" "\<not> provenance_malformed hop"
    and row: "\<not> provenance_malformed (rows ! i)"
  shows "exact_pair pu hop (rows ! i)"
proof -
  have d: "differences hop (rows ! i) = []" and p: "getp hop ''state'' \<noteq> Str ''pending''"
    using m by (auto simp: matched_exactly_def pair_issues_def)
  note eqs = no_differences(1-7) [OF d, THEN strict_eq_imp_eq]
  have "getp (rows ! i) ''status_source'' = getp hop ''status_source'' \<and>
      getp (rows ! i) ''wire_status'' = getp hop ''wire_status''"
    if "has_own hop ''status_source''" "has_own (rows ! i) ''status_source''"
    using no_differences(8) [OF d] provenance_complete that hop(3) row strict_eq_imp_eq by blast
  moreover have "getp hop ''state'' = Str ''complete'' \<and> is_finite (getp hop ''status'') \<or> getp hop ''state'' = Str ''failed''"
    using hop(2) p by (auto simp: fields_ok_def one_of_def split: js.splits)
  ultimately show ?thesis using hop(1) eqs by (simp add: exact_pair_def)
qed

text \<open>When every hop is matched exactly and as many rows as hops exist, the matching is one-to-one.\<close>

lemma exact_bijection:
  assumes dist: "distinct (map hop_identity refs)" and all: "\<forall>hop \<in> set refs. \<exists>i. matched_exactly rows hop i"
    and len: "length rows = length refs"
  obtains partner where "bij_betw partner {..<length refs} {..<length rows}"
    "\<And>j. j < length refs \<Longrightarrow> matched_exactly rows (refs ! j) (partner j) \<and> partner j < length rows \<and>
       row_identity (rows ! partner j) = hop_identity (refs ! j)"
proof -
  obtain chosen where "\<forall>hop \<in> set refs. matched_exactly rows hop (chosen hop)" using bchoice [OF all] by blast
  then obtain partner where partner: "\<And>j. j < length refs \<Longrightarrow> matched_exactly rows (refs ! j) (partner j)"
    using that [of "\<lambda>j. chosen (refs ! j)"] by simp
  have image: "partner j < length rows" "row_identity (rows ! partner j) = hop_identity (refs ! j)"
    if "j < length refs" for j
    using bucket_single [of rows "hop_identity (refs ! j)" "partner j"] partner [OF that]
    by (simp_all add: matched_exactly_def)
  have "inj_on partner {..<length refs}"
  proof (rule inj_onI)
    fix j k
    assume jk: "j \<in> {..<length refs}" "k \<in> {..<length refs}" "partner j = partner k"
    then have "hop_identity (refs ! j) = hop_identity (refs ! k)" using image(2) by (metis lessThan_iff)
    then show "j = k" using dist jk by (simp add: distinct_conv_nth) (metis length_map nth_map)
  qed
  moreover have "partner ` {..<length refs} \<subseteq> {..<length rows}" using image(1) by auto
  ultimately have "bij_betw partner {..<length refs} {..<length rows}"
    by (simp add: bij_betw_def len card_image card_subset_eq)
  with partner image show thesis using that by blast
qed

text \<open>
  C7. A pass is exact: both observers report full coverage, and there is a one-to-one
  correspondence between the reference hops in scope and the captured rows in scope under
  which partners have the same target, request id and timestamp and tell the same story (URL,
  method, status, state, type, cache flags and, where both carry it, status provenance);
  no hop and no row is left without a partner and none is still pending.
\<close>

theorem pass_is_exact:
  assumes pass: "cmp_verdict (compareCapture pu coerce incl reference network) = ''pass''"
    and refs: "refs = filter (\<lambda>h. truthy h \<and> incl h) (arr_of (getp reference ''hops''))"
    and rows: "rows = filter (\<lambda>r. truthy r \<and> incl r) (arr_of (getp network ''requests''))"
  shows "full_coverage reference network \<and> refs \<noteq> [] \<and>
    (\<exists>partner. bij_betw partner {..<length refs} {..<length rows} \<and>
       (\<forall>j < length refs. hop_identity (refs ! j) = row_identity (rows ! partner j) \<and>
          exact_pair pu (refs ! j) (rows ! partner j)))"
proof -
  define issues where "issues = validation_issues pu coerce incl reference network"
  define st where "st = fold (compare_hop rows (index_rows rows)) refs (start_matching issues)"
  have arr: "is_arr (getp reference ''errors'')"
    and fin: "clean st" "length rows \<le> length (mt_consumed st)"
    using pass
    by (auto simp: compareCapture_def rejected_def Let_def clean_def issues_def st_def
        rows [symmetric] refs [symmetric] split: if_splits)
  have ok: "matching_ok rows st" unfolding st_def by (rule matching_m.run_inv) simp
  have "accounted st = length refs"
    unfolding st_def by (subst matching_m.run_spent) (simp_all add: sum_list_triv)
  then have len: "length rows = length refs"
    using ok fin consumed_bound [OF ok] by (simp add: matching_ok_def clean_def accounted_def)
  have all: "clean (start_matching issues)" "distinct (map hop_identity refs)"
    "\<forall>hop \<in> set refs. \<exists>i. matched_exactly rows hop i"
    using fold_clean [OF fin(1) [unfolded st_def]] by simp_all
  note none = validation_clean [OF all(1) [unfolded clean_def start_matching_def issues_def, simplified] refl refl]
  obtain partner where bij: "bij_betw partner {..<length refs} {..<length rows}"
    and partner: "\<And>j. j < length refs \<Longrightarrow> matched_exactly rows (refs ! j) (partner j) \<and> partner j < length rows \<and>
       row_identity (rows ! partner j) = hop_identity (refs ! j)"
    using exact_bijection [OF all(2,3) len] by metis
  have pair: "exact_pair pu (refs ! j) (rows ! partner j)" if "j < length refs" for j
  proof (rule matched_pair)
    show "matched_exactly rows (refs ! j) (partner j)" using partner [OF that] by blast
    have "refs ! j \<in> set (arr_of (getp reference ''hops''))" "rows ! partner j \<in> set (arr_of (getp network ''requests''))"
      using nth_mem [OF that] nth_mem [of "partner j" rows] partner [OF that] unfolding refs rows by auto
    then show "validUrl pu (getp (refs ! j) ''url'')" "fields_ok (refs ! j) True"
      "\<not> provenance_malformed (refs ! j)" "\<not> provenance_malformed (rows ! partner j)"
      using none(6,7) by blast+
  qed
  have "full_coverage reference network"
    using none(1-3) coverage_ok [OF none(4,5)] arr
    by (auto simp: full_coverage_def reb_identity_missing_def elim!: is_arrE)
  moreover have "refs \<noteq> []" using none(8) by (simp add: refs)
  ultimately show ?thesis using bij partner pair by metis
qed

theorem pass_is_exact_witness:
  "full_coverage demo_reference demo_network \<and>
   (\<exists>partner. bij_betw partner {..<length (arr_of (getp demo_reference ''hops''))}
      {..<length (arr_of (getp demo_network ''requests''))})"
  using pass_is_exact [OF demo_verdict [unfolded demo_comparison_def] refl refl]
  by (auto simp: demo_reference_def demo_network_def)

end
