(* ===== verification/CaptureVerdicts.thy ===== *)
theory CaptureVerdicts
  imports CompareCapture
begin

text \<open>
  The verdicts of \<open>tools/capture-completeness-reference.mjs\<close> (\<open>completenessVerdict\<close>,
  \<open>fixtureOperation\<close>, \<open>compareFixtureBodies\<close>, \<open>captureRunVerdict\<close>), the
  \<open>CaptureIdentityTracker\<close>, and the shared vocabulary of the authored fixture manifest
  (\<open>tools/capture-completeness-fixture.mjs\<close>).
\<close>

section \<open>Verdicts\<close>

definition pass_or_fail :: "js \<Rightarrow> bool" where
  "pass_or_fail v = one_of [''pass'', ''fail''] v"

definition completenessVerdict :: "js \<Rightarrow> js \<Rightarrow> js \<Rightarrow> js \<Rightarrow> js \<Rightarrow> string" where
  "completenessVerdict errorCode fixtureComplete cmp uncovered netlog =
     (if truthy errorCode \<or> fixtureComplete \<noteq> Bool True \<or> \<not> pass_or_fail (getp cmp ''verdict'') \<or>
         \<not> one_of [''corroborated'', ''mismatch''] (getp netlog ''state'')
      then ''incomplete''
      else if getp cmp ''verdict'' = Str ''pass'' \<and> uncovered = Bool False \<and>
              getp netlog ''state'' = Str ''corroborated''
      then ''pass'' else ''fail'')"

definition captureRunVerdict :: "js \<Rightarrow> js \<Rightarrow> string" where
  "captureRunVerdict httpVerdict bodyComparison =
     (if \<not> pass_or_fail httpVerdict \<or> \<not> pass_or_fail (getp bodyComparison ''verdict'') then ''incomplete''
      else if httpVerdict = Str ''pass'' \<and> getp bodyComparison ''verdict'' = Str ''pass'' then ''pass'' else ''fail'')"

section \<open>The fixture manifest and its plaintext samples\<close>

text \<open>An authored operation; an absent optional member is \<open>None\<close>.\<close>

record fixture_op =
  fo_operationId :: string
  fo_caseId :: string
  fo_path :: string
  fo_method :: string
  fo_expectedReceipts :: nat
  fo_kind :: string
  fo_expectedBody :: "string option"
  fo_expectedClientCompletions :: "nat option"

record manifest =
  mf_runId :: string
  mf_origins :: "string list"
  mf_operations :: "fixture_op list"

text \<open>
  \<open>fixtureOperation(row, manifest)\<close>: the authored operation a captured row belongs to, by
  its position in \<open>manifest.operations\<close> (the code compares operations by reference).
\<close>

definition fixtureOperation :: "url_parser \<Rightarrow> js \<Rightarrow> manifest \<Rightarrow> nat option" where
  "fixtureOperation parse_url row mf =
     (if \<not> truthy row \<or> \<not> is_str (getp row ''url'') \<or> \<not> is_str (getp row ''method'') then None
      else case parse_url (str_of (getp row ''url'')) of
          None \<Rightarrow> None
        | Some u \<Rightarrow>
            if u_origin u \<notin> set (mf_origins mf) \<or> u_username u \<noteq> [] \<or> u_password u \<noteq> [] \<or> length (u_ops u) \<noteq> 1
            then None
            else find_from (\<lambda>p. fo_operationId p = hd (u_ops u) \<and> fo_path p = u_pathname u \<and>
                     Str (fo_method p) = getp row ''method'') (mf_operations mf) 0)"

record body_state =
  bs_expected :: nat
  bs_checked :: nat
  bs_missing :: nat
  bs_mismatched :: nat

definition check_body :: "string \<Rightarrow> js \<Rightarrow> body_state \<Rightarrow> body_state" where
  "check_body expectedBody row s =
     (let body = getp (getp row ''response'') ''body''
      in if getp body ''state'' \<noteq> Str ''available'' \<or> getp body ''truncated'' \<noteq> Bool False
         then s\<lparr>bs_missing := bs_missing s + 1\<rparr>
         else s\<lparr>bs_checked := bs_checked s + 1,
                bs_mismatched := bs_mismatched s +
                  (if getp body ''text'' \<noteq> Str expectedBody \<or> truthy (getp body ''base64'') then 1 else 0)\<rparr>)"

definition check_sample :: "url_parser \<Rightarrow> js list \<Rightarrow> manifest \<Rightarrow> nat \<Rightarrow> body_state \<Rightarrow> body_state" where
  "check_sample parse_url requests mf i s =
     (let p = mf_operations mf ! i;
          expected = (case fo_expectedClientCompletions p of Some n \<Rightarrow> n | None \<Rightarrow> fo_expectedReceipts p);
          rows = filter (\<lambda>row. fixtureOperation parse_url row mf = Some i) requests
      in fold (check_body (case fo_expectedBody p of Some b \<Rightarrow> b | None \<Rightarrow> [])) rows
           (s\<lparr>bs_expected := bs_expected s + expected,
              bs_missing := bs_missing s + (expected - length rows),
              bs_mismatched := bs_mismatched s + (length rows - expected)\<rparr>))"

record body_comparison =
  bc_verdict :: string
  bc_counts :: body_state

definition sample_positions :: "manifest \<Rightarrow> nat list" where
  "sample_positions mf =
     filter (\<lambda>i. fo_expectedBody (mf_operations mf ! i) \<noteq> None) [0..<length (mf_operations mf)]"

text \<open>
  \<open>compareFixtureBodies\<close>. \<open>(network?.requests ?? []).filter\<close> throws when \<open>requests\<close> is
  neither nullish nor an array; it is only reached when there is a sample.
\<close>

definition compareFixtureBodies :: "url_parser \<Rightarrow> js \<Rightarrow> manifest \<Rightarrow> js_error + body_comparison" where
  "compareFixtureBodies parse_url network mf =
     (let requests = coalesce (getp network ''requests'') (Arr [])
      in if sample_positions mf \<noteq> [] \<and> \<not> is_arr requests then Inl TypeError
         else
           let s = fold (check_sample parse_url (arr_of requests) mf) (sample_positions mf)
                     \<lparr>bs_expected = 0, bs_checked = 0, bs_missing = 0, bs_mismatched = 0\<rparr>
           in Inr \<lparr>bc_verdict =
                (if bs_expected s = 0 then ''unassessed''
                 else if bs_missing s \<noteq> 0 then ''incomplete''
                 else if bs_mismatched s \<noteq> 0 then ''fail'' else ''pass''),
              bc_counts = s\<rparr>)"

section \<open>The identity tracker\<close>







section \<open>Bodies\<close>

text \<open>A row whose body was captured whole, and one that also has the authored text.\<close>

definition body_available :: "js \<Rightarrow> bool" where
  "body_available row \<longleftrightarrow>
     getp (getp (getp row ''response'') ''body'') ''state'' = Str ''available'' \<and>
     getp (getp (getp row ''response'') ''body'') ''truncated'' = Bool False"

definition body_matches :: "string \<Rightarrow> js \<Rightarrow> bool" where
  "body_matches expected row \<longleftrightarrow>
     getp (getp (getp row ''response'') ''body'') ''text'' = Str expected \<and>
     \<not> truthy (getp (getp (getp row ''response'') ''body'') ''base64'')"

definition expected_count :: "fixture_op \<Rightarrow> nat" where
  "expected_count p = (case fo_expectedClientCompletions p of Some n \<Rightarrow> n | None \<Rightarrow> fo_expectedReceipts p)"

definition sample_rows :: "url_parser \<Rightarrow> js list \<Rightarrow> manifest \<Rightarrow> nat \<Rightarrow> js list" where
  "sample_rows pu requests mf i = filter (\<lambda>row. fixtureOperation pu row mf = Some i) requests"

definition sample_ok :: "url_parser \<Rightarrow> js list \<Rightarrow> manifest \<Rightarrow> nat \<Rightarrow> bool" where
  "sample_ok pu requests mf i \<longleftrightarrow>
     length (sample_rows pu requests mf i) = expected_count (mf_operations mf ! i) \<and>
     (\<forall>row \<in> set (sample_rows pu requests mf i).
        body_available row \<and> (\<forall>b. fo_expectedBody (mf_operations mf ! i) = Some b \<longrightarrow> body_matches b row))"

lemma check_body_simps:
  "bs_expected (check_body b row s) = bs_expected s"
  "bs_missing (check_body b row s) = 0 \<longleftrightarrow> bs_missing s = 0 \<and> body_available row"
  "bs_mismatched (check_body b row s) = 0 \<longleftrightarrow> bs_mismatched s = 0 \<and> (body_available row \<longrightarrow> body_matches b row)"
  by (auto simp: check_body_def body_available_def body_matches_def Let_def)

lemma check_bodies:
  "bs_expected (fold (check_body b) rows s) = bs_expected s"
  "bs_missing (fold (check_body b) rows s) = 0 \<longleftrightarrow> bs_missing s = 0 \<and> (\<forall>row \<in> set rows. body_available row)"
  "bs_mismatched (fold (check_body b) rows s) = 0 \<longleftrightarrow>
     bs_mismatched s = 0 \<and> (\<forall>row \<in> set rows. body_available row \<longrightarrow> body_matches b row)"
  by (induction rows arbitrary: s) (auto simp: check_body_simps)

definition no_fault :: "body_state \<Rightarrow> bool" where
  "no_fault s \<longleftrightarrow> bs_missing s = 0 \<and> bs_mismatched s = 0"

lemma check_sample_simps:
  "bs_expected (check_sample pu requests mf i s) = bs_expected s + expected_count (mf_operations mf ! i)"
  "fo_expectedBody (mf_operations mf ! i) = Some b \<Longrightarrow>
   no_fault (check_sample pu requests mf i s) \<longleftrightarrow> no_fault s \<and> sample_ok pu requests mf i"
  unfolding no_fault_def check_sample_def Let_def expected_count_def [symmetric] sample_rows_def [symmetric] check_bodies
  by (auto simp: sample_ok_def)

lemma check_samples:
  assumes "\<forall>i \<in> set is. fo_expectedBody (mf_operations mf ! i) \<noteq> None"
  shows "bs_expected (fold (check_sample pu requests mf) is s) =
      bs_expected s + (\<Sum>i\<leftarrow>is. expected_count (mf_operations mf ! i))"
    and "no_fault (fold (check_sample pu requests mf) is s) \<longleftrightarrow>
      no_fault s \<and> (\<forall>i \<in> set is. sample_ok pu requests mf i)"
  using assms by (induction "is" arbitrary: s) (auto simp: check_sample_simps)

text \<open>
  The authored bodies pass exactly when there is something to check and every sampled
  operation was captured as often as it was performed, each time with its whole body, equal
  to the authored text and not re-encoded. In particular a missing row, a surplus row, a
  truncated body or a wrong one each prevent a pass.
\<close>

theorem bodies_pass_iff:
  "(\<exists>counts. compareFixtureBodies pu network mf = Inr \<lparr>bc_verdict = ''pass'', bc_counts = counts\<rparr>) \<longleftrightarrow>
   is_arr (getp network ''requests'') \<and> 0 < (\<Sum>i\<leftarrow>sample_positions mf. expected_count (mf_operations mf ! i)) \<and>
   (\<forall>i \<in> set (sample_positions mf). sample_ok pu (arr_of (getp network ''requests'')) mf i)"
proof -
  let ?requests = "coalesce (getp network ''requests'') (Arr [])"
  have pos: "\<forall>i \<in> set (sample_positions mf). fo_expectedBody (mf_operations mf ! i) \<noteq> None"
    by (simp add: sample_positions_def)
  define final where "final = fold (check_sample pu (arr_of ?requests) mf) (sample_positions mf)
    \<lparr>bs_expected = 0, bs_checked = 0, bs_missing = 0, bs_mismatched = 0\<rparr>"
  have final: "bs_expected final = (\<Sum>i\<leftarrow>sample_positions mf. expected_count (mf_operations mf ! i))"
    "no_fault final \<longleftrightarrow> (\<forall>i \<in> set (sample_positions mf). sample_ok pu (arr_of ?requests) mf i)"
    unfolding final_def check_samples [OF pos] by (simp_all add: no_fault_def)
  have verdict: "(\<exists>counts. compareFixtureBodies pu network mf = Inr \<lparr>bc_verdict = ''pass'', bc_counts = counts\<rparr>) \<longleftrightarrow>
      (sample_positions mf = [] \<or> is_arr ?requests) \<and> 0 < bs_expected final \<and> no_fault final"
    unfolding compareFixtureBodies_def Let_def final_def [symmetric] no_fault_def by auto
  show ?thesis
  proof (cases "is_arr (getp network ''requests'')")
    case True
    then have "?requests = getp network ''requests''" by (auto simp: coalesce_def elim!: is_arrE)
    with True show ?thesis unfolding verdict final by auto
  next
    case False
    have none: "\<not> sample_ok pu [] mf i" if "0 < expected_count (mf_operations mf ! i)" for i
      using that by (simp add: sample_ok_def sample_rows_def)
    have "is_arr ?requests \<Longrightarrow> arr_of ?requests = []"
      using False by (auto simp: coalesce_def split: if_splits)
    then have "\<not> ((sample_positions mf = [] \<or> is_arr ?requests) \<and> 0 < bs_expected final \<and> no_fault final)"
      unfolding final by (auto dest: none)
    then show ?thesis using False unfolding verdict by blast
  qed
qed

section \<open>Identity\<close>










definition demo_manifest :: manifest where
  "demo_manifest = \<lparr>mf_runId = ''m'', mf_origins = [''http://a''],
     mf_operations = [\<lparr>fo_operationId = ''m:c:x'', fo_caseId = ''c'', fo_path = ''/'', fo_method = ''GET'',
       fo_expectedReceipts = 1, fo_kind = ''http'', fo_expectedBody = Some ''ok'',
       fo_expectedClientCompletions = None\<rparr>]\<rparr>"

definition op_parser :: url_parser where
  "op_parser t = Some \<lparr>u_protocol = ''http:'', u_origin = ''http://a'', u_hostname = ''a'', u_pathname = ''/'',
     u_username = [], u_password = [], u_ops = [''m:c:x'']\<rparr>"

definition demo_bodies :: js where
  "demo_bodies = Obj [(''requests'', Arr [Obj [(''url'', Str ''http://a/?op=m:c:x''), (''method'', Str ''GET''),
     (''response'', Obj [(''body'', Obj [(''state'', Str ''available''), (''truncated'', Bool False),
        (''text'', Str ''ok''), (''base64'', Bool False)])])]])]"

theorem bodies_pass_iff_witness:
  "\<exists>counts. compareFixtureBodies op_parser demo_bodies demo_manifest = Inr \<lparr>bc_verdict = ''pass'', bc_counts = counts\<rparr>"
  unfolding bodies_pass_iff
  by (simp add: demo_bodies_def demo_manifest_def sample_positions_def expected_count_def sample_ok_def
      sample_rows_def fixtureOperation_def op_parser_def body_available_def body_matches_def)

end
