(* ===== verification/TextPatterns.thy ===== *)
theory TextPatterns
  imports JsValue
begin

text \<open>
  The regular expressions and \<open>split\<close> calls of the capture-completeness tools, written as
  predicates on texts. None of the expressions has the \<open>m\<close> flag, so \<open>^\<close> and \<open>$\<close> are the
  ends of the text.
\<close>

section \<open>Character classes\<close>

definition code_in :: "nat \<Rightarrow> nat \<Rightarrow> char \<Rightarrow> bool" where
  "code_in lo hi c = (lo \<le> of_char c \<and> of_char c \<le> hi)"

definition is_digit :: "char \<Rightarrow> bool" where "is_digit c = code_in 48 57 c"
definition is_lower :: "char \<Rightarrow> bool" where "is_lower c = code_in 97 122 c"
definition is_upper :: "char \<Rightarrow> bool" where "is_upper c = code_in 65 90 c"
definition is_dash :: "char \<Rightarrow> bool" where "is_dash c = (c = CHR ''-'')"

definition all_in :: "(char \<Rightarrow> bool) \<Rightarrow> nat \<Rightarrow> nat \<Rightarrow> string \<Rightarrow> bool" where
  "all_in p lo hi s = (lo \<le> length s \<and> length s \<le> hi \<and> list_all p s)"

section \<open>Splitting\<close>

text \<open>\<open>s.split(c)\<close> for a one-character separator.\<close>

fun split_on :: "'a \<Rightarrow> 'a list \<Rightarrow> 'a list list" where
  "split_on c [] = [[]]"
| "split_on c (x # xs) =
     (if x = c then [] # split_on c xs
      else case split_on c xs of [] \<Rightarrow> [[x]] | p # ps \<Rightarrow> (x # p) # ps)"

lemma split_on_not_Nil [simp]: "split_on c s \<noteq> []"
  by (induction s) (auto split: list.split)

lemma join_Cons: "xs \<noteq> [] \<Longrightarrow> join_with sep (x # xs) = x @ sep @ join_with sep xs"
  by (cases xs) auto

lemma join_split: "join_with [c] (split_on c s) = s"
proof (induction s)
  case (Cons x s)
  then show ?case
  proof (cases "x = c")
    case True
    then show ?thesis using Cons by (simp add: join_Cons)
  next
    case False
    obtain p ps where ps: "split_on c s = p # ps" by (cases "split_on c s") auto
    then show ?thesis using Cons False by (cases ps) auto
  qed
qed simp

lemma split_on_none: "c \<notin> set s \<Longrightarrow> split_on c s = [s]"
  by (induction s) auto

lemma split_on_append: "c \<notin> set s \<Longrightarrow> split_on c (s @ c # t) = s # split_on c t"
  by (induction s) auto

lemma split_join:
  "ps \<noteq> [] \<Longrightarrow> \<forall>p \<in> set ps. c \<notin> set p \<Longrightarrow> split_on c (join_with [c] ps) = ps"
proof (induction ps)
  case (Cons p ps)
  then show ?case
  proof (cases "ps = []")
    case False
    then show ?thesis using Cons by (simp add: join_Cons split_on_append)
  qed (simp add: split_on_none)
qed simp

section \<open>The expressions\<close>

text \<open>\<open>/^\d{1,4}\.\d{1,4}\.\d{1,6}\.\d{1,6}$/\<close>: four dot-separated groups of digits.\<close>

definition version_text :: "string \<Rightarrow> bool" where
  "version_text s = (case split_on (CHR ''.'') s of
     [a, b, c, d] \<Rightarrow> all_in is_digit 1 4 a \<and> all_in is_digit 1 4 b \<and> all_in is_digit 1 6 c \<and> all_in is_digit 1 6 d
   | _ \<Rightarrow> False)"

text \<open>\<open>/^[A-Za-z0-9_-]{1,96}$/\<close>.\<close>

definition token_text :: "string \<Rightarrow> bool" where
  "token_text s = all_in (\<lambda>c. is_upper c \<or> is_lower c \<or> is_digit c \<or> c = CHR ''_'' \<or> is_dash c) 1 96 s"

text \<open>\<open>/^[A-Z]{1,16}$/\<close>.\<close>

definition method_text :: "string \<Rightarrow> bool" where
  "method_text s = all_in is_upper 1 16 s"

text \<open>\<open>/^[a-z][a-z0-9-]{0,79}$/\<close>.\<close>

definition code_text :: "string \<Rightarrow> bool" where
  "code_text s = (case s of [] \<Rightarrow> False
     | c # cs \<Rightarrow> is_lower c \<and> all_in (\<lambda>x. is_lower x \<or> is_digit x \<or> is_dash x) 0 79 cs)"

text \<open>\<open>/^[a-f0-9]{40}$/\<close>.\<close>

definition commit_text :: "string \<Rightarrow> bool" where
  "commit_text s = all_in (\<lambda>c. code_in 97 102 c \<or> is_digit c) 40 40 s"

text \<open>\<open>`^${mode}:[a-z0-9-]{1,48}:[a-z0-9-]{1,48}$`\<close> for a mode that is a plain word.\<close>

definition operation_text :: "string \<Rightarrow> string \<Rightarrow> bool" where
  "operation_text md s = (case split_on (CHR '':'') s of
     [a, b, c] \<Rightarrow> a = md \<and> all_in (\<lambda>x. is_lower x \<or> is_digit x \<or> is_dash x) 1 48 b
       \<and> all_in (\<lambda>x. is_lower x \<or> is_digit x \<or> is_dash x) 1 48 c
   | _ \<Rightarrow> False)"

lemma separators_outside [simp]:
  "\<not> is_digit (CHR ''.'')" "\<not> is_lower (CHR '':'')" "\<not> is_digit (CHR '':'')" "\<not> is_dash (CHR '':'')"
  by (simp_all add: is_digit_def is_lower_def is_dash_def code_in_def)

lemma all_in_outside: "all_in p lo hi s \<Longrightarrow> \<not> p c \<Longrightarrow> c \<notin> set s"
  by (auto simp: all_in_def list_all_iff)

end
