(* ===== verification/Netlog.thy ===== *)
theory Netlog
  imports CaptureVerdicts TextPatterns
begin

text \<open>
  \<open>crosscheckNetlog\<close> of \<open>tools/capture-completeness-netlog.mjs\<close>: an independent network log of
  the browser is checked against the schema its constants declare and then counted against
  the authored operations, the server's receipts and the reference hops. All inputs are
  untrusted values. The URL parser and the text of a number are arguments.
\<close>

section \<open>Inputs and results\<close>

definition MAX_EVENTS :: nat where "MAX_EVENTS = 500000"
definition MAX_OPERATIONS :: nat where "MAX_OPERATIONS = 256"
definition MAX_ROWS :: nat where "MAX_ROWS = 100000"
definition NETLOG_MAX_BYTES :: rat where "NETLOG_MAX_BYTES = 64 * 1024 * 1024"

definition nonneg_integer :: "js \<Rightarrow> bool" where
  "nonneg_integer v = (is_safe_integer v \<and> 0 \<le> num_of v)"

definition source_id :: "js \<Rightarrow> bool" where
  "source_id v = (is_integer v \<and> -2147483648 \<le> num_of v \<and> num_of v \<le> 2147483647)"

definition is_token :: "js \<Rightarrow> bool" where "is_token v = (is_str v \<and> token_text (str_of v))"
definition is_version :: "js \<Rightarrow> bool" where "is_version v = (is_str v \<and> version_text (str_of v))"

record netlog_options =
  no_manifest :: js
  no_receipts :: js
  no_referenceHops :: js
  no_browserVersion :: js
  no_capture :: js
  no_origins :: js

record netlog_row =
  nr_op :: js
  nr_sources :: "rat list"
  nr_jobs :: nat
  nr_receipts :: nat
  nr_reference :: nat

record netlog_operation =
  nl_operationId :: js
  nl_caseId :: js
  nl_method :: js
  nl_wireReceipts :: nat
  nl_referenceHops :: nat
  nl_urlRequestSources :: nat
  nl_jobStarts :: nat
  nl_issues :: "string list"

record netlog_result =
  ne_state :: string
  ne_browserVersion :: js
  ne_failures :: "string list"
  ne_operations :: "netlog_operation list"
  ne_ignoredEvents :: nat

type_synonym netlog_rows = "(string \<times> netlog_row) list"

section \<open>Schema of the inputs\<close>

definition netlog_enums :: "(string \<times> string list) list" where
  "netlog_enums = [(''logEventTypes'', [''URL_REQUEST_START_JOB'']), (''logSourceType'', [''URL_REQUEST'']),
     (''logEventPhase'', [''PHASE_BEGIN'', ''PHASE_END'', ''PHASE_NONE''])]"

definition members_of :: "js \<Rightarrow> (string \<times> js) list" where
  "members_of v = (case v of Obj kvs \<Rightarrow> kvs | _ \<Rightarrow> [])"

definition bad_enum :: "js \<Rightarrow> string list \<Rightarrow> bool" where
  "bad_enum m required =
     (\<not> is_obj m \<or> 4096 < length (members_of m) \<or> \<not> list_all nonneg_integer (map snd (members_of m)) \<or>
      length (remdups (map snd (members_of m))) \<noteq> length (members_of m) \<or>
      \<not> list_all (\<lambda>k. nonneg_integer (getp m k)) required)"

definition capture_size_bad :: "js \<Rightarrow> bool" where
  "capture_size_bad capture =
     (getp capture ''limitReached'' \<noteq> Bool False \<or> \<not> nonneg_integer (getp capture ''byteLength'') \<or>
      \<not> nonneg_integer (getp capture ''limitBytes'') \<or> NETLOG_MAX_BYTES < num_of (getp capture ''limitBytes'') \<or>
      num_of (getp capture ''limitBytes'') \<le> num_of (getp capture ''byteLength''))"

definition owned_origin :: "url_parser \<Rightarrow> js \<Rightarrow> bool" where
  "owned_origin parse_url origin =
     (is_str origin \<and> (case parse_url (str_of origin) of
        None \<Rightarrow> False
      | Some u \<Rightarrow> u_protocol u \<in> {''http:'', ''https:''} \<and> u_hostname u \<in> {''127.0.0.1'', ''localhost'', ''[::1]''} \<and>
          u_origin u = str_of origin))"

definition netlog_origins :: "netlog_options \<Rightarrow> js" where
  "netlog_origins opts = (if no_origins opts = Undef then getp (no_manifest opts) ''origins'' else no_origins opts)"

definition netlog_checks :: "url_parser \<Rightarrow> js \<Rightarrow> netlog_options \<Rightarrow> (bool \<times> string) list" where
  "netlog_checks parse_url netlog opts =
     (let c = getp netlog ''constants''; events = getp netlog ''events''; mf = no_manifest opts;
          capture = no_capture opts; origins = netlog_origins opts
      in [(\<not> is_obj netlog \<or> \<not> is_obj c \<or> \<not> is_arr events, ''unsupported-netlog-shape''),
          (MAX_EVENTS < length (arr_of events), ''event-bound-exceeded''),
          (getp c ''logFormatVersion'' \<noteq> Num (Fin 1), ''unsupported-netlog-format''),
          (\<not> is_version (no_browserVersion opts) \<or>
             \<not> strict_eq (getp (getp c ''clientInfo'') ''version'') (no_browserVersion opts),
           ''browser-version-unverified''),
          (list_ex (\<lambda>(name, required). bad_enum (getp c name) required) netlog_enums, ''unsupported-netlog-constants''),
          (\<not> is_obj capture \<or> getp capture ''cleanShutdown'' \<noteq> Bool True \<or>
             getp capture ''startedBeforeFixture'' \<noteq> Bool True, ''capture-window-unverified''),
          (capture_size_bad capture, ''capture-size-or-truncation-unverified''),
          (\<not> is_obj mf \<or> \<not> is_token (getp mf ''runId'') \<or> \<not> is_arr (getp mf ''operations'') \<or>
             arr_of (getp mf ''operations'') = [] \<or> MAX_OPERATIONS < length (arr_of (getp mf ''operations'')),
           ''unsupported-fixture-manifest''),
          (\<not> is_arr origins \<or> arr_of origins = [] \<or> 4 < length (arr_of origins), ''owned-origins-unverified''),
          (\<not> list_all (owned_origin parse_url) (arr_of origins), ''owned-origins-unverified'')])"

section \<open>Operations\<close>

definition op_key :: "string \<Rightarrow> string \<Rightarrow> string" where
  "op_key ident meth = ident @ '' '' @ meth"

definition bad_operation :: "string \<Rightarrow> netlog_rows \<Rightarrow> js \<Rightarrow> bool" where
  "bad_operation runId rows p =
     (let parts = (if is_str (getp p ''operationId'') then split_on (CHR '':'') (str_of (getp p ''operationId'')) else [])
      in \<not> is_obj p \<or> length parts \<noteq> 3 \<or> parts ! 0 \<noteq> runId \<or> Str (parts ! 1) \<noteq> getp p ''caseId'' \<or>
         \<not> token_text (parts ! 2) \<or> \<not> is_token (getp p ''caseId'') \<or> \<not> is_str (getp p ''method'') \<or>
         \<not> method_text (str_of (getp p ''method'')) \<or> \<not> nonneg_integer (getp p ''expectedReceipts'') \<or>
         of_nat MAX_ROWS < num_of (getp p ''expectedReceipts'') \<or> \<not> is_str (getp p ''path'') \<or>
         str_of (getp p ''path'') \<noteq>
           ''/reb-fixture/'' @ runId @ ''/'' @ str_of (getp p ''caseId'') @ ''/'' @ parts ! 2 \<or>
         map_of rows (op_key (str_of (getp p ''operationId'')) (str_of (getp p ''method''))) \<noteq> None)"

definition add_operation :: "string \<Rightarrow> js \<Rightarrow> netlog_rows \<Rightarrow> string + netlog_rows" where
  "add_operation runId p rows =
     (if bad_operation runId rows p then Inl ''unsupported-fixture-operation''
      else Inr (map_put (op_key (str_of (getp p ''operationId'')) (str_of (getp p ''method'')))
                  \<lparr>nr_op = p, nr_sources = [], nr_jobs = 0, nr_receipts = 0, nr_reference = 0\<rparr> rows))"

definition replace_prefix :: "string \<Rightarrow> string \<Rightarrow> string \<Rightarrow> string" where
  "replace_prefix p q s = (if prefix p s then q @ drop (length p) s else s)"

text \<open>What \<open>identity\<close> closes over; it reads only the \<open>op\<close> of a row, which never changes.\<close>

record netlog_env =
  en_url :: url_parser
  en_text :: "jsnum \<Rightarrow> string"
  en_runId :: string
  en_allowed :: "string list"
  en_operations :: netlog_rows

text \<open>\<open>identity(raw, method)\<close>: the key of the operation, \<open>None\<close> for \<open>null\<close>.\<close>

definition netlog_identity :: "netlog_env \<Rightarrow> js \<Rightarrow> js \<Rightarrow> string option" where
  "netlog_identity env raw meth =
     (if \<not> is_str raw \<or> 16384 < length (str_of raw) then None
      else case en_url env (str_of raw) of
          None \<Rightarrow> None
        | Some u \<Rightarrow>
            if replace_prefix ''wss:'' ''https:'' (replace_prefix ''ws:'' ''http:'' (u_origin u)) \<notin> set (en_allowed env) \<or>
               u_username u \<noteq> [] \<or> u_password u \<noteq> [] \<or> length (u_ops u) \<noteq> 1
            then None
            else
              let v = hd (u_ops u); parts = split_on (CHR '':'') v
              in if length parts \<noteq> 3 \<or> parts ! 0 \<noteq> en_runId env then None
                 else case to_text (en_text env) meth of
                     Inl e \<Rightarrow> None
                   | Inr m \<Rightarrow>
                       (case map_of (en_operations env) (op_key v m) of
                          None \<Rightarrow> None
                        | Some row \<Rightarrow>
                            if Str (parts ! 1) = getp (nr_op row) ''caseId'' \<and>
                               Str (u_pathname u) = getp (nr_op row) ''path''
                            then Some (op_key v m) else None))"

definition op_of :: "netlog_env \<Rightarrow> string \<Rightarrow> js" where
  "op_of env k = (case map_of (en_operations env) k of Some row \<Rightarrow> nr_op row | None \<Rightarrow> Undef)"

definition bump :: "string \<Rightarrow> (netlog_row \<Rightarrow> netlog_row) \<Rightarrow> netlog_rows \<Rightarrow> netlog_rows" where
  "bump k f rows = (case map_of rows k of None \<Rightarrow> rows | Some row \<Rightarrow> map_put k (f row) rows)"

section \<open>Counting\<close>

definition count_receipt :: "netlog_env \<Rightarrow> js \<Rightarrow> netlog_rows \<Rightarrow> string + netlog_rows" where
  "count_receipt env receipt rows =
     (if \<not> is_obj receipt then Inl ''unsupported-receipt-row''
      else if getp receipt ''kind'' = Str ''websocket-frame'' then Inr rows
      else case netlog_identity env (getp receipt ''url'') (getp receipt ''method'') of
          None \<Rightarrow>
            if getp receipt ''operationId'' \<in> set (map (\<lambda>row. getp (nr_op (snd row)) ''operationId'') (en_operations env))
            then Inl ''receipt-identity-mismatch'' else Inr rows
        | Some k \<Rightarrow>
            if \<not> strict_eq (getp receipt ''operationId'') (getp (op_of env k) ''operationId'') \<or>
               \<not> strict_eq (getp receipt ''method'') (getp (op_of env k) ''method'')
            then Inl ''receipt-identity-mismatch''
            else Inr (bump k (\<lambda>row. row\<lparr>nr_receipts := nr_receipts row + 1\<rparr>) rows))"

definition count_hop :: "netlog_env \<Rightarrow> js \<Rightarrow> netlog_rows \<Rightarrow> string + netlog_rows" where
  "count_hop env hop rows =
     (if \<not> is_obj hop then Inl ''unsupported-reference-row''
      else case netlog_identity env (getp hop ''url'') (getp hop ''method'') of
          None \<Rightarrow> Inr rows
        | Some k \<Rightarrow>
            if strict_eq (getp hop ''method'') (getp (op_of env k) ''method'')
            then Inr (bump k (\<lambda>row. row\<lparr>nr_reference := nr_reference row + 1\<rparr>) rows) else Inr rows)"

definition enum_values :: "js \<Rightarrow> string \<Rightarrow> js list" where
  "enum_values c name = map snd (members_of (getp c name))"

definition event_checks :: "js \<Rightarrow> js \<Rightarrow> (bool \<times> string) list" where
  "event_checks c event =
     (let source = getp event ''source''
      in [(\<not> is_obj event, ''event-not-object''),
          (\<not> nonneg_integer (getp event ''type''), ''event-type-not-nonnegative-integer''),
          (getp event ''type'' \<notin> set (enum_values c ''logEventTypes''), ''event-type-absent-from-constants''),
          (\<not> nonneg_integer (getp event ''phase''), ''event-phase-not-nonnegative-integer''),
          (getp event ''phase'' \<notin> set (enum_values c ''logEventPhase''), ''event-phase-absent-from-constants''),
          (\<not> is_obj source, ''event-source-not-object''),
          (\<not> nonneg_integer (getp source ''type''), ''event-source-type-not-nonnegative-integer''),
          (getp source ''type'' \<notin> set (enum_values c ''logSourceType''), ''event-source-type-absent-from-constants''),
          (\<not> source_id (getp source ''id''), ''event-source-id-not-signed-int32'')])"

definition is_job_start :: "js \<Rightarrow> js \<Rightarrow> bool" where
  "is_job_start c event =
     (strict_eq (getp event ''type'') (getp (getp c ''logEventTypes'') ''URL_REQUEST_START_JOB'') \<and>
      strict_eq (getp event ''phase'') (getp (getp c ''logEventPhase'') ''PHASE_BEGIN''))"

definition bad_job_shape :: "js \<Rightarrow> js \<Rightarrow> bool" where
  "bad_job_shape c event =
     (\<not> strict_eq (getp (getp event ''source'') ''type'') (getp (getp c ''logSourceType'') ''URL_REQUEST'') \<or>
      getp (getp event ''source'') ''id'' = Num (Fin 0) \<or> \<not> is_obj (getp event ''params'') \<or>
      \<not> is_str (getp (getp event ''params'') ''url'') \<or> \<not> is_str (getp (getp event ''params'') ''method''))"

datatype event_outcome = EventFails string | EventIgnored | EventJob string rat

definition classify_event :: "netlog_env \<Rightarrow> js \<Rightarrow> js \<Rightarrow> event_outcome" where
  "classify_event env c event =
     (case first_failure (event_checks c event) of
        Inl code \<Rightarrow> EventFails code
      | Inr _ \<Rightarrow>
          if \<not> is_job_start c event then EventIgnored
          else if bad_job_shape c event then EventFails ''unsupported-job-start-shape''
          else case netlog_identity env (getp (getp event ''params'') ''url'') (getp (getp event ''params'') ''method'') of
              None \<Rightarrow> EventIgnored
            | Some k \<Rightarrow>
                if \<not> strict_eq (getp (getp event ''params'') ''method'') (getp (op_of env k) ''method'')
                then EventFails ''job-method-mismatch''
                else EventJob k (num_of (getp (getp event ''source'') ''id'')))"

text \<open>The event loop; the count of ignored events is kept when the loop fails.\<close>

fun scan_events :: "netlog_env \<Rightarrow> js \<Rightarrow> js list \<Rightarrow> nat \<Rightarrow> netlog_rows \<Rightarrow> nat \<times> (string + netlog_rows)" where
  "scan_events env c [] ignored rows = (ignored, Inr rows)"
| "scan_events env c (event # events) ignored rows =
     (case classify_event env c event of
        EventFails code \<Rightarrow> (ignored, Inl code)
      | EventIgnored \<Rightarrow> scan_events env c events (ignored + 1) rows
      | EventJob k source \<Rightarrow>
          scan_events env c events ignored
            (bump k (\<lambda>row. row\<lparr>nr_jobs := nr_jobs row + 1, nr_sources := set_add source (nr_sources row)\<rparr>) rows))"

section \<open>The verdict\<close>

definition row_issues :: "netlog_row \<Rightarrow> string list" where
  "row_issues row =
     (if \<not> strict_eq (int_js (nr_receipts row)) (getp (nr_op row) ''expectedReceipts'')
      then [''fixture-receipt-count-mismatch''] else []) @
     (if 0 < nr_receipts row \<and> nr_jobs row = 0 then [''wire-operation-missing-netlog''] else []) @
     (if getp (nr_op row) ''kind'' \<noteq> Str ''websocket-handshake'' \<and> 0 < nr_receipts row \<and> nr_reference row = 0
      then [''wire-operation-missing-reference''] else [])"

definition summarize :: "netlog_row \<Rightarrow> netlog_operation" where
  "summarize row =
     \<lparr>nl_operationId = getp (nr_op row) ''operationId'', nl_caseId = getp (nr_op row) ''caseId'',
      nl_method = getp (nr_op row) ''method'', nl_wireReceipts = nr_receipts row,
      nl_referenceHops = nr_reference row, nl_urlRequestSources = length (nr_sources row),
      nl_jobStarts = nr_jobs row, nl_issues = row_issues row\<rparr>"

text \<open>The run up to the verdict: the count of ignored events, and the counted rows or the failure.\<close>

definition netlog_run ::
    "url_parser \<Rightarrow> (jsnum \<Rightarrow> string) \<Rightarrow> js \<Rightarrow> netlog_options \<Rightarrow> nat \<times> (string + netlog_rows)" where
  "netlog_run parse_url nt netlog opts =
     (let mf = no_manifest opts; runId = str_of (getp mf ''runId'')
      in case bindE (first_failure (netlog_checks parse_url netlog opts))
                (\<lambda>_. foldE (add_operation runId) (arr_of (getp mf ''operations'')) []) of
           Inl code \<Rightarrow> (0, Inl code)
         | Inr rows \<Rightarrow>
             let env = \<lparr>en_url = parse_url, en_text = nt, en_runId = runId,
                        en_allowed = map str_of (arr_of (netlog_origins opts)), en_operations = rows\<rparr>;
                 receipts = no_receipts opts; hops = no_referenceHops opts
             in case
                  bindE (first_failure [(\<not> is_arr receipts \<or> \<not> is_arr hops \<or> MAX_ROWS < length (arr_of receipts) \<or>
                            MAX_ROWS < length (arr_of hops), ''unsupported-comparison-rows'')])
                    (\<lambda>_. bindE (foldE (count_receipt env) (arr_of receipts) rows)
                       (foldE (count_hop env) (arr_of hops))) of
                  Inl code \<Rightarrow> (0, Inl code)
                | Inr rows1 \<Rightarrow> scan_events env (getp netlog ''constants'') (arr_of (getp netlog ''events'')) 0 rows1)"

definition crosscheckNetlog ::
    "url_parser \<Rightarrow> (jsnum \<Rightarrow> string) \<Rightarrow> js \<Rightarrow> netlog_options \<Rightarrow> netlog_result" where
  "crosscheckNetlog parse_url nt netlog opts =
     (let version = (if is_version (no_browserVersion opts) then no_browserVersion opts else Null)
      in case netlog_run parse_url nt netlog opts of
           (ignored, Inl code) \<Rightarrow>
             \<lparr>ne_state = ''incomplete'', ne_browserVersion = version, ne_failures = [code], ne_operations = [],
              ne_ignoredEvents = ignored\<rparr>
         | (ignored, Inr rows) \<Rightarrow>
             let operations = map (\<lambda>(k, row). summarize row) rows
             in \<lparr>ne_state = (if list_ex (\<lambda>r. nl_issues r \<noteq> []) operations then ''mismatch'' else ''corroborated''),
                 ne_browserVersion = version, ne_failures = [], ne_operations = operations,
                 ne_ignoredEvents = ignored\<rparr>)"

section \<open>What the counters mean\<close>

text \<open>The table of operations the code builds, when it builds one.\<close>

definition js_op_key :: "js \<Rightarrow> string" where
  "js_op_key p = op_key (str_of (getp p ''operationId'')) (str_of (getp p ''method''))"

definition fresh_row :: "js \<Rightarrow> netlog_row" where
  "fresh_row p = \<lparr>nr_op = p, nr_sources = [], nr_jobs = 0, nr_receipts = 0, nr_reference = 0\<rparr>"

definition operation_rows :: "js list \<Rightarrow> netlog_rows" where
  "operation_rows ps = map (\<lambda>p. (js_op_key p, fresh_row p)) ps"

definition netlog_env_of :: "url_parser \<Rightarrow> (jsnum \<Rightarrow> string) \<Rightarrow> netlog_options \<Rightarrow> netlog_env" where
  "netlog_env_of pu nt opts =
     \<lparr>en_url = pu, en_text = nt, en_runId = str_of (getp (no_manifest opts) ''runId''),
      en_allowed = map str_of (arr_of (netlog_origins opts)),
      en_operations = operation_rows (arr_of (getp (no_manifest opts) ''operations''))\<rparr>"

definition receipt_key :: "netlog_env \<Rightarrow> js \<Rightarrow> string option" where
  "receipt_key env r = (if getp r ''kind'' = Str ''websocket-frame'' then None
     else netlog_identity env (getp r ''url'') (getp r ''method''))"

definition hop_key_of :: "netlog_env \<Rightarrow> js \<Rightarrow> string option" where
  "hop_key_of env h = (case netlog_identity env (getp h ''url'') (getp h ''method'') of
     Some k \<Rightarrow> if strict_eq (getp h ''method'') (getp (op_of env k) ''method'') then Some k else None
   | None \<Rightarrow> None)"

definition job_key :: "netlog_env \<Rightarrow> js \<Rightarrow> js \<Rightarrow> string option" where
  "job_key env c e = (case classify_event env c e of EventJob k s \<Rightarrow> Some k | _ \<Rightarrow> None)"

definition event_source :: "js \<Rightarrow> rat" where
  "event_source e = num_of (getp (getp e ''source'') ''id'')"

definition count_key :: "('a \<Rightarrow> string option) \<Rightarrow> string \<Rightarrow> 'a list \<Rightarrow> nat" where
  "count_key key k xs = length (filter (\<lambda>x. key x = Some k) xs)"

lemma bump_keys [simp]: "map fst (bump k f rows) = map fst rows"
  by (simp add: bump_def map_put_keys split: option.split)

lemma bump_lookup: "map_of (bump k f rows) k' = (if k' = k then map_option f (map_of rows k) else map_of rows k')"
  by (simp add: bump_def split: option.split)

definition note_key :: "('a \<Rightarrow> string option) \<Rightarrow> ('a \<Rightarrow> netlog_row \<Rightarrow> netlog_row) \<Rightarrow> 'a \<Rightarrow> netlog_rows \<Rightarrow> netlog_rows" where
  "note_key key g x rows = (case key x of None \<Rightarrow> rows | Some k \<Rightarrow> bump k (g x) rows)"

lemma note_key_simps [simp]:
  "map fst (note_key key g x rows) = map fst rows"
  "map_of (note_key key g x rows) k = (if key x = Some k then map_option (g x) (map_of rows k) else map_of rows k)"
  by (auto simp: note_key_def bump_lookup split: option.split)

lemma note_keys:
  "map fst (fold (note_key key g) xs rows) = map fst rows"
  by (induction xs arbitrary: rows) simp_all

lemma note_lookup:
  "map_of (fold (note_key key g) xs rows) k = map_option (fold g (filter (\<lambda>x. key x = Some k) xs)) (map_of rows k)"
  by (induction xs arbitrary: rows) (auto simp: option.map_comp o_def option.map_ident option.map_id)

lemma foldE_note:
  assumes "foldE f xs rows = Inr rows'" and "\<And>x s t. f x s = Inr t \<Longrightarrow> t = note_key key g x s"
  shows "rows' = fold (note_key key g) xs rows"
  using assms(1) by (induction xs arbitrary: rows) (auto simp: result_simps dest!: assms(2))

lemma count_receipt_note:
  "count_receipt env r rows = Inr rows' \<Longrightarrow>
   rows' = note_key (receipt_key env) (\<lambda>_ row. row\<lparr>nr_receipts := nr_receipts row + 1\<rparr>) r rows"
  by (auto simp: count_receipt_def note_key_def receipt_key_def split: if_splits option.splits)

lemma count_hop_note:
  "count_hop env h rows = Inr rows' \<Longrightarrow>
   rows' = note_key (hop_key_of env) (\<lambda>_ row. row\<lparr>nr_reference := nr_reference row + 1\<rparr>) h rows"
  by (auto simp: count_hop_def note_key_def hop_key_of_def split: if_splits option.splits)

definition note_job :: "js \<Rightarrow> netlog_row \<Rightarrow> netlog_row" where
  "note_job e row = row\<lparr>nr_jobs := nr_jobs row + 1, nr_sources := set_add (event_source e) (nr_sources row)\<rparr>"

lemma note_job_simps:
  "nr_jobs (note_job e row) = Suc (nr_jobs row)"
  "nr_sources (note_job e row) = set_add (event_source e) (nr_sources row)"
  "(note_job e row)\<lparr>nr_jobs := n, nr_sources := ss\<rparr> = row\<lparr>nr_jobs := n, nr_sources := ss\<rparr>"
  by (simp_all add: note_job_def)

lemma note_job_abs:
  "(\<lambda>row. row\<lparr>nr_jobs := nr_jobs row + 1, nr_sources := set_add (event_source e) (nr_sources row)\<rparr>) = note_job e"
  by (rule ext) (simp add: note_job_def)

lemma classify_source: "classify_event env c e = EventJob k s \<Longrightarrow> s = event_source e"
  by (auto simp: classify_event_def event_source_def split: sum.splits if_splits option.splits)

lemma scan_events_note:
  "scan_events env c es n rows = (m, Inr rows') \<Longrightarrow> rows' = fold (note_key (job_key env c) note_job) es rows"
proof (induction es arbitrary: n rows)
  case (Cons e es)
  show ?case
  proof (cases "classify_event env c e")
    case (EventJob k x)
    then have "x = event_source e" by (rule classify_source)
    then show ?thesis using Cons EventJob by (simp only: scan_events.simps event_outcome.case note_job_abs)
        (simp add: note_key_def job_key_def)
  qed (use Cons in \<open>auto simp: note_key_def job_key_def\<close>)
qed simp

lemma fold_receipts: "fold (\<lambda>_ row. row\<lparr>nr_receipts := Suc (nr_receipts row)\<rparr>) xs row =
    row\<lparr>nr_receipts := nr_receipts row + length xs\<rparr>"
  by (induction xs arbitrary: row) simp_all

lemma fold_reference: "fold (\<lambda>_ row. row\<lparr>nr_reference := Suc (nr_reference row)\<rparr>) xs row =
    row\<lparr>nr_reference := nr_reference row + length xs\<rparr>"
  by (induction xs arbitrary: row) simp_all

lemma fold_jobs: "\<exists>ss. fold note_job es row = row\<lparr>nr_jobs := nr_jobs row + length es, nr_sources := ss\<rparr> \<and>
    set ss = set (nr_sources row) \<union> event_source ` set es \<and> (distinct (nr_sources row) \<longrightarrow> distinct ss)"
proof (induction es arbitrary: row)
  case Nil
  show ?case by (intro exI [of _ "nr_sources row"]) simp
next
  case (Cons e es)
  from Cons [of "note_job e row"] obtain ss where
    "fold note_job es (note_job e row) =
       (note_job e row)\<lparr>nr_jobs := nr_jobs (note_job e row) + length es, nr_sources := ss\<rparr>"
    "set ss = set (nr_sources (note_job e row)) \<union> event_source ` set es"
    "distinct (nr_sources (note_job e row)) \<longrightarrow> distinct ss" by blast
  then show ?case by (intro exI [of _ ss]) (auto simp: note_job_simps)
qed

lemma operations_table:
  assumes "foldE (add_operation runId) ps rows = Inr rows'" "distinct (map fst rows)"
  shows "rows' = rows @ operation_rows ps \<and> distinct (map fst rows')"
  using assms
proof (induction ps arbitrary: rows)
  case (Cons p ps)
  then obtain u where u: "add_operation runId p rows = Inr u" "foldE (add_operation runId) ps u = Inr rows'"
    by (auto simp: result_simps)
  then have u_eq: "u = rows @ [(js_op_key p, fresh_row p)]" and "map_of rows (js_op_key p) = None"
    by (auto simp: add_operation_def bad_operation_def js_op_key_def fresh_row_def Let_def map_put_new split: if_splits)
  moreover from this have "js_op_key p \<notin> fst ` set rows" by (simp add: map_of_eq_None_iff)
  ultimately have "distinct (map fst u)" using Cons.prems(2) by simp
  from Cons.IH [OF u(2) this] have "rows' = u @ operation_rows ps" "distinct (map fst rows')" by blast+
  then show ?case unfolding u_eq by (simp only: operation_rows_def) simp
qed (simp add: operation_rows_def)

section \<open>Refinement of an abstract count\<close>

text \<open>The abstract result: for every authored operation, how many rows of each source are about it.\<close>

definition operation_spec :: "netlog_env \<Rightarrow> js \<Rightarrow> netlog_options \<Rightarrow> js \<Rightarrow> netlog_operation" where
  "operation_spec env netlog opts p =
     (let k = js_op_key p; c = getp netlog ''constants''; events = arr_of (getp netlog ''events'');
          wire = count_key (receipt_key env) k (arr_of (no_receipts opts));
          reference = count_key (hop_key_of env) k (arr_of (no_referenceHops opts));
          jobs = count_key (job_key env c) k events
      in \<lparr>nl_operationId = getp p ''operationId'', nl_caseId = getp p ''caseId'', nl_method = getp p ''method'',
          nl_wireReceipts = wire, nl_referenceHops = reference,
          nl_urlRequestSources = card (event_source ` {e \<in> set events. job_key env c e = Some k}),
          nl_jobStarts = jobs,
          nl_issues =
            (if Num (Fin (of_nat wire)) \<noteq> getp p ''expectedReceipts'' then [''fixture-receipt-count-mismatch''] else []) @
            (if 0 < wire \<and> jobs = 0 then [''wire-operation-missing-netlog''] else []) @
            (if getp p ''kind'' \<noteq> Str ''websocket-handshake'' \<and> 0 < wire \<and> reference = 0
             then [''wire-operation-missing-reference''] else [])\<rparr>)"

definition job_env :: "netlog_env \<Rightarrow> js \<Rightarrow> netlog_options \<Rightarrow> netlog_rows" where
  "job_env env netlog opts =
     fold (note_key (job_key env (getp netlog ''constants'')) note_job) (arr_of (getp netlog ''events''))
       (fold (note_key (hop_key_of env) (\<lambda>_ row. row\<lparr>nr_reference := nr_reference row + 1\<rparr>))
          (arr_of (no_referenceHops opts))
          (fold (note_key (receipt_key env) (\<lambda>_ row. row\<lparr>nr_receipts := nr_receipts row + 1\<rparr>))
             (arr_of (no_receipts opts)) (en_operations env)))"

lemma netlog_run_rows:
  assumes "netlog_run pu nt netlog opts = (n, Inr rows)"
  shows "rows = job_env (netlog_env_of pu nt opts) netlog opts \<and>
    distinct (map fst (operation_rows (arr_of (getp (no_manifest opts) ''operations''))))"
proof -
  let ?ps = "arr_of (getp (no_manifest opts) ''operations'')" and ?env = "netlog_env_of pu nt opts"
  from assms obtain table rows0 rows1 where
    table: "foldE (add_operation (str_of (getp (no_manifest opts) ''runId''))) ?ps [] = Inr table"
    and run: "foldE (count_receipt (?env\<lparr>en_operations := table\<rparr>)) (arr_of (no_receipts opts)) table = Inr rows0"
      "foldE (count_hop (?env\<lparr>en_operations := table\<rparr>)) (arr_of (no_referenceHops opts)) rows0 = Inr rows1"
      "scan_events (?env\<lparr>en_operations := table\<rparr>) (getp netlog ''constants'') (arr_of (getp netlog ''events'')) 0 rows1 = (n, Inr rows)"
    by (auto simp: netlog_run_def Let_def netlog_env_of_def result_simps split: sum.splits elim: sum.exhaust)
  have "table = [] @ operation_rows ?ps \<and> distinct (map fst table)" by (rule operations_table [OF table]) simp
  then have t: "table = operation_rows ?ps" "distinct (map fst table)" unfolding append_Nil by blast+
  then have env: "?env\<lparr>en_operations := table\<rparr> = ?env" by (simp add: netlog_env_of_def)
  note r0 = foldE_note [OF run(1) [unfolded env] count_receipt_note]
  note r1 = foldE_note [OF run(2) [unfolded env] count_hop_note]
  note r2 = scan_events_note [OF run(3) [unfolded env]]
  have "en_operations ?env = table" by (simp add: netlog_env_of_def t(1))
  then show ?thesis using r0 r1 r2 t by (simp add: job_env_def)
qed

lemma map_of_distinct: "distinct (map fst m) \<Longrightarrow> (k, v) \<in> set m \<Longrightarrow> map_of m k = Some v"
  by simp

lemma counted_row:
  assumes keys: "distinct (map fst (operation_rows ps))" and ps: "ps = arr_of (getp (no_manifest opts) ''operations'')"
    and env: "env = netlog_env_of pu nt opts"
  shows "map (\<lambda>(k, row). summarize row) (job_env env netlog opts) = map (operation_spec env netlog opts) ps"
proof (rule nth_equalityI)
  have keys_eq: "map fst (job_env env netlog opts) = map js_op_key ps"
    by (simp add: job_env_def note_keys env ps netlog_env_of_def operation_rows_def o_def)
  then have len: "length (job_env env netlog opts) = length ps" by (metis length_map)
  then show "length (map (\<lambda>(k, row). summarize row) (job_env env netlog opts)) =
    length (map (operation_spec env netlog opts) ps)" by simp
  fix i
  assume "i < length (map (\<lambda>(k, row). summarize row) (job_env env netlog opts))"
  then have i: "i < length ps" using len by simp
  obtain row where row: "job_env env netlog opts ! i = (js_op_key (ps ! i), row)"
    using keys_eq i len by (metis length_map nth_map surjective_pairing)
  have dist: "distinct (map fst (job_env env netlog opts))"
    using keys unfolding keys_eq by (simp add: operation_rows_def o_def)
  have "map_of (job_env env netlog opts) (js_op_key (ps ! i)) = Some row"
    using dist row i len by (metis map_of_distinct nth_mem)
  moreover have "map_of (en_operations env) (js_op_key (ps ! i)) = Some (fresh_row (ps ! i))"
    using keys i by (auto simp: env netlog_env_of_def ps [symmetric] operation_rows_def intro!: map_of_distinct)
  ultimately have r: "row =
     fold note_job (filter (\<lambda>e. job_key env (getp netlog ''constants'') e = Some (js_op_key (ps ! i))) (arr_of (getp netlog ''events'')))
       ((fresh_row (ps ! i))\<lparr>nr_receipts := count_key (receipt_key env) (js_op_key (ps ! i)) (arr_of (no_receipts opts)),
          nr_reference := count_key (hop_key_of env) (js_op_key (ps ! i)) (arr_of (no_referenceHops opts))\<rparr>)"
    by (simp add: job_env_def note_lookup fold_receipts fold_reference count_key_def fresh_row_def)
  from fold_jobs [of "filter (\<lambda>e. job_key env (getp netlog ''constants'') e = Some (js_op_key (ps ! i)))
      (arr_of (getp netlog ''events''))" "(fresh_row (ps ! i))\<lparr>
        nr_receipts := count_key (receipt_key env) (js_op_key (ps ! i)) (arr_of (no_receipts opts)),
        nr_reference := count_key (hop_key_of env) (js_op_key (ps ! i)) (arr_of (no_referenceHops opts))\<rparr>"]
  obtain ss where ss: "row = (fresh_row (ps ! i))\<lparr>nr_receipts := count_key (receipt_key env) (js_op_key (ps ! i)) (arr_of (no_receipts opts)),
      nr_reference := count_key (hop_key_of env) (js_op_key (ps ! i)) (arr_of (no_referenceHops opts)),
      nr_jobs := count_key (job_key env (getp netlog ''constants'')) (js_op_key (ps ! i)) (arr_of (getp netlog ''events'')),
      nr_sources := ss\<rparr>"
    "set ss = event_source ` {e \<in> set (arr_of (getp netlog ''events'')).
        job_key env (getp netlog ''constants'') e = Some (js_op_key (ps ! i))}" "distinct ss"
    unfolding r [symmetric] by (auto simp: count_key_def fresh_row_def)
  have "length ss = card (event_source ` {e \<in> set (arr_of (getp netlog ''events'')).
        job_key env (getp netlog ''constants'') e = Some (js_op_key (ps ! i))})"
    using distinct_card [OF ss(3)] ss(2) by simp
  then show "map (\<lambda>(k, row). summarize row) (job_env env netlog opts) ! i = map (operation_spec env netlog opts) ps ! i"
    using i len row
    by (simp add: summarize_def row_issues_def operation_spec_def Let_def ss(1) fresh_row_def int_js_def)
qed

lemma netlog_result_eq:
  assumes "ne_failures (crosscheckNetlog pu nt netlog opts) = []"
  shows "ne_operations (crosscheckNetlog pu nt netlog opts) =
      map (operation_spec (netlog_env_of pu nt opts) netlog opts) (arr_of (getp (no_manifest opts) ''operations''))"
    and "ne_state (crosscheckNetlog pu nt netlog opts) =
      (if \<exists>r \<in> set (ne_operations (crosscheckNetlog pu nt netlog opts)). nl_issues r \<noteq> []
       then ''mismatch'' else ''corroborated'')"
proof -
  obtain n rows where run: "netlog_run pu nt netlog opts = (n, Inr rows)"
    using assms by (auto simp: crosscheckNetlog_def Let_def split: prod.splits sum.splits)
  from netlog_run_rows [OF run] have rows: "rows = job_env (netlog_env_of pu nt opts) netlog opts"
    and dist: "distinct (map fst (operation_rows (arr_of (getp (no_manifest opts) ''operations''))))" by blast+
  have ops: "ne_operations (crosscheckNetlog pu nt netlog opts) = map (\<lambda>(k, row). summarize row) rows"
    by (simp add: crosscheckNetlog_def run Let_def)
  then show "ne_operations (crosscheckNetlog pu nt netlog opts) =
      map (operation_spec (netlog_env_of pu nt opts) netlog opts) (arr_of (getp (no_manifest opts) ''operations''))"
    using counted_row [OF dist refl refl, where netlog = netlog and pu = pu and nt = nt] rows by simp
  show "ne_state (crosscheckNetlog pu nt netlog opts) =
      (if \<exists>r \<in> set (ne_operations (crosscheckNetlog pu nt netlog opts)). nl_issues r \<noteq> []
       then ''mismatch'' else ''corroborated'')"
    unfolding ops by (simp add: crosscheckNetlog_def run Let_def list_ex_iff del: set_map)
qed

text \<open>
  C9. The cross-check refines an abstract count: whenever it reports no failure, its
  operations are, in manifest order, exactly the authored operations, each with the number of
  server receipts, reference hops and job starts whose URL and method identify it and the
  number of distinct request sources among those job starts, however the three inputs are
  ordered; and it says \<open>corroborated\<close> exactly when no operation has an issue.
\<close>

theorem netlog_refines_counts:
  assumes "ne_failures (crosscheckNetlog pu nt netlog opts) = []"
  shows "ne_operations (crosscheckNetlog pu nt netlog opts) =
      map (operation_spec (netlog_env_of pu nt opts) netlog opts) (arr_of (getp (no_manifest opts) ''operations'')) \<and>
    ne_state (crosscheckNetlog pu nt netlog opts) =
      (if \<exists>r \<in> set (ne_operations (crosscheckNetlog pu nt netlog opts)). nl_issues r \<noteq> []
       then ''mismatch'' else ''corroborated'')"
  using netlog_result_eq [OF assms] by blast

definition netlog_demo :: js where
  "netlog_demo = Obj [(''constants'', Obj [(''logFormatVersion'', Num (Fin 1)),
       (''clientInfo'', Obj [(''version'', Str ''1.2.3.4'')]),
       (''logEventTypes'', Obj [(''URL_REQUEST_START_JOB'', Num (Fin 7))]),
       (''logSourceType'', Obj [(''URL_REQUEST'', Num (Fin 1))]),
       (''logEventPhase'', Obj [(''PHASE_BEGIN'', Num (Fin 1)), (''PHASE_END'', Num (Fin 2)), (''PHASE_NONE'', Num (Fin 0))])]),
     (''events'', Arr [Obj [(''type'', Num (Fin 7)), (''phase'', Num (Fin 1)),
       (''source'', Obj [(''type'', Num (Fin 1)), (''id'', Num (Fin 5))]),
       (''params'', Obj [(''url'', Str ''http://localhost/''), (''method'', Str ''GET'')])]])]"

definition netlog_demo_options :: netlog_options where
  "netlog_demo_options =
     \<lparr>no_manifest = Obj [(''runId'', Str ''m''), (''origins'', Arr [Str ''http://localhost'']),
        (''operations'', Arr [Obj [(''operationId'', Str ''m:c:x''), (''caseId'', Str ''c''), (''method'', Str ''GET''),
           (''path'', Str ''/reb-fixture/m/c/x''), (''expectedReceipts'', Num (Fin 1)), (''kind'', Str ''http'')]])],
      no_receipts = Arr [Obj [(''kind'', Str ''http''), (''url'', Str ''http://localhost/''), (''method'', Str ''GET''),
           (''operationId'', Str ''m:c:x'')]],
      no_referenceHops = Arr [Obj [(''url'', Str ''http://localhost/''), (''method'', Str ''GET'')]],
      no_browserVersion = Str ''1.2.3.4'',
      no_capture = Obj [(''cleanShutdown'', Bool True), (''startedBeforeFixture'', Bool True),
        (''limitReached'', Bool False), (''byteLength'', Num (Fin 5)), (''limitBytes'', Num (Fin 9))],
      no_origins = Undef\<rparr>"

definition netlog_demo_parser :: url_parser where
  "netlog_demo_parser t = Some \<lparr>u_protocol = ''http:'', u_origin = ''http://localhost'', u_hostname = ''localhost'',
     u_pathname = ''/reb-fixture/m/c/x'', u_username = [], u_password = [], u_ops = [''m:c:x'']\<rparr>"

lemmas text_eval = version_text_def token_text_def method_text_def all_in_def is_digit_def is_lower_def
  is_upper_def is_dash_def code_in_def

lemma netlog_demo_checks: "first_failure (netlog_checks netlog_demo_parser netlog_demo netlog_demo_options) = Inr ()"
  by (simp add: netlog_checks_def netlog_demo_def netlog_demo_options_def Let_def MAX_EVENTS_def MAX_OPERATIONS_def
      NETLOG_MAX_BYTES_def is_version_def is_token_def text_eval netlog_enums_def bad_enum_def members_of_def
      nonneg_integer_def max_safe_def capture_size_bad_def netlog_origins_def owned_origin_def netlog_demo_parser_def)

lemma netlog_demo_table:
  "foldE (add_operation ''m'') (arr_of (getp (no_manifest netlog_demo_options) ''operations'')) [] =
   Inr (operation_rows (arr_of (getp (no_manifest netlog_demo_options) ''operations'')))"
  by (simp add: netlog_demo_options_def add_operation_def bad_operation_def Let_def is_token_def text_eval
      nonneg_integer_def max_safe_def MAX_ROWS_def op_key_def operation_rows_def js_op_key_def fresh_row_def map_put_def)

lemma netlog_demo_ok: "ne_failures (crosscheckNetlog netlog_demo_parser (\<lambda>_. []) netlog_demo netlog_demo_options) = []"
proof -
  have run: "getp (no_manifest netlog_demo_options) ''runId'' = Str ''m''" by (simp add: netlog_demo_options_def)
  show ?thesis
    by (simp add: crosscheckNetlog_def netlog_run_def netlog_demo_checks run netlog_demo_table Let_def)
      (simp add: netlog_demo_options_def netlog_demo_def MAX_ROWS_def count_receipt_def count_hop_def netlog_identity_def
        netlog_demo_parser_def operation_rows_def js_op_key_def op_key_def fresh_row_def netlog_origins_def
        replace_prefix_def op_of_def classify_event_def event_checks_def Let_def nonneg_integer_def max_safe_def
        enum_values_def members_of_def source_id_def is_job_start_def bad_job_shape_def)
qed

theorem netlog_refines_counts_witness:
  "length (ne_operations (crosscheckNetlog netlog_demo_parser (\<lambda>_. []) netlog_demo netlog_demo_options)) = 1"
  using netlog_refines_counts [OF netlog_demo_ok] by (simp add: netlog_demo_options_def)

end
