(* ===== verification/CaptureStartup.thy ===== *)
theory CaptureStartup
  imports JsValue
begin

text \<open>
  \<open>tools/capture-completeness-startup.mjs\<close>: the bounded timeline of a run, and
  \<open>startCaptureObservers\<close>, which starts the reference observer and, when there is one, the
  backend concurrently and settles both before it returns. Its interleavings are a step
  relation; the clock and the outcome of each initializer come from outside.
\<close>

section \<open>The timeline\<close>

definition startupTimelineKeys :: "string list" where
  "startupTimelineKeys =
     [''browserLaunchMs'', ''referenceStartMs'', ''devtoolsDiscoveredMs'', ''referenceReadyMs'', ''rebStartMs'',
      ''rebReadyMs'', ''fixtureNavigationMs'']"

definition startupTimelineLimitMs :: rat where "startupTimelineLimitMs = 120000"

record timeline =
  tl_origin :: rat
  tl_values :: "(string \<times> int option) list"

definition createStartupTimeline :: "rat \<Rightarrow> timeline" where
  "createStartupTimeline now = \<lparr>tl_origin = now, tl_values = map (\<lambda>k. (k, None)) startupTimelineKeys\<rparr>"

definition mark :: "string \<Rightarrow> rat \<Rightarrow> timeline \<Rightarrow> js_error + timeline" where
  "mark k now tm =
     (let elapsed = \<lfloor>now - tl_origin tm\<rfloor>
      in if k \<notin> set startupTimelineKeys \<or> max_safe < \<bar>of_int elapsed\<bar> \<or> elapsed < 0 \<or>
            startupTimelineLimitMs < of_int elapsed
         then Inl (JsError ''startup-timeline-invalid'')
         else Inr (tm\<lparr>tl_values := map_put k (Some elapsed) (tl_values tm)\<rparr>))"

definition marked :: "timeline \<Rightarrow> string \<Rightarrow> int option" where
  "marked tm k = (case map_of (tl_values tm) k of Some v \<Rightarrow> v | None \<Rightarrow> None)"

section \<open>Concurrent start\<close>

datatype phase = Queued | Starting | Settled "js_error option"

record startup =
  su_phases :: "phase list"
  su_timeline :: timeline
  su_clock :: rat

definition observer_names :: "bool \<Rightarrow> string list" where
  "observer_names reb = ''reference'' # (if reb then [''reb''] else [])"

definition start_key :: "string \<Rightarrow> string" where "start_key n = n @ ''StartMs''"
definition ready_key :: "string \<Rightarrow> string" where "ready_key n = n @ ''ReadyMs''"

definition startup_init :: "string list \<Rightarrow> rat \<Rightarrow> rat \<Rightarrow> startup" where
  "startup_init names origin now =
     \<lparr>su_phases = map (\<lambda>_. Queued) names, su_timeline = createStartupTimeline origin, su_clock = now\<rparr>"

definition settle :: "nat \<Rightarrow> phase \<Rightarrow> rat \<Rightarrow> timeline \<Rightarrow> startup \<Rightarrow> startup" where
  "settle i ph now tm s = s\<lparr>su_phases := (su_phases s)[i := ph], su_timeline := tm, su_clock := now\<rparr>"

text \<open>
  One step of one observer. The queued callbacks begin in the order they were queued; what
  an initializer marks besides is the last rule.
\<close>

inductive startup_step :: "string list \<Rightarrow> startup \<Rightarrow> startup \<Rightarrow> bool" for names where
  begins: "i < length (su_phases s) \<Longrightarrow> su_phases s ! i = Queued \<Longrightarrow> \<forall>j < i. su_phases s ! j \<noteq> Queued \<Longrightarrow>
    su_clock s \<le> now \<Longrightarrow> mark (start_key (names ! i)) now (su_timeline s) = Inr tm \<Longrightarrow>
    startup_step names s (settle i Starting now tm s)"
| begin_fails: "i < length (su_phases s) \<Longrightarrow> su_phases s ! i = Queued \<Longrightarrow> \<forall>j < i. su_phases s ! j \<noteq> Queued \<Longrightarrow>
    su_clock s \<le> now \<Longrightarrow> mark (start_key (names ! i)) now (su_timeline s) = Inl e \<Longrightarrow>
    startup_step names s (settle i (Settled (Some e)) now (su_timeline s) s)"
| initializer_fails: "i < length (su_phases s) \<Longrightarrow> su_phases s ! i = Starting \<Longrightarrow> su_clock s \<le> now \<Longrightarrow>
    startup_step names s (settle i (Settled (Some e)) now (su_timeline s) s)"
| ready: "i < length (su_phases s) \<Longrightarrow> su_phases s ! i = Starting \<Longrightarrow> su_clock s \<le> now \<Longrightarrow>
    mark (ready_key (names ! i)) now (su_timeline s) = Inr tm \<Longrightarrow>
    startup_step names s (settle i (Settled None) now tm s)"
| ready_fails: "i < length (su_phases s) \<Longrightarrow> su_phases s ! i = Starting \<Longrightarrow> su_clock s \<le> now \<Longrightarrow>
    mark (ready_key (names ! i)) now (su_timeline s) = Inl e \<Longrightarrow>
    startup_step names s (settle i (Settled (Some e)) now (su_timeline s) s)"
| other_mark: "\<forall>n \<in> set names. k \<noteq> start_key n \<and> k \<noteq> ready_key n \<Longrightarrow> su_clock s \<le> now \<Longrightarrow>
    mark k now (su_timeline s) = Inr tm \<Longrightarrow> startup_step names s (s\<lparr>su_timeline := tm, su_clock := now\<rparr>)"

fun first_error :: "phase list \<Rightarrow> js_error option" where
  "first_error [] = None"
| "first_error (Settled (Some e) # ps) = Some e"
| "first_error (_ # ps) = first_error ps"

definition is_settled :: "phase \<Rightarrow> bool" where
  "is_settled ph = (case ph of Settled _ \<Rightarrow> True | _ \<Rightarrow> False)"

text \<open>\<open>Promise.allSettled\<close>: the function returns or throws only when every observer has settled.\<close>

definition startup_outcome :: "startup \<Rightarrow> (js_error + unit) option" where
  "startup_outcome s =
     (if list_all is_settled (su_phases s)
      then Some (case first_error (su_phases s) of Some e \<Rightarrow> Inl e | None \<Rightarrow> Inr ()) else None)"

section \<open>What a return means\<close>

lemma keys_distinct [simp]:
  "start_key n = start_key m \<longleftrightarrow> n = m" "ready_key n = ready_key m \<longleftrightarrow> n = m" "start_key n \<noteq> ready_key m"
  "ready_key n \<noteq> start_key m"
  by (simp_all add: start_key_def ready_key_def append_eq_append_conv)

lemma mark_Inr:
  "mark k now tm = Inr tm' \<longleftrightarrow>
     k \<in> set startupTimelineKeys \<and> 0 \<le> \<lfloor>now - tl_origin tm\<rfloor> \<and> \<lfloor>now - tl_origin tm\<rfloor> \<le> 120000 \<and>
     tm' = tm\<lparr>tl_values := map_put k (Some \<lfloor>now - tl_origin tm\<rfloor>) (tl_values tm)\<rparr>"
proof -
  define z where "z = \<lfloor>now - tl_origin tm\<rfloor>"
  have "startupTimelineLimitMs < of_int z \<longleftrightarrow> 120000 < z" for z :: int
    using of_int_less_iff [of 120000 z, where 'a = rat] by (simp add: startupTimelineLimitMs_def del: of_int_less_iff)
  moreover have "max_safe < \<bar>of_int z\<bar> \<longrightarrow> z < 0 \<or> 120000 < z" for z :: int
  proof (rule ccontr)
    assume "\<not> (max_safe < \<bar>of_int z\<bar> \<longrightarrow> z < 0 \<or> 120000 < z)"
    then have big: "max_safe < \<bar>of_int z\<bar>" and z: "0 \<le> z" "z \<le> 120000" by auto
    from z(2) have "(of_int z :: rat) \<le> 120000" using of_int_le_iff [of z 120000, where 'a = rat] by simp
    with big z(1) show False by (simp add: max_safe_def)
  qed
  ultimately have bad: "max_safe < \<bar>of_int z\<bar> \<or> z < 0 \<or> startupTimelineLimitMs < of_int z \<longleftrightarrow> z < 0 \<or> 120000 < z"
    by blast
  show ?thesis unfolding mark_def Let_def z_def [symmetric] bad by auto
qed

lemma marked_put [simp]:
  "marked (tm\<lparr>tl_values := map_put k v (tl_values tm)\<rparr>) k' = (if k' = k then v else marked tm k')"
  by (simp add: marked_def)

definition phase_ok :: "startup \<Rightarrow> string \<Rightarrow> phase \<Rightarrow> bool" where
  "phase_ok s n ph \<longleftrightarrow>
     (\<forall>a. marked (su_timeline s) (start_key n) = Some a \<longrightarrow> 0 \<le> a \<and> a \<le> \<lfloor>su_clock s - tl_origin (su_timeline s)\<rfloor>) \<and>
     (ph = Starting \<longrightarrow> marked (su_timeline s) (start_key n) \<noteq> None) \<and>
     (ph = Settled None \<longrightarrow> (\<exists>a b. marked (su_timeline s) (start_key n) = Some a \<and>
        marked (su_timeline s) (ready_key n) = Some b \<and> 0 \<le> a \<and> a \<le> b \<and> b \<le> 120000))"

definition startup_inv :: "string list \<Rightarrow> startup \<Rightarrow> bool" where
  "startup_inv names s \<longleftrightarrow> length (su_phases s) = length names \<and> distinct names \<and>
     (\<forall>i < length names. phase_ok s (names ! i) (su_phases s ! i))"

lemma marked_create [simp]: "marked (createStartupTimeline origin) k = None"
  by (auto simp: marked_def createStartupTimeline_def map_of_map_restrict restrict_map_def split: option.splits)

lemma startup_inv_init: "distinct names \<Longrightarrow> startup_inv names (startup_init names origin now)"
  by (simp add: startup_inv_def startup_init_def phase_ok_def)

lemma phase_ok_later:
  assumes "phase_ok s n ph" "su_clock s \<le> now"
    and "tl_origin tm = tl_origin (su_timeline s)"
    and "marked tm (start_key n) = marked (su_timeline s) (start_key n)"
    and "marked tm (ready_key n) = marked (su_timeline s) (ready_key n)"
  shows "phase_ok (s\<lparr>su_phases := ps, su_timeline := tm, su_clock := now\<rparr>) n ph"
proof -
  have "\<lfloor>su_clock s - tl_origin (su_timeline s)\<rfloor> \<le> \<lfloor>now - tl_origin (su_timeline s)\<rfloor>"
    using assms(2) by (intro floor_mono) simp
  with assms show ?thesis by (fastforce simp: phase_ok_def)
qed

lemma mark_keeps:
  "mark k now tm = Inr tm' \<Longrightarrow> tl_origin tm' = tl_origin tm \<and> (\<forall>k'. k' \<noteq> k \<longrightarrow> marked tm' k' = marked tm k') \<and>
     marked tm' k = Some \<lfloor>now - tl_origin tm\<rfloor> \<and> 0 \<le> \<lfloor>now - tl_origin tm\<rfloor> \<and> \<lfloor>now - tl_origin tm\<rfloor> \<le> 120000"
  by (auto simp: mark_Inr)

text \<open>A step of observer \<open>i\<close> changes its own phase and its own two marks.\<close>

lemma settle_inv:
  assumes inv: "startup_inv names s" and i: "i < length names" and now: "su_clock s \<le> now"
    and origin: "tl_origin tm = tl_origin (su_timeline s)"
    and others: "\<And>k. k \<noteq> start_key (names ! i) \<Longrightarrow> k \<noteq> ready_key (names ! i) \<Longrightarrow> marked tm k = marked (su_timeline s) k"
    and own: "phase_ok (settle i ph now tm s) (names ! i) ph"
  shows "startup_inv names (settle i ph now tm s)"
proof -
  have "phase_ok (settle i ph now tm s) (names ! j) (su_phases (settle i ph now tm s) ! j)" if j: "j < length names" for j
  proof (cases "j = i")
    case True
    then show ?thesis using own inv i by (simp add: settle_def startup_inv_def)
  next
    case False
    then have "names ! j \<noteq> names ! i" using inv i j by (simp add: startup_inv_def nth_eq_iff_index_eq)
    then show ?thesis unfolding settle_def
      using inv j False now origin others
      by (auto simp: startup_inv_def intro!: phase_ok_later)
  qed
  then show ?thesis using inv by (simp add: startup_inv_def settle_def)
qed

lemma phase_ok_settle:
  "phase_ok (settle i ph now tm s) n ph' \<longleftrightarrow>
     (\<forall>a. marked tm (start_key n) = Some a \<longrightarrow> 0 \<le> a \<and> a \<le> \<lfloor>now - tl_origin tm\<rfloor>) \<and>
     (ph' = Starting \<longrightarrow> marked tm (start_key n) \<noteq> None) \<and>
     (ph' = Settled None \<longrightarrow> (\<exists>a b. marked tm (start_key n) = Some a \<and> marked tm (ready_key n) = Some b \<and>
        0 \<le> a \<and> a \<le> b \<and> b \<le> 120000))"
  by (simp add: phase_ok_def settle_def)

lemma start_bound:
  assumes "startup_inv names s" "i < length names" "su_clock s \<le> now" "marked (su_timeline s) (start_key (names ! i)) = Some a"
  shows "0 \<le> a \<and> a \<le> \<lfloor>now - tl_origin (su_timeline s)\<rfloor>"
proof -
  have "0 \<le> a \<and> a \<le> \<lfloor>su_clock s - tl_origin (su_timeline s)\<rfloor>"
    using assms(1,2,4) by (auto simp: startup_inv_def phase_ok_def)
  moreover have "\<lfloor>su_clock s - tl_origin (su_timeline s)\<rfloor> \<le> \<lfloor>now - tl_origin (su_timeline s)\<rfloor>"
    using assms(3) by (intro floor_mono) simp
  ultimately show ?thesis by linarith
qed

lemma failure_inv:
  "startup_inv names s \<Longrightarrow> i < length names \<Longrightarrow> su_clock s \<le> now \<Longrightarrow>
   startup_inv names (settle i (Settled (Some e)) now (su_timeline s) s)"
  by (rule settle_inv) (auto simp: phase_ok_settle dest: start_bound)

lemma startup_step_inv:
  assumes "startup_step names s s'" "startup_inv names s"
  shows "startup_inv names s'"
  using assms(1)
proof (cases rule: startup_step.cases)
  case (begins i now tm)
  note m = mark_keeps [OF begins(6)]
  have i: "i < length names" using begins assms(2) by (simp add: startup_inv_def)
  show ?thesis unfolding begins(1)
    by (rule settle_inv [OF assms(2) i begins(5)]) (use m in \<open>auto simp: phase_ok_settle\<close>)
next
  case (ready i now tm)
  note m = mark_keeps [OF ready(5)]
  have i: "i < length names" using ready assms(2) by (simp add: startup_inv_def)
  have "marked (su_timeline s) (start_key (names ! i)) \<noteq> None"
    using assms(2) i ready(3) by (auto simp: startup_inv_def phase_ok_def)
  then obtain a where a: "marked (su_timeline s) (start_key (names ! i)) = Some a" by auto
  note b = start_bound [OF assms(2) i ready(4) a]
  show ?thesis unfolding ready(1)
    by (rule settle_inv [OF assms(2) i ready(4)]) (use m a b in \<open>auto simp: phase_ok_settle\<close>)
next
  case (other_mark k now tm)
  note m = mark_keeps [OF other_mark(4)]
  have "phase_ok (s\<lparr>su_phases := su_phases s, su_timeline := tm, su_clock := now\<rparr>) (names ! i) (su_phases s ! i)"
    if i: "i < length names" for i
  proof (rule phase_ok_later)
    show "phase_ok s (names ! i) (su_phases s ! i)" using assms(2) i by (simp add: startup_inv_def)
    have "start_key (names ! i) \<noteq> k" "ready_key (names ! i) \<noteq> k" using other_mark(2) i by (metis nth_mem)+
    then show "marked tm (start_key (names ! i)) = marked (su_timeline s) (start_key (names ! i))"
      "marked tm (ready_key (names ! i)) = marked (su_timeline s) (ready_key (names ! i))" using m by auto
  qed (use m other_mark(3) in auto)
  then show ?thesis using assms(2) by (simp add: other_mark(1) startup_inv_def)
qed (use assms(2) in \<open>simp_all add: failure_inv startup_inv_def [THEN iffD1, THEN conjunct1]\<close>)

lemma startup_reach_inv:
  "(startup_step names)\<^sup>*\<^sup>* s s' \<Longrightarrow> startup_inv names s \<Longrightarrow> startup_inv names s'"
  by (induction rule: rtranclp_induct) (auto intro: startup_step_inv)

lemma observer_names_distinct [simp]: "distinct (observer_names reb)"
  by (simp add: observer_names_def)

lemma first_error_None:
  "list_all is_settled ps \<Longrightarrow> first_error ps = None \<Longrightarrow> \<forall>p \<in> set ps. p = Settled None"
  by (induction ps rule: first_error.induct) (auto simp: is_settled_def split: phase.splits option.splits)

lemma first_error_Some:
  "first_error ps = Some e \<Longrightarrow> \<exists>i < length ps. ps ! i = Settled (Some e) \<and> (\<forall>j < i. \<forall>e'. ps ! j \<noteq> Settled (Some e'))"
proof (induction ps)
  case (Cons p ps)
  show ?case
  proof (cases "\<exists>e'. p = Settled (Some e')")
    case True
    then show ?thesis using Cons.prems by (intro exI [of _ 0]) auto
  next
    case False
    then have "first_error (p # ps) = first_error ps"
      by (cases "(p # ps)" rule: first_error.cases) auto
    then obtain i where "i < length ps" "ps ! i = Settled (Some e)" "\<forall>j < i. \<forall>e'. ps ! j \<noteq> Settled (Some e')"
      using Cons by auto
    then show ?thesis using False by (intro exI [of _ "Suc i"]) (auto simp: nth_Cons split: nat.split)
  qed
qed simp

text \<open>
  C12. However the initializers interleave, \<open>startCaptureObservers\<close> returns or throws only when
  no observer is still starting; a return means every observer is ready and the timeline
  holds for each a start and a ready offset with 0 <= start <= ready <= 120000; a throw is
  the error of the first observer, in start order, that failed.
\<close>

theorem startup_settles:
  assumes "(startup_step (observer_names reb))\<^sup>*\<^sup>* (startup_init (observer_names reb) origin now) s"
    and "startup_outcome s = Some r"
  shows "list_all is_settled (su_phases s) \<and>
    (case r of
       Inr _ \<Rightarrow> \<forall>n \<in> set (observer_names reb). \<exists>a b. marked (su_timeline s) (start_key n) = Some a \<and>
         marked (su_timeline s) (ready_key n) = Some b \<and> 0 \<le> a \<and> a \<le> b \<and> b \<le> 120000
     | Inl e \<Rightarrow> \<exists>i < length (observer_names reb). su_phases s ! i = Settled (Some e) \<and>
         (\<forall>j < i. \<forall>e'. su_phases s ! j \<noteq> Settled (Some e')))"
proof -
  have inv: "startup_inv (observer_names reb) s"
    using startup_reach_inv [OF assms(1)] startup_inv_init by simp
  have all: "list_all is_settled (su_phases s)"
    and r: "r = (case first_error (su_phases s) of Some e \<Rightarrow> Inl e | None \<Rightarrow> Inr ())"
    using assms(2) by (auto simp: startup_outcome_def split: if_splits)
  show ?thesis
  proof (cases "first_error (su_phases s)")
    case None
    have "phase_ok s n (Settled None)" if "n \<in> set (observer_names reb)" for n
    proof -
      from that obtain i where i: "i < length (observer_names reb)" "n = observer_names reb ! i"
        by (metis in_set_conv_nth)
      moreover from i have "su_phases s ! i = Settled None"
        using first_error_None [OF all None] inv by (simp add: startup_inv_def)
      ultimately show ?thesis using inv by (auto simp: startup_inv_def)
    qed
    then show ?thesis using all None r by (simp add: phase_ok_def)
  next
    case (Some e)
    then show ?thesis using all r inv first_error_Some [OF Some] by (simp add: startup_inv_def)
  qed
qed

text \<open>The steps an observer still has to make.\<close>

definition phase_work :: "phase \<Rightarrow> nat" where
  "phase_work ph = (case ph of Queued \<Rightarrow> 2 | Starting \<Rightarrow> 1 | Settled _ \<Rightarrow> 0)"

definition remaining :: "startup \<Rightarrow> nat" where
  "remaining s = sum_list (map phase_work (su_phases s))"

lemma remaining_settle:
  "i < length (su_phases s) \<Longrightarrow> phase_work ph < phase_work (su_phases s ! i) \<Longrightarrow> remaining (settle i ph now tm s) < remaining s"
proof -
  assume i: "i < length (su_phases s)" and less: "phase_work ph < phase_work (su_phases s ! i)"
  have "phase_work (su_phases s ! i) \<le> sum_list (map phase_work (su_phases s))"
    using i elem_le_sum_list [of i "map phase_work (su_phases s)"] by simp
  then show ?thesis using i less by (simp add: remaining_def settle_def map_update sum_list_update)
qed

text \<open>No observer has failed, and the two marks of each can still be made at a time.\<close>

definition healthy :: "startup \<Rightarrow> bool" where
  "healthy s \<longleftrightarrow> (\<forall>ph \<in> set (su_phases s). \<forall>e. ph \<noteq> Settled (Some e))"

definition in_time :: "startup \<Rightarrow> rat \<Rightarrow> bool" where
  "in_time s now \<longleftrightarrow> 0 \<le> \<lfloor>now - tl_origin (su_timeline s)\<rfloor> \<and> \<lfloor>now - tl_origin (su_timeline s)\<rfloor> \<le> 120000"

lemma first_error_healthy: "first_error (su_phases s) = None \<longleftrightarrow> healthy s"
proof -
  have "first_error ps = None \<longleftrightarrow> (\<forall>ph \<in> set ps. \<forall>e. ph \<noteq> Settled (Some e))" for ps
    by (induction ps rule: first_error.induct) auto
  then show ?thesis by (simp add: healthy_def)
qed

lemma observer_keys:
  "n \<in> set (observer_names reb) \<Longrightarrow> start_key n \<in> set startupTimelineKeys \<and> ready_key n \<in> set startupTimelineKeys"
  by (auto simp: observer_names_def startupTimelineKeys_def start_key_def ready_key_def split: if_splits)

lemma mark_in_time:
  "in_time s now \<Longrightarrow> k \<in> set startupTimelineKeys \<Longrightarrow>
     \<exists>tm. mark k now (su_timeline s) = Inr tm \<and> tl_origin tm = tl_origin (su_timeline s)"
  by (simp add: mark_Inr in_time_def)

lemma healthy_step:
  assumes "length (su_phases s) = length (observer_names reb)" "healthy s" "in_time s now" "su_clock s \<le> now" "startup_outcome s = None"
  shows "\<exists>s'. startup_step (observer_names reb) s s' \<and> remaining s' < remaining s \<and> healthy s' \<and> in_time s' now \<and> su_clock s' = now \<and>
    length (su_phases s') = length (su_phases s)"
proof -
  let ?names = "observer_names reb"
  have settles: "healthy (settle i ph now tm s)" if "ph \<noteq> Settled (Some e)" "\<forall>e. ph \<noteq> Settled (Some e)" for i ph tm e
    using that assms(2) by (auto simp: healthy_def settle_def dest!: set_update_subset_insert [THEN subsetD])
  have time: "in_time (settle i ph now tm s) now" if "tl_origin tm = tl_origin (su_timeline s)" for i ph tm
    using that assms(3) by (simp add: in_time_def settle_def)
  have keys: "i < length (su_phases s) \<Longrightarrow> start_key (?names ! i) \<in> set startupTimelineKeys \<and> ready_key (?names ! i) \<in> set startupTimelineKeys" for i
    using observer_keys [OF nth_mem, of i reb] assms(1) by simp
  show ?thesis
  proof (cases "\<exists>i < length (su_phases s). su_phases s ! i = Queued")
    case True
    define i where "i = (LEAST i. i < length (su_phases s) \<and> su_phases s ! i = Queued)"
    have i: "i < length (su_phases s)" "su_phases s ! i = Queued" unfolding i_def using LeastI_ex [OF True] by auto
    have least: "\<forall>j < i. su_phases s ! j \<noteq> Queued"
      using not_less_Least [of _ "\<lambda>i. i < length (su_phases s) \<and> su_phases s ! i = Queued", folded i_def] i(1) by auto
    obtain tm where tm: "mark (start_key (?names ! i)) now (su_timeline s) = Inr tm" "tl_origin tm = tl_origin (su_timeline s)"
      using mark_in_time [OF assms(3)] keys [OF i(1)] by blast
    have "startup_step ?names s (settle i Starting now tm s)" by (rule begins [OF i least assms(4) tm(1)])
    moreover have "remaining (settle i Starting now tm s) < remaining s" by (rule remaining_settle [OF i(1)]) (simp add: i phase_work_def)
    ultimately show ?thesis using settles [of Starting] time [OF tm(2)] by (intro exI [of _ "settle i Starting now tm s"]) (simp add: settle_def)
  next
    case False
    obtain i where i: "i < length (su_phases s)" "\<not> is_settled (su_phases s ! i)"
      using assms(5) by (auto simp: startup_outcome_def list_all_length split: if_splits)
    then have st: "su_phases s ! i = Starting" using False by (cases "su_phases s ! i") (auto simp: is_settled_def)
    obtain tm where tm: "mark (ready_key (?names ! i)) now (su_timeline s) = Inr tm" "tl_origin tm = tl_origin (su_timeline s)"
      using mark_in_time [OF assms(3)] keys [OF i(1)] by blast
    have "startup_step ?names s (settle i (Settled None) now tm s)" by (rule ready [OF i(1) st assms(4) tm(1)])
    moreover have "remaining (settle i (Settled None) now tm s) < remaining s" by (rule remaining_settle [OF i(1)]) (simp add: st phase_work_def)
    ultimately show ?thesis using settles [of "Settled None"] time [OF tm(2)] by (intro exI [of _ "settle i (Settled None) now tm s"]) (simp add: settle_def)
  qed
qed

lemma healthy_completes:
  "length (su_phases s) = length (observer_names reb) \<Longrightarrow> healthy s \<Longrightarrow> in_time s now \<Longrightarrow> su_clock s \<le> now \<Longrightarrow>
     \<exists>s'. (startup_step (observer_names reb))\<^sup>*\<^sup>* s s' \<and> startup_outcome s' = Some (Inr ())"
proof (induction "remaining s" arbitrary: s rule: less_induct)
  case less
  show ?case
  proof (cases "startup_outcome s")
    case None
    from healthy_step [OF less.prems None] obtain t where t: "startup_step (observer_names reb) s t" "remaining t < remaining s"
      "healthy t" "in_time t now" "su_clock t = now" "length (su_phases t) = length (su_phases s)" by blast
    then show ?thesis using less(1) [of t] less(2) by (auto intro: converse_rtranclp_into_rtranclp)
  next
    case (Some r)
    then have "r = Inr ()" using first_error_healthy [THEN iffD2, OF less(3)] by (auto simp: startup_outcome_def split: if_splits)
    then show ?thesis using Some by blast
  qed
qed

text \<open>After the limit a mark fails, and an observer that is not settled can only settle with an error.\<close>

definition too_late :: "startup \<Rightarrow> bool" where
  "too_late s \<longleftrightarrow> 120000 < \<lfloor>su_clock s - tl_origin (su_timeline s)\<rfloor>"

lemma late_step:
  assumes "startup_step names s s'" "too_late s"
  shows "too_late s' \<and> (\<forall>i < length (su_phases s). su_phases s ! i \<noteq> Settled None \<longrightarrow> su_phases s' ! i \<noteq> Settled None) \<and>
    length (su_phases s') = length (su_phases s)"
proof -
  have late: "120000 < \<lfloor>now - tl_origin (su_timeline s)\<rfloor>" if "su_clock s \<le> now" for now
    using assms(2) that floor_mono [of "su_clock s - tl_origin (su_timeline s)" "now - tl_origin (su_timeline s)"] by (simp add: too_late_def)
  show ?thesis using assms(1)
    by (cases rule: startup_step.cases) (use late in \<open>force simp: mark_Inr settle_def too_late_def nth_list_update\<close>)+
qed

lemma late_run:
  "(startup_step names)\<^sup>*\<^sup>* s s' \<Longrightarrow> too_late s \<Longrightarrow>
     too_late s' \<and> (\<forall>i < length (su_phases s). su_phases s ! i \<noteq> Settled None \<longrightarrow> su_phases s' ! i \<noteq> Settled None) \<and>
     length (su_phases s') = length (su_phases s)"
  by (induction rule: rtranclp_induct) (use late_step in \<open>fastforce+\<close>)

lemma origin_step: "startup_step names s s' \<Longrightarrow> tl_origin (su_timeline s') = tl_origin (su_timeline s)"
  by (cases rule: startup_step.cases) (auto simp: settle_def dest: mark_keeps)

lemma clock_step: "startup_step names s s' \<Longrightarrow> su_clock s \<le> su_clock s'"
  by (cases rule: startup_step.cases) (auto simp: settle_def)

lemma origin_run:
  "(startup_step names)\<^sup>*\<^sup>* s s' \<Longrightarrow> tl_origin (su_timeline s') = tl_origin (su_timeline s) \<and> su_clock s \<le> su_clock s'"
  by (induction rule: rtranclp_induct) (auto dest: origin_step intro: order_trans [OF _ clock_step])

text \<open>
  C13. A start that nothing disturbs succeeds, and only in time. From every reachable state in
  which no observer has failed and the 120000 ms are not over, there is a continuation in which
  every initializer completes, and it returns; once they are over while an observer is not
  settled, every outcome is a throw.
\<close>

theorem startup_completes:
  assumes "(startup_step (observer_names reb))\<^sup>*\<^sup>* (startup_init (observer_names reb) origin now) s" "startup_outcome s = None" "origin \<le> now"
  shows "if \<lfloor>su_clock s - origin\<rfloor> \<le> 120000
    then first_error (su_phases s) = None \<longrightarrow>
      (\<exists>s'. (startup_step (observer_names reb))\<^sup>*\<^sup>* s s' \<and> startup_outcome s' = Some (Inr ()))
    else \<forall>s' r. (startup_step (observer_names reb))\<^sup>*\<^sup>* s s' \<longrightarrow> startup_outcome s' = Some r \<longrightarrow> (\<exists>e. r = Inl e)"
proof -
  have inv: "length (su_phases s) = length (observer_names reb)"
    using startup_reach_inv [OF assms(1)] startup_inv_init by (simp add: startup_inv_def)
  have o: "tl_origin (su_timeline s) = origin" using origin_run [OF assms(1)] by (simp add: startup_init_def createStartupTimeline_def)
  show ?thesis
  proof (cases "\<lfloor>su_clock s - origin\<rfloor> \<le> 120000")
    case True
    have "origin \<le> su_clock s" using origin_run [OF assms(1)] assms(3) by (simp add: startup_init_def)
    then have "in_time s (su_clock s)" using True by (simp add: in_time_def o)
    then show ?thesis using True healthy_completes [OF inv] by (simp add: first_error_healthy)
  next
    case False
    then have l: "too_late s" by (simp add: too_late_def o)
    obtain i where i: "i < length (su_phases s)" "\<not> is_settled (su_phases s ! i)"
      using assms(2) by (auto simp: startup_outcome_def list_all_length split: if_splits)
    have "\<exists>e. r = Inl e" if run: "(startup_step (observer_names reb))\<^sup>*\<^sup>* s s'" and out: "startup_outcome s' = Some r" for s' r
    proof -
      have "su_phases s' ! i \<noteq> Settled None" "i < length (su_phases s')"
        using late_run [OF run l] i by (auto simp: is_settled_def)
      moreover have "list_all is_settled (su_phases s')" using out by (simp add: startup_outcome_def split: if_splits)
      ultimately have "first_error (su_phases s') \<noteq> None" using first_error_None nth_mem by blast
      then show ?thesis using out by (auto simp: startup_outcome_def split: if_splits option.splits)
    qed
    then show ?thesis using False by simp
  qed
qed


definition demo_start :: startup where
  "demo_start = startup_init (observer_names False) 0 0"

definition demo_timeline :: timeline where
  "demo_timeline = createStartupTimeline 0
     \<lparr>tl_values := map_put ''referenceStartMs'' (Some 1) (tl_values (createStartupTimeline 0))\<rparr>"

definition demo_final :: startup where
  "demo_final = settle 0 (Settled (Some TypeError)) 1 demo_timeline demo_start"

lemma demo_run:
  "(startup_step (observer_names False))\<^sup>*\<^sup>* (startup_init (observer_names False) 0 0) demo_final"
proof -
  have "startup_step (observer_names False) demo_start (settle 0 Starting 1 demo_timeline demo_start)"
    by (rule begins) (simp_all add: demo_start_def startup_init_def observer_names_def mark_Inr start_key_def
        startupTimelineKeys_def createStartupTimeline_def demo_timeline_def)
  moreover have "startup_step (observer_names False) (settle 0 Starting 1 demo_timeline demo_start) demo_final"
    using initializer_fails [of 0 "settle 0 Starting 1 demo_timeline demo_start" 1 "observer_names False" TypeError]
    by (simp add: settle_def demo_start_def startup_init_def observer_names_def demo_final_def)
  ultimately show ?thesis unfolding demo_start_def
    by (meson converse_rtranclp_into_rtranclp r_into_rtranclp)
qed

theorem startup_settles_witness:
  "list_all is_settled (su_phases demo_final) \<and> (\<exists>i < 1. su_phases demo_final ! i = Settled (Some TypeError))"
proof -
  have "startup_outcome demo_final = Some (Inl TypeError)"
    by (simp add: startup_outcome_def is_settled_def demo_final_def settle_def demo_start_def startup_init_def
        observer_names_def)
  from startup_settles [OF demo_run this] show ?thesis by (auto simp: observer_names_def)
qed

theorem startup_completes_witness:
  "(\<exists>s'. (startup_step (observer_names False))\<^sup>*\<^sup>* (startup_init (observer_names False) 0 0) s' \<and>
     startup_outcome s' = Some (Inr ()))"
proof -
  have "startup_outcome (startup_init (observer_names False) 0 0) = None"
    by (simp add: startup_outcome_def startup_init_def observer_names_def is_settled_def)
  from startup_completes [OF rtranclp.rtrancl_refl this order_refl] show ?thesis
    by (simp add: startup_init_def observer_names_def)
qed

end
