(* ===== verification/CaptureReport.thy ===== *)
theory CaptureReport
  imports ResponseEvidence CompareCapture TextPatterns CaptureStartup
begin

text \<open>
  \<open>tools/sanitize-capture-completeness-report.mjs\<close>: the explicit allowlisted copy of a report
  that may leave the machine, with the closed vocabularies it takes from
  \<open>capture-completeness-lifecycle.mjs\<close>. The result is
  again a value; an object under construction is the list of its members in order.
\<close>

section \<open>Vocabularies\<close>

definition lifecycleErrorCodes :: "string list" where
  "lifecycleErrorCodes =
     [''catalog-capacity'', ''attachment-event-missing'', ''cleanup-capacity'', ''attachment-session-malformed'',
      ''parent-session-malformed'', ''session-identity-reused'', ''unowned-startup-wait'', ''target-crashed'',
      ''target-or-ancestor-detached'', ''transport-changed'', ''fallback-initialization'', ''transport-closed'',
      ''transport-malformed'', ''transport-byte-capacity'', ''transport-queue-capacity'',
      ''target-discovery-unavailable'', ''fallback-setup-task-failed'', ''detach-failed'',
      ''owner-initialization-failed'', ''browser-setup-failed'', ''browser-fallback'', ''event-queue-dropped'',
      ''unknown'']"

definition browserSetupStages :: "string list" where
  "browserSetupStages =
     [''endpoint'', ''transport-open'', ''discover-targets'', ''get-targets'', ''get-targets-shape'']"

definition browserSetupReasons :: "string list" where
  "browserSetupReasons =
     [''timeout'', ''disconnected'', ''transport-failure'', ''invalid-reply'', ''protocol-error'',
      ''command-rejected'', ''dependency-unavailable'', ''resource-limit'', ''invalid-request'', ''state-conflict'',
      ''stale-generation'', ''target-unavailable'', ''cancelled'', ''outcome-unknown'', ''unspecified'']"

definition captureReadinessEnums :: "(string \<times> string list) list" where
  "captureReadinessEnums =
     [(''transport'', [''browser-sessions'', ''page-fallback'']),
      (''scope'', [''http-browser-targets'', ''http-page-targets'']),
      (''state'', [''waiting'', ''ready'', ''partial'', ''disabled''])]"

section \<open>Scalars and member lists\<close>

type_synonym members = "(string \<times> js) list"

definition bounded_integer :: "rat \<Rightarrow> js \<Rightarrow> bool" where
  "bounded_integer hi v = (is_safe_integer v \<and> 0 \<le> num_of v \<and> num_of v \<le> hi)"

definition report_count :: "js \<Rightarrow> js_error + js" where
  "report_count v = (if bounded_integer 10000000 v then Inr v else Inl (JsError ''invalid-count''))"

definition choice :: "js \<Rightarrow> string list \<Rightarrow> js_error + js" where
  "choice v values = (if one_of values v then Inr v else Inl (JsError ''invalid-enum''))"

definition report_code :: "js \<Rightarrow> js_error + js" where
  "report_code v = (if is_str v \<and> code_text (str_of v) then Inr v else Inl (JsError ''invalid-code''))"

definition codes :: "js \<Rightarrow> js_error + js" where
  "codes v =
     (if \<not> is_arr v \<or> 64 < length (arr_of v) then Inl (JsError ''invalid-codes'')
      else bindE (mapE report_code (arr_of v)) (\<lambda>cs. Inr (Arr cs)))"

text \<open>\<open>numbers(v, keys)\<close>, as the members it contributes.\<close>

definition number_member :: "js \<Rightarrow> string \<Rightarrow> js_error + (string \<times> js)" where
  "number_member v k =
     bindE (if getp v k = Null then Inr Null else report_count (getp v k)) (\<lambda>n. Inr (k, n))"

definition numbers :: "js \<Rightarrow> string list \<Rightarrow> js_error + members" where
  "numbers v keys = mapE (number_member v) (filter (\<lambda>k. getp v k \<noteq> Undef) keys)"

text \<open>
  An object literal, or assignments to a result in order: every part yields members or throws,
  and the first throw is the one that is seen.
\<close>

fun object_of :: "(js_error + members) list \<Rightarrow> js_error + js" where
  "object_of parts = bindE (mapE (\<lambda>part. part) parts) (\<lambda>kvs. Inr (Obj (concat kvs)))"

definition member :: "string \<Rightarrow> js_error + js \<Rightarrow> js_error + members" where
  "member k m = bindE m (\<lambda>v. Inr [(k, v)])"

definition member_if :: "bool \<Rightarrow> string \<Rightarrow> js_error + js \<Rightarrow> js_error + members" where
  "member_if b k m = (if b then member k m else Inr [])"

text \<open>\<open>xs.map(f)\<close> of an array that must have at most \<open>n\<close> elements.\<close>

definition array_of :: "nat \<Rightarrow> string \<Rightarrow> (js \<Rightarrow> js_error + js) \<Rightarrow> js \<Rightarrow> js_error + js" where
  "array_of n err f v =
     (if \<not> is_arr v \<or> n < length (arr_of v) then Inl (JsError err)
      else bindE (mapE f (arr_of v)) (\<lambda>xs. Inr (Arr xs)))"

text \<open>Reading members of an array element: a nullish element throws at the first read.\<close>

definition element :: "js \<Rightarrow> js_error + 'b \<Rightarrow> js_error + 'b" where
  "element item m = (if item = Undef \<or> item = Null then Inl TypeError else m)"

section \<open>Sections of a report\<close>

definition side_counts :: "string \<Rightarrow> string list \<Rightarrow> js \<Rightarrow> js_error + members" where
  "side_counts err names counts =
     (if \<not> is_obj counts then Inl (JsError err)
      else mapE (\<lambda>name. if bounded_integer 10000 (getp counts name) then Inr (name, getp counts name)
                        else Inl (JsError err)) names)"

definition sanitizeMalformedFields :: "js \<Rightarrow> js_error + js" where
  "sanitizeMalformedFields v =
     object_of (map (\<lambda>side. member side
       (bindE (side_counts ''invalid-malformed-fields'' malformedHopFieldNames (getp v side)) (\<lambda>kvs. Inr (Obj kvs))))
       [''reference'', ''reb''])"

definition sanitizeStatusValueBuckets :: "js \<Rightarrow> js_error + js" where
  "sanitizeStatusValueBuckets v =
     object_of (map (\<lambda>side. member side
       (bindE (side_counts ''invalid-status-value-buckets'' statusValueBucketNames (getp v side)) (\<lambda>kvs.
          if 10000 < sum_list (map (\<lambda>(name, n). num_of n) kvs) then Inl (JsError ''invalid-status-value-buckets'')
          else Inr (Obj kvs))))
       [''reference'', ''reb''])"

definition epoch_transition :: "js \<Rightarrow> js_error + js" where
  "epoch_transition item =
     element item
       (if \<not> is_bool (getp item ''setup'') then Inl (JsError ''invalid-lifecycle'')
        else object_of [member ''from'' (report_count (getp item ''from'')),
                        member ''to'' (report_count (getp item ''to'')), member ''setup'' (Inr (getp item ''setup''))])"

definition error_observation :: "js \<Rightarrow> js_error + js" where
  "error_observation item =
     element item
       (object_of [member ''code'' (choice (getp item ''code'') lifecycleErrorCodes),
                   member ''samples'' (report_count (getp item ''samples''))])"

definition setup_observation :: "js \<Rightarrow> js_error + js" where
  "setup_observation item =
     element item
       (object_of [member ''stage'' (choice (getp item ''stage'') browserSetupStages),
                   member ''reason'' (choice (getp item ''reason'') browserSetupReasons),
                   member ''samples'' (report_count (getp item ''samples''))])"

definition lifecycle_keys :: "string list" where
  "lifecycle_keys = [''samples'', ''invalidSamples'', ''firstEpoch'', ''lastEpoch'', ''setupEpochTransitions'',
     ''epochChanges'', ''omittedEpochTransitions'']"

definition maxima_keys :: "string list" where
  "maxima_keys = [''gaps'', ''dropped'', ''attached_targets'', ''eligible_targets'', ''failed_targets'',
     ''target_overflow'', ''cleanup_already_gone'', ''cleanup_failures'']"

text \<open>\<open>sanitizeLifecycle(value)\<close>, called with a truthy value only.\<close>

definition sanitizeLifecycle :: "js \<Rightarrow> js_error + js" where
  "sanitizeLifecycle v =
     object_of
       [numbers v lifecycle_keys,
        member ''maxima'' (bindE (numbers (getp v ''maxima'') maxima_keys) (\<lambda>kvs. Inr (Obj kvs))),
        (if \<not> is_arr (getp v ''epochTransitions'') \<or> 16 < length (arr_of (getp v ''epochTransitions'')) \<or>
            \<not> is_arr (getp v ''errorObservations'') \<or>
            length lifecycleErrorCodes < length (arr_of (getp v ''errorObservations''))
         then Inl (JsError ''invalid-lifecycle'') else Inr []),
        member ''epochTransitions'' (array_of 16 ''invalid-lifecycle'' epoch_transition (getp v ''epochTransitions'')),
        member ''errorObservations''
          (array_of (length lifecycleErrorCodes) ''invalid-lifecycle'' error_observation (getp v ''errorObservations'')),
        member_if (getp v ''browserSetupObservations'' \<noteq> Undef) ''browserSetupObservations''
          (array_of (length browserSetupStages * length browserSetupReasons) ''invalid-lifecycle'' setup_observation
             (getp v ''browserSetupObservations''))]"

definition verdict_words :: "string list" where
  "verdict_words = [''pass'', ''fail'', ''incomplete'']"

definition comparison_keys :: "string list" where
  "comparison_keys = [''referenceHops'', ''rebHops'', ''matched'', ''missing'', ''extra'', ''ambiguous'', ''mismatched'']"

definition sanitize_comparison :: "js \<Rightarrow> js_error + js" where
  "sanitize_comparison c =
     object_of
       [member ''verdict'' (choice (getp c ''verdict'') verdict_words),
        member ''issues'' (codes (getp c ''issues'')),
        numbers c comparison_keys,
        member_if (getp c ''malformedFields'' \<noteq> Undef) ''malformedFields''
          (sanitizeMalformedFields (getp c ''malformedFields'')),
        member_if (getp c ''statusValueBuckets'' \<noteq> Undef) ''statusValueBuckets''
          (sanitizeStatusValueBuckets (getp c ''statusValueBuckets''))]"

definition operation_id :: "string \<Rightarrow> js \<Rightarrow> js_error + js" where
  "operation_id md v =
     (if is_str v \<and> operation_text md (str_of v) then Inr v else Inl (JsError ''invalid-operation''))"

definition methods_allowed :: "string list" where "methods_allowed = [''GET'', ''POST'', ''OPTIONS'']"

definition operation_keys :: "string list" where
  "operation_keys = [''expected'', ''receipts'', ''reference'', ''reb'', ''referencePending'', ''rebPending'']"

definition difference_keys :: "string list" where
  "difference_keys = [''url'', ''method'', ''status'', ''statusSource'', ''wireStatus'', ''state'', ''resourceType'',
     ''fromDiskCache'', ''fromServiceWorker'']"

definition sanitize_operation :: "string \<Rightarrow> js \<Rightarrow> js_error + js" where
  "sanitize_operation md q =
     element q
       (object_of
         [member ''operationId'' (operation_id md (getp q ''operationId'')),
          member_if (getp q ''responseEvidence'' \<noteq> Undef) ''responseEvidence''
            (bindE (sanitizeResponseEvidence (getp q ''responseEvidence'')) (\<lambda>e. Inr (scoped_evidence_js e))),
          member ''method'' (choice (getp q ''method'') methods_allowed),
          numbers q operation_keys,
          member_if (getp q ''malformedFields'' \<noteq> Undef) ''malformedFields''
            (sanitizeMalformedFields (getp q ''malformedFields'')),
          member_if (getp q ''statusValueBuckets'' \<noteq> Undef) ''statusValueBuckets''
            (sanitizeStatusValueBuckets (getp q ''statusValueBuckets'')),
          member ''differences'' (bindE (numbers (getp q ''differences'') difference_keys) (\<lambda>kvs. Inr (Obj kvs)))])"

definition body_keys :: "string list" where
  "body_keys = [''expectedSamples'', ''checkedSamples'', ''missingSamples'', ''mismatchedSamples'']"

definition timeline_member :: "js \<Rightarrow> string \<Rightarrow> js_error + (string \<times> js)" where
  "timeline_member t k =
     (if getp t k \<noteq> Null \<and> \<not> bounded_integer startupTimelineLimitMs (getp t k)
      then Inl (JsError ''invalid-startup-timeline'') else Inr (k, getp t k))"

definition readiness_member :: "js \<Rightarrow> string \<times> string list \<Rightarrow> js_error + (string \<times> js)" where
  "readiness_member r kv =
     (case kv of (k, values) \<Rightarrow>
        bindE (if getp r k = Null then Inr Null else choice (getp r k) values) (\<lambda>v. Inr (k, v)))"

definition netlog_operation_of :: "string \<Rightarrow> js \<Rightarrow> js_error + js" where
  "netlog_operation_of md q =
     element q
       (object_of
         [member ''operationId'' (operation_id md (getp q ''operationId'')),
          member ''method'' (choice (getp q ''method'') methods_allowed),
          numbers q [''wireReceipts'', ''referenceHops'', ''urlRequestSources'', ''jobStarts''],
          member ''issues'' (codes (getp q ''issues''))])"

definition sanitize_netlog :: "string \<Rightarrow> js \<Rightarrow> js_error + js" where
  "sanitize_netlog md n =
     object_of
       [member ''state'' (choice (getp n ''state'') [''incomplete'', ''mismatch'', ''corroborated'']),
        member ''completenessClaim'' (Inr (Bool False)),
        member ''failures'' (codes (getp n ''failures'')),
        member_if (truthy (getp n ''operations'')) ''operations''
          (array_of 256 ''invalid-netlog-operations'' (netlog_operation_of md) (getp n ''operations''))]"

definition coverage_keys :: "string list" where
  "coverage_keys = [''gaps'', ''target_overflow'', ''cleanup_already_gone'', ''cleanup_failures'', ''failed_targets'',
     ''unattached_targets_omitted'', ''attached_targets'', ''eligible_targets'']"

definition category_keys :: "string list" where
  "category_keys = [''preflight'', ''failed'', ''canceled'', ''diskCache'', ''cacheEvent'', ''serviceWorker'']"

definition as_object :: "js_error + members \<Rightarrow> js_error + js" where
  "as_object m = bindE m (\<lambda>kvs. Inr (Obj kvs))"

text \<open>\<open>RegExp.test(v)\<close>: the text of the value, if it has one, is matched.\<close>

definition text_matches :: "(jsnum \<Rightarrow> string) \<Rightarrow> (string \<Rightarrow> bool) \<Rightarrow> js \<Rightarrow> js_error + bool" where
  "text_matches nt p v = bindE (to_text nt v) (\<lambda>t. Inr (p t))"

definition browser_version :: "(jsnum \<Rightarrow> string) \<Rightarrow> js \<Rightarrow> js_error + js" where
  "browser_version nt v =
     (if v = Null then Inr Null
      else bindE (text_matches nt version_text v) (\<lambda>ok. if ok then Inr v else Inl (JsError ''invalid-version'')))"

definition sanitize_result :: "(jsnum \<Rightarrow> string) \<Rightarrow> nat \<Rightarrow> js \<Rightarrow> js_error + js" where
  "sanitize_result nt index r =
     (let md = (if index = 0 then ''startup'' else ''prearmed'') in
      element r
       (object_of
         [member ''mode'' (choice (getp r ''mode'') [md]),
          member ''verdict'' (choice (getp r ''verdict'') verdict_words),
          member ''errorCode'' (if getp r ''errorCode'' = Null then Inr Null else report_code (getp r ''errorCode'')),
          member_if (getp r ''browserVersion'' \<noteq> Undef) ''browserVersion'' (browser_version nt (getp r ''browserVersion'')),
          member_if (getp r ''fixtureComplete'' \<noteq> Undef) ''fixtureComplete''
            (if is_bool (getp r ''fixtureComplete'') then Inr (getp r ''fixtureComplete'')
             else Inl (JsError ''invalid-fixture'')),
          member_if (truthy (getp r ''comparison'')) ''comparison'' (sanitize_comparison (getp r ''comparison'')),
          member_if (truthy (getp r ''operations'')) ''operations''
            (array_of 256 ''invalid-operations'' (sanitize_operation md) (getp r ''operations'')),
          member_if (truthy (getp r ''httpVerdict'')) ''httpVerdict'' (choice (getp r ''httpVerdict'') verdict_words),
          member_if (truthy (getp r ''bodyComparison'')) ''bodyComparison''
            (object_of [member ''verdict'' (choice (getp (getp r ''bodyComparison'') ''verdict'') (verdict_words @ [''unassessed''])),
                        numbers (getp r ''bodyComparison'') body_keys]),
          member_if (truthy (getp r ''headers'')) ''headers''
            (object_of [member ''verdict'' (choice (getp (getp r ''headers'') ''verdict'') [''unassessed''])]),
          numbers r [''readinessTransitions'', ''duplicateSessionsRejected''],
          member_if (truthy (getp r ''startupTimeline'')) ''startupTimeline''
            (as_object (mapE (timeline_member (getp r ''startupTimeline'')) startupTimelineKeys)),
          member_if (truthy (getp r ''captureReadiness'')) ''captureReadiness''
            (as_object (mapE (readiness_member (getp r ''captureReadiness'')) captureReadinessEnums)),
          member_if (truthy (getp r ''lifecycle'')) ''lifecycle'' (sanitizeLifecycle (getp r ''lifecycle'')),
          member_if (truthy (getp r ''referenceErrors'')) ''referenceErrors'' (codes (getp r ''referenceErrors'')),
          member_if (truthy (getp r ''rebCoverage'')) ''rebCoverage''
            (as_object (numbers (getp r ''rebCoverage'') coverage_keys)),
          member_if (truthy (getp r ''referenceCategories'')) ''referenceCategories''
            (as_object (numbers (getp r ''referenceCategories'') category_keys)),
          member_if (truthy (getp r ''netlog'')) ''netlog'' (sanitize_netlog md (getp r ''netlog''))]))"

definition sanitizeCaptureReport :: "(jsnum \<Rightarrow> string) \<Rightarrow> js \<Rightarrow> js_error + js" where
  "sanitizeCaptureReport nt input =
     (if getp input ''schema'' \<noteq> Str ''reb-capture-completeness-v1'' then Inl (JsError ''invalid-report'')
      else bindE (text_matches nt commit_text (getp input ''rebCommit'')) (\<lambda>ok.
        if \<not> ok \<or> \<not> is_arr (getp input ''results'') \<or> length (arr_of (getp input ''results'')) \<noteq> 2
        then Inl (JsError ''invalid-report'')
        else bindE (mapE (\<lambda>(i, r). sanitize_result nt i r) (enumerate 0 (arr_of (getp input ''results''))))
          (\<lambda>results. Inr (Obj [(''schema'', Str ''reb-capture-completeness-sanitized-v1''),
             (''rebCommit'', getp input ''rebCommit''), (''completenessClaim'', Bool False),
             (''results'', Arr results)]))))"

section \<open>What may be published\<close>

text \<open>
  A published text is a code, one of three methods, the identifier of an authored operation, a
  browser version or a commit; a published member name is one of a fixed list. A publishable value
  has such texts and names only, and bounded counts.
\<close>

definition pinned_text :: "string \<Rightarrow> bool" where
  "pinned_text t \<longleftrightarrow> commit_text t \<or> version_text t"

definition published_text :: "string \<Rightarrow> bool" where
  "published_text s \<longleftrightarrow> code_text s \<or> s \<in> set methods_allowed \<or> operation_text ''startup'' s \<or>
     operation_text ''prearmed'' s \<or> pinned_text s"

definition member_names :: "string list" where
  "member_names =
     malformedHopFieldNames @ statusValueBucketNames @ startupTimelineKeys @ lifecycle_keys @ maxima_keys @ comparison_keys @
     operation_keys @ difference_keys @ body_keys @ coverage_keys @ category_keys @ map fst captureReadinessEnums @
     [''schema'', ''rebCommit'', ''completenessClaim'', ''results'', ''mode'', ''verdict'', ''errorCode'', ''browserVersion'',
      ''fixtureComplete'', ''comparison'', ''issues'', ''malformedFields'', ''statusValueBuckets'', ''operations'', ''operationId'',
      ''responseEvidence'', ''method'', ''differences'', ''httpVerdict'', ''bodyComparison'', ''headers'', ''readinessTransitions'',
      ''duplicateSessionsRejected'', ''startupTimeline'', ''captureReadiness'', ''lifecycle'', ''maxima'', ''epochTransitions'',
      ''errorObservations'', ''browserSetupObservations'', ''from'', ''to'', ''setup'', ''code'', ''samples'', ''stage'', ''reason'',
      ''reference'', ''reb'', ''referenceErrors'', ''rebCoverage'', ''referenceCategories'', ''netlog'', ''state'', ''failures'',
      ''wireReceipts'', ''referenceHops'', ''urlRequestSources'', ''jobStarts'', ''complete'', ''omittedEvents'', ''omittedHops'',
      ''hops'', ''hopOrdinal'', ''namespaceHopCount'', ''rawIdHopCount'', ''events'', ''ordinal'', ''kind'', ''statusBucket'', ''hasExtraInfo'', ''sessionRelation'']"

definition member_name :: "string \<Rightarrow> bool" where
  "member_name k \<longleftrightarrow> k \<in> set member_names"

inductive public :: "js \<Rightarrow> bool" where
  "public Null"
| "public (Bool b)"
| "bounded_integer 10000000 v \<Longrightarrow> public v"
| "published_text s \<Longrightarrow> public (Str s)"
| "(\<forall>x \<in> set xs. public x) \<Longrightarrow> public (Arr xs)"
| "(\<forall>(k, v) \<in> set kvs. member_name k \<and> public v) \<Longrightarrow> public (Obj kvs)"

text \<open>
  A projection takes members away and nothing else: what is left has the same place and the
  same value as in the source. The one member a report adds is \<open>completenessClaim: false\<close>.
\<close>

inductive projection :: "js \<Rightarrow> js \<Rightarrow> bool" where
  same: "projection v v"
| elements: "list_all2 projection xs ys \<Longrightarrow> projection (Arr xs) (Arr ys)"
| members: "(\<forall>(k, w) \<in> set kvs. k = ''completenessClaim'' \<and> w = Bool False \<or> projection w (getp v k)) \<Longrightarrow>
    projection (Obj kvs) v"

definition copied :: "js \<Rightarrow> js \<Rightarrow> bool" where
  "copied w v \<longleftrightarrow> public w \<and> projection w v"

definition part_ok :: "js \<Rightarrow> js_error + members \<Rightarrow> bool" where
  "part_ok v part \<longleftrightarrow>
     (\<forall>kvs. part = Inr kvs \<longrightarrow> (\<forall>(k, w) \<in> set kvs. member_name k \<and>
        (copied w (getp v k) \<or> k = ''completenessClaim'' \<and> w = Bool False)))"

lemma member_name_lists [simp]:
  "list_all member_name malformedHopFieldNames" "list_all member_name statusValueBucketNames"
  "list_all member_name startupTimelineKeys" "list_all member_name lifecycle_keys" "list_all member_name maxima_keys"
  "list_all member_name comparison_keys" "list_all member_name operation_keys" "list_all member_name difference_keys"
  "list_all member_name body_keys" "list_all member_name coverage_keys" "list_all member_name category_keys"
  "list_all (\<lambda>(k, vs). member_name k) captureReadinessEnums"
  by (force simp: member_name_def member_names_def list_all_iff)+

lemma member_name_literals [simp]:
  "list_all member_name [''schema'', ''rebCommit'', ''completenessClaim'', ''results'', ''mode'', ''verdict'', ''errorCode'',
     ''browserVersion'', ''fixtureComplete'', ''comparison'', ''issues'', ''malformedFields'', ''statusValueBuckets'', ''operations'',
     ''operationId'', ''responseEvidence'', ''method'', ''differences'', ''httpVerdict'', ''bodyComparison'', ''headers'',
     ''readinessTransitions'', ''duplicateSessionsRejected'', ''startupTimeline'', ''captureReadiness'', ''lifecycle'', ''maxima'']"
  "list_all member_name [''epochTransitions'', ''errorObservations'', ''browserSetupObservations'', ''from'', ''to'', ''setup'',
     ''code'', ''samples'', ''stage'', ''reason'', ''reference'', ''reb'', ''referenceErrors'', ''rebCoverage'', ''referenceCategories'',
     ''netlog'', ''state'', ''failures'', ''wireReceipts'', ''referenceHops'', ''urlRequestSources'', ''jobStarts'', ''complete'',
     ''omittedEvents'', ''omittedHops'', ''hops'', ''hopOrdinal'', ''namespaceHopCount'', ''rawIdHopCount'', ''events'', ''ordinal'',
     ''kind'', ''statusBucket'', ''hasExtraInfo'', ''sessionRelation'']"
  unfolding list_all_iff member_name_def member_names_def by auto

lemmas literal_names [simp] = member_name_literals [unfolded list.pred_inject]

lemma published_vocabulary [simp]:
  "list_all published_text lifecycleErrorCodes" "list_all published_text browserSetupStages"
  "list_all published_text browserSetupReasons" "list_all published_text verdict_words"
  "list_all published_text methods_allowed" "list_all (\<lambda>(k, vs). list_all published_text vs) captureReadinessEnums"
  "list_all published_text [''unassessed'', ''incomplete'', ''mismatch'', ''corroborated'', ''startup'', ''prearmed'']"
  "published_text ''reb-capture-completeness-sanitized-v1''"
  by (simp_all add: published_text_def lifecycleErrorCodes_def browserSetupStages_def browserSetupReasons_def verdict_words_def
      captureReadinessEnums_def methods_allowed_def code_text_def all_in_def is_lower_def is_digit_def is_dash_def code_in_def)

lemmas published_words [simp] = published_vocabulary(7) [unfolded list.pred_inject]

lemma object_copied:
  assumes "object_of parts = Inr w" "\<forall>p \<in> set parts. part_ok v p"
  shows "copied w v"
proof -
  obtain kvss where kvss: "mapE (\<lambda>part. part) parts = Inr kvss" "w = Obj (concat kvss)"
    using assms(1) by (auto simp: result_simps)
  have mem: "member_name k \<and> (copied x (getp v k) \<or> k = ''completenessClaim'' \<and> x = Bool False)"
    if "(k, x) \<in> set (concat kvss)" for k x
  proof -
    from that obtain kvs where kvs: "kvs \<in> set kvss" "(k, x) \<in> set kvs" by auto
    with mapE_set [OF kvss(1)] have "Inr kvs \<in> set parts" by metis
    with assms(2) kvs(2) show ?thesis unfolding part_ok_def by blast
  qed
  have "public w" unfolding kvss(2) using mem by (intro public.intros(6)) (auto simp: copied_def intro: public.intros)
  moreover have "projection w v" unfolding kvss(2) using mem by (intro projection.members) (auto simp: copied_def)
  ultimately show ?thesis by (simp add: copied_def)
qed

lemma as_object_copied: "as_object m = Inr w \<Longrightarrow> part_ok v m \<Longrightarrow> copied w v"
  using object_copied [of "[m]" w v] by (auto simp: as_object_def result_simps)

lemma part_member: "member_name k \<Longrightarrow> (\<And>w. m = Inr w \<Longrightarrow> copied w (getp v k)) \<Longrightarrow> part_ok v (member k m)"
  by (auto simp: part_ok_def member_def result_simps)

lemma part_member_if:
  "member_name k \<Longrightarrow> (\<And>w. m = Inr w \<Longrightarrow> copied w (getp v k)) \<Longrightarrow> part_ok v (member_if b k m)"
  by (simp add: member_if_def part_member) (simp add: part_ok_def)

lemma part_trivial [simp]: "part_ok v (Inl e)" "part_ok v (Inr [])"
  by (simp_all add: part_ok_def)

lemma part_claim [simp]: "part_ok v (member ''completenessClaim'' (Inr (Bool False)))"
  by (simp add: part_ok_def member_def)

lemma bounded_copied: "bounded_integer n v \<Longrightarrow> n \<le> 10000000 \<Longrightarrow> copied v v"
  by (auto simp: copied_def bounded_integer_def intro!: public.intros projection.same)

lemma report_count_copied: "report_count v = Inr w \<Longrightarrow> copied w v"
  by (auto simp: report_count_def bounded_copied split: if_splits)

lemma null_copied: "copied Null Null"
  by (simp add: copied_def public.intros projection.same)

lemma bool_copied: "is_bool v \<Longrightarrow> copied v v"
  by (auto simp: copied_def public.intros projection.same elim!: is_boolE)

lemma text_copied: "published_text s \<Longrightarrow> copied (Str s) (Str s)"
  by (simp add: copied_def public.intros projection.same)

lemma choice_copied: "choice v values = Inr w \<Longrightarrow> list_all published_text values \<Longrightarrow> copied w v"
  by (cases v) (auto simp: choice_def list_all_iff text_copied split: if_splits)

lemma part_numbers: "list_all member_name keys \<Longrightarrow> part_ok v (numbers v keys)"
  unfolding part_ok_def
proof (intro allI impI ballI, clarify)
  fix kvs k w
  assume keys: "list_all member_name keys" and kvs: "numbers v keys = Inr kvs" "(k, w) \<in> set kvs"
  then obtain k' where "k' \<in> set keys" "number_member v k' = Inr (k, w)"
    using mapE_set [of "number_member v"] unfolding numbers_def by fastforce
  then show "member_name k \<and> (copied w (getp v k) \<or> k = ''completenessClaim'' \<and> w = Bool False)"
    using keys by (auto simp: number_member_def result_simps list_all_iff null_copied report_count_copied split: if_splits)
qed

lemma array_copied:
  assumes "array_of n err f v = Inr w" "\<And>x y. f x = Inr y \<Longrightarrow> copied y x"
  shows "copied w v"
proof -
  obtain xs ys where v: "v = Arr xs" and ys: "mapE f xs = Inr ys" "w = Arr ys"
    using assms(1) by (auto simp: array_of_def result_simps split: if_splits elim!: is_arrE)
  have all: "list_all2 copied ys xs"
    using ys(1) assms(2) by (auto simp: mapE_Inr_iff list_all2_conv_all_nth)
  then have "\<forall>y \<in> set ys. public y" by (auto simp: copied_def list_all2_conv_all_nth in_set_conv_nth)
  moreover have "list_all2 projection ys xs" using all by (rule list_all2_mono) (simp add: copied_def)
  ultimately show ?thesis by (simp add: v ys(2) copied_def public.intros projection.elements)
qed

lemma element_Inr [simp]: "element item m = Inr w \<longleftrightarrow> item \<noteq> Undef \<and> item \<noteq> Null \<and> m = Inr w"
  by (simp add: element_def)

lemma code_copied: "report_code v = Inr w \<Longrightarrow> copied w v"
  by (auto simp: report_code_def published_text_def text_copied split: if_splits elim!: is_strE)

lemma codes_copied: "codes v = Inr w \<Longrightarrow> copied w v"
  using array_copied [of 64 "''invalid-codes''" report_code v w] code_copied
  by (simp add: codes_def array_of_def)

section \<open>Every section is a publishable copy\<close>

lemma part_mapE:
  assumes "\<And>k kv. k \<in> set keys \<Longrightarrow> f k = Inr kv \<Longrightarrow> member_name (fst kv) \<and> copied (snd kv) (getp v (fst kv))"
  shows "part_ok v (mapE f keys)"
  unfolding part_ok_def
proof (intro allI impI ballI, clarify)
  fix kvs k w
  assume "mapE f keys = Inr kvs" "(k, w) \<in> set kvs"
  then obtain x where "x \<in> set keys" "f x = Inr (k, w)" using mapE_set [of f] by metis
  then show "member_name k \<and> (copied w (getp v k) \<or> k = ''completenessClaim'' \<and> w = Bool False)"
    using assms by fastforce
qed

lemma side_counts_copied:
  "side_counts err names v = Inr kvs \<Longrightarrow> list_all member_name names \<Longrightarrow> copied (Obj kvs) v"
proof (rule as_object_copied)
  assume ok: "side_counts err names v = Inr kvs" "list_all member_name names"
  then show "as_object (side_counts err names v) = Inr (Obj kvs)" by (simp add: as_object_def)
  show "part_ok v (side_counts err names v)"
  proof (cases "is_obj v")
    case True
    then show ?thesis unfolding side_counts_def
      by (simp, intro part_mapE) (use ok(2) in \<open>auto simp: list_all_iff bounded_copied split: if_splits\<close>)
  qed (simp add: side_counts_def part_ok_def)
qed

lemma malformed_copied: "sanitizeMalformedFields v = Inr w \<Longrightarrow> copied w v"
  unfolding sanitizeMalformedFields_def
  by (erule object_copied) (auto intro!: part_member simp: result_simps side_counts_copied)

lemma buckets_copied: "sanitizeStatusValueBuckets v = Inr w \<Longrightarrow> copied w v"
  unfolding sanitizeStatusValueBuckets_def
  by (erule object_copied)
    (auto intro!: part_member simp: result_simps side_counts_copied split: if_splits)

lemma transition_copied: "epoch_transition v = Inr w \<Longrightarrow> copied w v"
  unfolding epoch_transition_def element_Inr
  by (auto split: if_splits elim!: object_copied
      intro!: part_member simp: report_count_copied bool_copied simp del: object_of.simps)

lemma observation_copied: "error_observation v = Inr w \<Longrightarrow> copied w v"
  unfolding error_observation_def element_Inr
  by (auto elim!: object_copied intro!: part_member
      simp: report_count_copied choice_copied simp del: object_of.simps)

lemma setup_copied: "setup_observation v = Inr w \<Longrightarrow> copied w v"
  unfolding setup_observation_def element_Inr
  by (auto elim!: object_copied intro!: part_member
      simp: report_count_copied choice_copied simp del: object_of.simps)

lemma numbers_object: "bindE (numbers v keys) (\<lambda>kvs. Inr (Obj kvs)) = Inr w \<Longrightarrow> list_all member_name keys \<Longrightarrow> copied w v"
  using as_object_copied [of "numbers v keys"] part_numbers by (simp add: as_object_def)

lemma numbers_copied: "numbers v keys = Inr kvs \<Longrightarrow> list_all member_name keys \<Longrightarrow> copied (Obj kvs) v"
  by (rule numbers_object) simp_all

lemma lifecycle_copied: "sanitizeLifecycle v = Inr w \<Longrightarrow> copied w v"
  unfolding sanitizeLifecycle_def
  by (erule object_copied)
    (auto intro!: part_member part_member_if part_numbers
      elim: array_copied numbers_object intro: transition_copied observation_copied setup_copied
      simp del: object_of.simps)

lemma comparison_copied: "sanitize_comparison v = Inr w \<Longrightarrow> copied w v"
  unfolding sanitize_comparison_def
  by (erule object_copied)
    (auto intro!: part_member part_member_if part_numbers
      simp: codes_copied choice_copied malformed_copied buckets_copied simp del: object_of.simps)

lemma int_js_copied: "n \<le> 1000000 \<Longrightarrow> copied (int_js n) (int_js n)"
  by (rule bounded_copied [of 10000000]) (auto simp: bounded_integer_def int_js_def max_safe_def)

lemma evidence_member:
  "evidence_count (getp v k) = Inr n \<Longrightarrow> member_name k \<Longrightarrow> part_ok v (Inr [(k, int_js n)])"
  using evidence_count_bound [of "getp v k" n] by (simp add: part_ok_def int_js_copied)

lemma evidence_choice_member:
  "evidence_choice (getp v k) ss = Inr c \<Longrightarrow> member_name k \<Longrightarrow> list_all published_text ss \<Longrightarrow> part_ok v (Inr [(k, Str c)])"
  using evidence_choice_closed [of "getp v k" ss c] by (auto simp: part_ok_def list_all_iff text_copied)

lemma evidence_vocabulary [simp]:
  "list_all published_text eventKinds" "list_all published_text responseStatusBuckets" "list_all published_text extraInfoStates"
  "list_all published_text sessionRelations"
  by (simp_all add: eventKinds_def responseStatusBuckets_def extraInfoStates_def sessionRelations_def published_text_def
      code_text_def all_in_def is_lower_def is_digit_def is_dash_def code_in_def)

lemma parts_object: "\<forall>(k, w) \<in> set kvs. part_ok v (Inr [(k, w)]) \<Longrightarrow> copied (Obj kvs) v"
  by (rule as_object_copied [of "Inr kvs"]) (auto simp: as_object_def part_ok_def)

lemma readp_getp: "readp v k = Inr x \<Longrightarrow> x = getp v k"
  by (auto simp: readp_def split: if_splits)

lemma event_copied: "sanitize_event v = Inr e \<Longrightarrow> copied (scoped_event_js e) v"
  unfolding scoped_event_js_def
  by (rule parts_object)
    (auto simp: sanitize_event_def result_simps dest!: readp_getp
      intro: evidence_member evidence_choice_member)

lemma mapped_array:
  fixes f :: "js \<Rightarrow> js_error + 'b"
  assumes "mapE f xs = Inr ys" "\<And>x y. f x = Inr y \<Longrightarrow> copied (g y) x"
  shows "copied (Arr (map g ys)) (Arr xs)"
  by (rule array_copied [of "length xs" "[]" "\<lambda>x. bindE (f x) (\<lambda>y. Inr (g y))"])
    (use assms in \<open>auto simp: array_of_def result_simps mapE_Inr_iff list_all2_map2 elim!: list_all2_mono\<close>)

lemma hop_copied:
  assumes "sanitize_hop v = Inr h"
  shows "copied (scoped_hop_js h) v"
proof -
  obtain evs xs where evs: "getp v ''events'' = Arr xs" "mapE sanitize_event xs = Inr evs" "sh_events h = evs"
    using assms by (auto simp: sanitize_hop_def result_simps dest!: readp_getp elim!: is_arrE)
  have "part_ok v (Inr [(''events'', Arr (map scoped_event_js (sh_events h)))])"
    using mapped_array [OF evs(2) event_copied] by (simp add: part_ok_def evs)
  then show ?thesis unfolding scoped_hop_js_def using assms
    by (intro parts_object) (auto simp: sanitize_hop_def result_simps intro: evidence_member)
qed

lemma evidence_copied:
  assumes "sanitizeResponseEvidence v = Inr e"
  shows "copied (scoped_evidence_js e) v"
proof -
  obtain hs xs where hs: "getp v ''hops'' = Arr xs" "mapE sanitize_hop xs = Inr hs" "se_hops e = hs"
    using assms by (auto simp: sanitizeResponseEvidence_def result_simps elim!: is_arrE)
  have "part_ok v (Inr [(''hops'', Arr (map scoped_hop_js (se_hops e)))])"
    using mapped_array [OF hs(2) hop_copied] by (simp add: part_ok_def hs)
  moreover have "part_ok v (Inr [(''complete'', Bool (se_complete e))])"
    using assms bool_copied [of "getp v ''complete''"]
    by (auto simp: part_ok_def sanitizeResponseEvidence_def result_simps elim!: is_boolE)
  ultimately show ?thesis unfolding scoped_evidence_js_def using assms
    by (intro parts_object) (auto simp: sanitizeResponseEvidence_def result_simps intro: evidence_member)
qed

definition is_mode :: "string \<Rightarrow> bool" where "is_mode md \<longleftrightarrow> md = ''startup'' \<or> md = ''prearmed''"

lemma operation_id_copied: "operation_id md v = Inr w \<Longrightarrow> is_mode md \<Longrightarrow> copied w v"
  by (auto simp: operation_id_def text_copied is_mode_def published_text_def split: if_splits elim!: is_strE)

lemma operation_copied: "sanitize_operation md v = Inr w \<Longrightarrow> is_mode md \<Longrightarrow> copied w v"
  unfolding sanitize_operation_def element_Inr
  by (auto elim!: object_copied intro!: part_member part_member_if part_numbers
      simp: operation_id_copied numbers_copied result_simps evidence_copied choice_copied malformed_copied buckets_copied
      simp del: object_of.simps)

lemma netlog_operation_copied: "netlog_operation_of md v = Inr w \<Longrightarrow> is_mode md \<Longrightarrow> copied w v"
  unfolding netlog_operation_of_def element_Inr
  by (auto elim!: object_copied intro!: part_member part_numbers
      simp: operation_id_copied choice_copied codes_copied simp del: object_of.simps)

lemma netlog_copied: "sanitize_netlog md v = Inr w \<Longrightarrow> is_mode md \<Longrightarrow> copied w v"
  unfolding sanitize_netlog_def
  by (erule object_copied)
    (auto intro!: part_member part_member_if elim: array_copied intro: netlog_operation_copied
      simp: choice_copied codes_copied simp del: object_of.simps)

section \<open>Values that are tested as text\<close>

text \<open>The documented form of a printed number: at most 30 characters, at most one of them a dot.\<close>

definition number_text_ok :: "(jsnum \<Rightarrow> string) \<Rightarrow> bool" where
  "number_text_ok nt \<longleftrightarrow>
     (\<forall>n. length (nt n) \<le> 30 \<and> length (filter (\<lambda>c. c = CHR ''.'') (nt n)) \<le> 1)"

lemma length_split: "length (split_on c s) = Suc (length (filter (\<lambda>x. x = c) s))"
  by (induction s) (auto split: list.split)

lemma version_shape:
  assumes "version_text t"
  shows "CHR '','' \<notin> set t" "length (filter (\<lambda>x. x = CHR ''.'') t) = 3"
proof -
  obtain a b c d where split: "split_on (CHR ''.'') t = [a, b, c, d]"
    and parts: "all_in is_digit 1 4 a" "all_in is_digit 1 4 b" "all_in is_digit 1 6 c" "all_in is_digit 1 6 d"
    using assms by (auto simp: version_text_def split: list.splits)
  have t: "t = a @ ''.'' @ b @ ''.'' @ c @ ''.'' @ d" using join_split [of "CHR ''.''" t] split by simp
  have comma: "\<not> is_digit (CHR '','')" by (simp add: is_digit_def code_in_def)
  show "CHR '','' \<notin> set t" using parts [THEN all_in_outside, OF comma] unfolding t by simp
  show "length (filter (\<lambda>x. x = CHR ''.'') t) = 3"
    using length_split [of "CHR ''.''" t] split by simp
qed

lemma commit_shape:
  assumes "commit_text t"
  shows "CHR '','' \<notin> set t" "length t = 40"
  using assms all_in_outside [OF assms [unfolded commit_text_def], of "CHR '',''"]
  by (auto simp: commit_text_def code_in_def is_digit_def all_in_def)

lemma pinned_shape:
  assumes "pinned_text t"
  shows "CHR '','' \<notin> set t" "t \<noteq> []"
  using assms commit_shape version_shape by (force simp: pinned_text_def)+

lemma pinned_not_number: "pinned_text t \<Longrightarrow> number_text_ok nt \<Longrightarrow> nt n \<noteq> t"
  using commit_shape(2) [of t] version_shape(2) [of t]
  by (auto simp: pinned_text_def number_text_ok_def dest!: spec [of _ n])

lemma not_pinned [simp]:
  "\<not> pinned_text ''undefined''" "\<not> pinned_text ''null''" "\<not> pinned_text ''true''" "\<not> pinned_text ''false''"
  "\<not> pinned_text ''[object Object]''"
  by (simp_all add: pinned_text_def commit_text_def version_text_def all_in_def)

lemma texts_single:
  assumes "to_texts nt xs = Inr ts" "CHR '','' \<notin> set (join_with '','' ts)" "join_with '','' ts \<noteq> []"
  obtains x where "xs = [x]" "to_text nt x = Inr (join_with '','' ts)"
proof (cases xs)
  case Nil
  then show thesis using assms by simp
next
  case (Cons x ys)
  then obtain t us where ts: "ts = t # us" "to_texts nt ys = Inr us"
    "(if x = Undef \<or> x = Null then Inr [] else to_text nt x) = Inr t"
    using assms(1) by (auto simp: result_simps)
  then have "us = []" using assms(2) by (cases us) auto
  then have "ys = []" using ts(2) by (cases ys) (auto simp: result_simps)
  then show thesis using that ts assms(3) \<open>us = []\<close> Cons by (auto split: if_splits)
qed

lemma pinned_public:
  assumes "to_text nt v = Inr t" "pinned_text t" "number_text_ok nt"
  shows "public v"
  using assms
proof (induction v arbitrary: t)
  case (Arr xs)
  then obtain ts where ts: "to_texts nt xs = Inr ts" "t = join_with '','' ts" by (auto simp: result_simps)
  obtain x where x: "xs = [x]" "to_text nt x = Inr t"
    using texts_single [OF ts(1)] pinned_shape [OF Arr.prems(2)] ts(2) by metis
  then show ?case using Arr by (auto intro: public.intros)
next
  case (Num n)
  then show ?case using pinned_not_number [OF Num.prems(2) Num.prems(3), of n] by simp
next
  case (Str s)
  then show ?case using Str.prems by (simp add: public.intros published_text_def)
next
  case (Bool b)
  then have "pinned_text (if b then ''true'' else ''false'')" by simp
  then show ?case by (simp split: if_splits)
next
  case (Obj kvs)
  then have "pinned_text ''[object Object]''" by (auto split: if_splits)
  then show ?case by simp
qed simp_all

lemma pinned_copied:
  assumes "text_matches nt p v = Inr True" "p = commit_text \<or> p = version_text" "number_text_ok nt"
  shows "copied v v"
  using assms pinned_public by (auto simp: copied_def text_matches_def result_simps pinned_text_def projection.same)

section \<open>The whole report\<close>

lemma version_copied: "browser_version nt v = Inr w \<Longrightarrow> number_text_ok nt \<Longrightarrow> copied w v"
  by (auto simp: browser_version_def result_simps null_copied pinned_copied split: if_splits)

lemma code_or_null_copied: "(if v = Null then Inr Null else report_code v) = Inr w \<Longrightarrow> copied w v"
  by (auto simp: null_copied code_copied split: if_splits)

lemma fixture_copied: "(if is_bool v then Inr v else Inl e) = Inr w \<Longrightarrow> copied w v"
  by (auto simp: bool_copied split: if_splits)

lemma timeline_copied: "as_object (mapE (timeline_member v) startupTimelineKeys) = Inr w \<Longrightarrow> copied w v"
  using member_name_lists(3)
  by (elim as_object_copied)
    (auto intro!: part_mapE simp: timeline_member_def list_all_iff null_copied startupTimelineLimitMs_def
      bounded_copied split: if_splits)

lemma readiness_copied: "as_object (mapE (readiness_member v) captureReadinessEnums) = Inr w \<Longrightarrow> copied w v"
  using member_name_lists(12) published_vocabulary(6)
  by (elim as_object_copied)
    (fastforce intro!: part_mapE simp: readiness_member_def result_simps list_all_iff null_copied choice_copied
      split: if_splits prod.splits)

lemma bodies_copied:
  "object_of [member ''verdict'' (choice (getp v ''verdict'') (verdict_words @ [''unassessed''])), numbers v body_keys] = Inr w
   \<Longrightarrow> copied w v"
  by (erule object_copied)
    (auto intro!: part_member part_numbers simp: choice_copied)

lemma headers_copied:
  "object_of [member ''verdict'' (choice (getp v ''verdict'') [''unassessed''])] = Inr w \<Longrightarrow> copied w v"
  by (erule object_copied) (auto intro!: part_member simp: choice_copied)

lemma numbers_as_object: "as_object (numbers v keys) = Inr w \<Longrightarrow> list_all member_name keys \<Longrightarrow> copied w v"
  by (auto intro: as_object_copied part_numbers)

lemma result_copied:
  assumes "sanitize_result nt i v = Inr w" "number_text_ok nt"
  shows "copied w v"
proof -
  define md where "md = (if i = 0 then ''startup'' else ''prearmed'')"
  have md: "is_mode md" by (simp add: md_def is_mode_def)
  have ops: "\<And>x w. array_of 256 e (sanitize_operation md) x = Inr w \<Longrightarrow> copied w x" for e
    by (erule array_copied) (simp add: operation_copied md)
  have nl: "\<And>x w. sanitize_netlog md x = Inr w \<Longrightarrow> copied w x" by (simp add: netlog_copied md)
  have keys: "list_all member_name [''readinessTransitions'', ''duplicateSessionsRejected'']"
    "list_all published_text [md]" by (simp_all add: md_def)
  have mode: "part_ok v (member ''mode'' (choice (getp v ''mode'') [md]))"
    by (rule part_member) (use choice_copied keys(2) in \<open>auto simp:\<close>)
  show ?thesis
    using assms unfolding sanitize_result_def Let_def md_def [symmetric] element_Inr
    by (elim conjE object_copied)
      (simp add: mode part_member part_member_if part_numbers keys choice_copied code_or_null_copied
        version_copied fixture_copied comparison_copied ops bodies_copied headers_copied timeline_copied
        readiness_copied lifecycle_copied codes_copied numbers_as_object nl del: object_of.simps)
qed

lemma report_shape:
  assumes "sanitizeCaptureReport nt input = Inr w"
  obtains rs ws where "getp input ''schema'' = Str ''reb-capture-completeness-v1''"
    "text_matches nt commit_text (getp input ''rebCommit'') = Inr True"
    "getp input ''results'' = Arr rs" "length rs = 2" "length ws = 2"
    "\<And>i. i < 2 \<Longrightarrow> sanitize_result nt i (rs ! i) = Inr (ws ! i)"
    "w = Obj [(''schema'', Str ''reb-capture-completeness-sanitized-v1''),
       (''rebCommit'', getp input ''rebCommit''), (''completenessClaim'', Bool False), (''results'', Arr ws)]"
proof -
  from assms obtain rs ws where f: "getp input ''schema'' = Str ''reb-capture-completeness-v1''"
    "text_matches nt commit_text (getp input ''rebCommit'') = Inr True" "getp input ''results'' = Arr rs" "length rs = 2"
    and ws: "mapE (\<lambda>(i, r). sanitize_result nt i r) (enumerate 0 rs) = Inr ws"
    and w: "w = Obj [(''schema'', Str ''reb-capture-completeness-sanitized-v1''),
       (''rebCommit'', getp input ''rebCommit''), (''completenessClaim'', Bool False), (''results'', Arr ws)]"
    by (auto simp: sanitizeCaptureReport_def result_simps split: if_splits elim!: is_arrE)
  have "list_all2 (\<lambda>x y. (case x of (i, r) \<Rightarrow> sanitize_result nt i r) = Inr y) (enumerate 0 rs) ws"
    using ws by (simp add: mapE_Inr_iff)
  then have "length ws = 2" "\<And>i. i < 2 \<Longrightarrow> sanitize_result nt i (rs ! i) = Inr (ws ! i)"
    using f(4) by (auto simp: list_all2_conv_all_nth nth_enumerate_eq)
  then show thesis using that f w by blast
qed

text \<open>
  C10. Only closed vocabulary leaves in a sanitized report. Whatever value it is made from, every
  member name in it is one of a fixed list; every string in it is a code (a lower case letter and
  up to 79 lower case letters, digits and hyphens), one of the methods GET, POST and OPTIONS, the
  identifier of an authored operation, a browser version or a commit; and every number is a whole
  number from 0 to 10000000. Text with any other character, such as a URL or a header, cannot be in
  it; a secret that has the form of a code could be.
\<close>

theorem sanitized_report_public:
  assumes "sanitizeCaptureReport nt input = Inr w" and "number_text_ok nt"
  shows "public w"
proof -
  from report_shape [OF assms(1)] obtain rs ws where shape:
    "text_matches nt commit_text (getp input ''rebCommit'') = Inr True" "length rs = 2" "length ws = 2"
    "\<And>i. i < 2 \<Longrightarrow> sanitize_result nt i (rs ! i) = Inr (ws ! i)"
    and w: "w = Obj [(''schema'', Str ''reb-capture-completeness-sanitized-v1''),
       (''rebCommit'', getp input ''rebCommit''), (''completenessClaim'', Bool False), (''results'', Arr ws)]" by metis
  have commit: "public (getp input ''rebCommit'')"
    using pinned_copied [OF shape(1)] assms(2) by (simp add: copied_def)
  have "public x" if "x \<in> set ws" for x
  proof -
    from that obtain i where i: "i < 2" "x = ws ! i" using shape(3) by (auto simp: in_set_conv_nth)
    from result_copied [OF shape(4) [OF i(1)] assms(2)] show ?thesis by (simp add: i(2) copied_def)
  qed
  then have "public (Arr ws)" by (simp add: public.intros)
  with commit show ?thesis unfolding w
    by (intro public.intros(6)) (auto simp: intro: public.intros)
qed

text \<open>The value at a path, and the values that are not containers.\<close>

datatype path_step = Key string | Index nat

fun value_at :: "js \<Rightarrow> path_step list \<Rightarrow> js" where
  "value_at v [] = v"
| "value_at v (Key k # p) = value_at (getp v k) p"
| "value_at v (Index i # p) = (case v of Arr xs \<Rightarrow> if i < length xs then value_at (xs ! i) p else Undef | _ \<Rightarrow> Undef)"

fun is_leaf :: "js \<Rightarrow> bool" where
  "is_leaf Null = True"
| "is_leaf (Bool b) = True"
| "is_leaf (Num n) = True"
| "is_leaf (Str s) = True"
| "is_leaf v = False"

lemma value_at_Undef [simp]: "value_at Undef p = Undef"
  by (induction p rule: value_at.induct [of "\<lambda>v p. v = Undef \<longrightarrow> value_at v p = Undef", THEN mp]) auto

lemma leaf_atomic: "is_leaf (value_at v q) \<Longrightarrow> is_leaf v \<Longrightarrow> q = []"
  by (cases "(v, q)" rule: value_at.cases; cases v) auto

definition claim_path :: "path_step list \<Rightarrow> bool" where
  "claim_path p \<longleftrightarrow> p \<noteq> [] \<and> last p = Key ''completenessClaim''"

lemma projection_leaf:
  "projection w v \<Longrightarrow> is_leaf (value_at w p) \<Longrightarrow>
     value_at v p = value_at w p \<or> claim_path p \<and> value_at w p = Bool False"
proof (induction w v arbitrary: p rule: projection.induct)
  case (elements xs ys)
  show ?case
  proof (cases p)
    case (Cons st q)
    then obtain i where i: "st = Index i" "i < length xs" "is_leaf (value_at (xs ! i) q)"
      using elements.prems by (cases st) (auto split: if_splits)
    then show ?thesis using elements.IH Cons by (fastforce simp: list_all2_conv_all_nth claim_path_def)
  qed (use elements.prems in simp)
next
  case (members kvs v)
  show ?case
  proof (cases p)
    case (Cons st q)
    then obtain k where k: "st = Key k" "is_leaf (value_at (getp (Obj kvs) k) q)" using members.prems by (cases st) auto
    then obtain w where w: "map_of kvs k = Some w" by (cases "map_of kvs k") auto
    have kw: "(k, w) \<in> set kvs" using w by (rule map_of_SomeD)
    consider "k = ''completenessClaim''" "w = Bool False" | "\<forall>q. is_leaf (value_at w q) \<longrightarrow>
        value_at (getp v k) q = value_at w q \<or> claim_path q \<and> value_at w q = Bool False"
      using members.IH kw by blast
    then show ?thesis
    proof cases
      case 1
      then have "q = []" using k w by (cases q rule: value_at.cases [of "(Bool False, q)" for q]) auto
      then show ?thesis using 1 Cons k w by (simp add: claim_path_def)
    next
      case 2
      then show ?thesis using Cons k w by (auto simp: claim_path_def)
    qed
  qed (use members.prems in simp)
qed simp

text \<open>
  C11. The sanitizer invents no content. Every string, number, boolean or null in a sanitized
  report is the one the input has at the same path, except for the schema name and the constant
  \<open>completenessClaim: false\<close>; objects may be published empty where the input has nothing. The commit
  is the input's, and the report never claims completeness.
\<close>

theorem sanitized_report_projects:
  assumes "sanitizeCaptureReport nt input = Inr w" and "number_text_ok nt" and "is_leaf (value_at w p)"
  shows "(value_at w p = value_at input p \<or> p = [Key ''schema''] \<or> claim_path p \<and> value_at w p = Bool False) \<and>
    getp w ''rebCommit'' = getp input ''rebCommit'' \<and> getp w ''completenessClaim'' = Bool False"
proof -
  from report_shape [OF assms(1)] obtain rs ws where shape:
    "getp input ''results'' = Arr rs" "length rs = 2" "length ws = 2"
    "\<And>i. i < 2 \<Longrightarrow> sanitize_result nt i (rs ! i) = Inr (ws ! i)"
    and w: "w = Obj [(''schema'', Str ''reb-capture-completeness-sanitized-v1''),
       (''rebCommit'', getp input ''rebCommit''), (''completenessClaim'', Bool False), (''results'', Arr ws)]" by metis
  have "list_all2 projection ws rs"
    using result_copied [OF shape(4) assms(2)] shape(2,3) by (simp add: list_all2_conv_all_nth copied_def)
  then have results: "projection (Arr ws) (getp input ''results'')" by (simp add: shape(1) projection.elements)
  obtain k q where p: "p = Key k # q" using assms(3) w by (cases p rule: value_at.cases [of "(w, p)" for p]) auto
  consider "k = ''schema''" | "k = ''rebCommit''" | "k = ''completenessClaim''" | "k = ''results''"
    using assms(3) by (auto simp: p w split: if_splits)
  then show ?thesis
  proof cases
    case 4
    then show ?thesis using projection_leaf [OF results, of q] assms(3) by (auto simp: p w claim_path_def)
  qed (use assms(3) leaf_atomic [of "Bool False" q] leaf_atomic [of "Str _" q] in \<open>auto simp: p w claim_path_def\<close>)
qed

definition demo_commit :: string where
  "demo_commit = ''0123456789abcdef0123456789abcdef01234567''"

definition demo_result :: "string \<Rightarrow> js" where
  "demo_result md = Obj [(''mode'', Str md), (''verdict'', Str ''pass''), (''errorCode'', Null), (''secret'', Str ''x=1'')]"

definition demo_report :: "js \<Rightarrow> js" where
  "demo_report commit = Obj [(''schema'', Str ''reb-capture-completeness-v1''), (''rebCommit'', commit),
     (''results'', Arr [demo_result ''startup'', demo_result ''prearmed''])]"

definition published_result :: "string \<Rightarrow> js" where
  "published_result md = Obj [(''mode'', Str md), (''verdict'', Str ''pass''), (''errorCode'', Null)]"

definition published_report :: "js \<Rightarrow> js" where
  "published_report commit = Obj [(''schema'', Str ''reb-capture-completeness-sanitized-v1''), (''rebCommit'', commit),
     (''completenessClaim'', Bool False), (''results'', Arr [published_result ''startup'', published_result ''prearmed''])]"

lemma demo_result_ok:
  "sanitize_result nt 0 (demo_result ''startup'') = Inr (published_result ''startup'')"
  "sanitize_result nt (Suc 0) (demo_result ''prearmed'') = Inr (published_result ''prearmed'')"
  by (simp_all add: sanitize_result_def demo_result_def published_result_def choice_def member_def member_if_def
      verdict_words_def numbers_def)

lemma demo_report_ok:
  assumes "text_matches nt commit_text commit = Inr True"
  shows "sanitizeCaptureReport nt (demo_report commit) = Inr (published_report commit)"
  using assms by (simp add: sanitizeCaptureReport_def demo_report_def published_report_def demo_result_ok)

lemma demo_commit_ok: "text_matches nt commit_text (Str demo_commit) = Inr True"
  by (simp add: text_matches_def demo_commit_def commit_text_def all_in_def code_in_def is_digit_def)

text \<open>\<open>RegExp.test\<close> converts its argument, so a commit wrapped in an array passes and is published as an array.\<close>

lemma commit_array_accepted:
  "sanitizeCaptureReport nt (demo_report (Arr [Str demo_commit])) = Inr (published_report (Arr [Str demo_commit]))"
  by (rule demo_report_ok) (use demo_commit_ok [of nt] in \<open>simp add: text_matches_def\<close>)

theorem sanitized_report_public_witness: "public (published_report (Str demo_commit))"
  by (rule sanitized_report_public [OF demo_report_ok [OF demo_commit_ok], of "\<lambda>_. ''0''"])
    (simp add: number_text_ok_def)

theorem sanitized_report_projects_witness:
  "value_at (demo_report (Str demo_commit)) [Key ''results'', Index 1, Key ''verdict''] = Str ''pass''"
  using sanitized_report_projects [OF demo_report_ok [OF demo_commit_ok], of "\<lambda>_. ''0''" "[Key ''results'', Index 1, Key ''verdict'']"]
  by (simp add: number_text_ok_def published_report_def published_result_def claim_path_def)

end
