(* ===== verification/SourceText.thy ===== *)
theory SourceText
  imports "HOL-Library.Word" Prelude
begin

text \<open>
  Source texts as the language has them: sequences of 16-bit code units. Searching, the
  white space class, and backtracking regular expressions with the language's priorities,
  for the sticky patterns of \<open>apps/research-ui/source_syntax.js\<close>.
\<close>

section \<open>Code units\<close>

type_synonym cu = "16 word"
type_synonym cus = "cu list"

definition cu_of :: "char \<Rightarrow> cu" where
  "cu_of c = word_of_nat (of_char c)"

definition us :: "string \<Rightarrow> cus" where
  "us s = map cu_of s"

definition newline :: cu where "newline = 10"

text \<open>\<open>value[i]\<close>, \<open>None\<close> standing for \<open>undefined\<close>.\<close>

definition unit_at :: "cus \<Rightarrow> nat \<Rightarrow> cu option" where
  "unit_at xs i = (if i < length xs then Some (xs ! i) else None)"

definition at_is :: "cus \<Rightarrow> nat \<Rightarrow> (cu \<Rightarrow> bool) \<Rightarrow> bool" where
  "at_is xs i p = (i < length xs \<and> p (xs ! i))"

text \<open>\<open>value.startsWith(pattern, i)\<close> and \<open>value.indexOf(pattern, i)\<close>, \<open>None\<close> for \<open>-1\<close>.\<close>

definition starts_at :: "cus \<Rightarrow> cus \<Rightarrow> nat \<Rightarrow> bool" where
  "starts_at pat xs i = prefix pat (drop i xs)"

definition index_of :: "cus \<Rightarrow> cus \<Rightarrow> nat \<Rightarrow> nat option" where
  "index_of pat xs i = find (starts_at pat xs) [i..<Suc (length xs)]"

lemma index_of_Some:
  "index_of pat xs i = Some j \<Longrightarrow> i \<le> j \<and> j + length pat \<le> length xs \<and> starts_at pat xs j"
proof -
  assume "index_of pat xs i = Some j"
  then have "j \<in> set [i..<Suc (length xs)]" "starts_at pat xs j"
    unfolding index_of_def by (metis find_Some_iff nth_mem)+
  then have j: "i \<le> j" "j \<le> length xs" "starts_at pat xs j" by auto
  then have "length pat \<le> length xs - j" using prefix_length_le [of pat "drop j xs"] by (simp add: starts_at_def)
  with j show ?thesis by simp
qed

definition in_range :: "nat \<Rightarrow> nat \<Rightarrow> cu \<Rightarrow> bool" where
  "in_range lo hi c = (lo \<le> unat c \<and> unat c \<le> hi)"

text \<open>The class \<open>\s\<close>.\<close>

definition is_space :: "cu \<Rightarrow> bool" where
  "is_space c =
     (in_range 9 13 c \<or> c = 32 \<or> c = 160 \<or> c = 0x1680 \<or> in_range 0x2000 0x200A c \<or> c = 0x2028 \<or> c = 0x2029 \<or>
      c = 0x202F \<or> c = 0x205F \<or> c = 0x3000 \<or> c = 0xFEFF)"

definition cu_digit :: "cu \<Rightarrow> bool" where "cu_digit c = in_range 48 57 c"
definition cu_letter :: "cu \<Rightarrow> bool" where "cu_letter c = (in_range 65 90 c \<or> in_range 97 122 c)"
definition cu_hex :: "cu \<Rightarrow> bool" where "cu_hex c = (cu_digit c \<or> in_range 65 70 c \<or> in_range 97 102 c)"

text \<open>The class \<open>\w\<close>.\<close>

definition cu_word :: "cu \<Rightarrow> bool" where "cu_word c = (cu_letter c \<or> cu_digit c \<or> c = 95)"

definition one_of_cu :: "string \<Rightarrow> cu \<Rightarrow> bool" where "one_of_cu s c = (c \<in> set (us s))"

section \<open>Regular expressions\<close>

text \<open>
  A pattern at an index yields the possible end positions in the order the backtracking
  matcher tries them: an alternative from left to right, a greedy repetition longest first.
  An iteration that consumes nothing ends a repetition.
\<close>

datatype re =
    Cls "cu \<Rightarrow> bool"
  | Eps
  | Seq re re
  | Alt re re
  | Star re
  | Test "cus \<Rightarrow> nat \<Rightarrow> bool"

function ends :: "re \<Rightarrow> cus \<Rightarrow> nat \<Rightarrow> nat list" where
  "ends (Cls p) xs i = (if at_is xs i p then [Suc i] else [])"
| "ends Eps xs i = [i]"
| "ends (Seq r s) xs i = concat (map (ends s xs) (ends r xs i))"
| "ends (Alt r s) xs i = ends r xs i @ ends s xs i"
| "ends (Star r) xs i =
     concat (map (\<lambda>j. if i < j \<and> j \<le> length xs then ends (Star r) xs j else []) (ends r xs i)) @ [i]"
| "ends (Test b) xs i = (if b xs i then [i] else [])"
  by pat_completeness auto
termination
  by (relation "measures [\<lambda>(r, xs, i). size r, \<lambda>(r, xs, i). Suc (length xs) - i]") auto

declare ends.simps(5) [simp del]

text \<open>\<open>pattern.exec(value)?.[0]\<close> of a sticky pattern, as the end of the match.\<close>

definition match_end :: "re \<Rightarrow> cus \<Rightarrow> nat \<Rightarrow> nat option" where
  "match_end r xs i = (case ends r xs i of [] \<Rightarrow> None | j # js \<Rightarrow> Some j)"

definition chr :: "char \<Rightarrow> re" where "chr c = Cls (\<lambda>x. x = cu_of c)"
definition opt :: "re \<Rightarrow> re" where "opt r = Alt r Eps"
definition plus :: "re \<Rightarrow> re" where "plus r = Seq r (Star r)"

fun seqs :: "re list \<Rightarrow> re" where
  "seqs [] = Eps"
| "seqs [r] = r"
| "seqs (r # rs) = Seq r (seqs rs)"

fun alts :: "re list \<Rightarrow> re" where
  "alts [] = Test (\<lambda>_ _. False)"
| "alts [r] = r"
| "alts (r # rs) = Alt r (alts rs)"

definition lit :: "string \<Rightarrow> re" where "lit s = seqs (map chr s)"

text \<open>\<open>r{n}\<close> and the greedy \<open>r{n,m}\<close>.\<close>

definition rep_exact :: "nat \<Rightarrow> re \<Rightarrow> re" where "rep_exact n r = seqs (replicate n r)"

fun up_to :: "nat \<Rightarrow> re \<Rightarrow> re" where
  "up_to 0 r = Eps"
| "up_to (Suc n) r = opt (Seq r (up_to n r))"

text \<open>\<open>\b\<close>, \<open>$\<close> and a lookahead.\<close>

definition word_boundary :: re where
  "word_boundary = Test (\<lambda>xs i. at_is xs i cu_word \<noteq> (0 < i \<and> at_is xs (i - 1) cu_word))"

definition end_of_text :: re where "end_of_text = Test (\<lambda>xs i. length xs \<le> i)"

definition followed_by :: "re \<Rightarrow> re" where "followed_by r = Test (\<lambda>xs i. ends r xs i \<noteq> [])"

lemma set_ends_Seq: "j \<in> set (ends (Seq r s) xs i) \<longleftrightarrow> (\<exists>k. k \<in> set (ends r xs i) \<and> j \<in> set (ends s xs k))"
  by auto

lemma set_ends_Star:
  "j \<in> set (ends (Star r) xs i) \<longleftrightarrow>
     j = i \<or> (\<exists>k. k \<in> set (ends r xs i) \<and> i < k \<and> k \<le> length xs \<and> j \<in> set (ends (Star r) xs k))"
  by (subst ends.simps(5)) (auto split: if_splits)

lemma ends_bounds: "j \<in> set (ends r xs i) \<Longrightarrow> i \<le> length xs \<Longrightarrow> i \<le> j \<and> j \<le> length xs"
proof (induction r xs i arbitrary: j rule: ends.induct)
  case (3 r s xs i)
  obtain k where k: "k \<in> set (ends r xs i)" "j \<in> set (ends s xs k)"
    using 3(3) unfolding set_ends_Seq by blast
  have "i \<le> k \<and> k \<le> length xs" by (rule 3(1) [OF k(1) 3(4)])
  then show ?case using 3(2) [OF k(1) k(2)] by linarith
next
  case (5 r xs i)
  show ?case
  proof (cases "j = i")
    case True
    then show ?thesis using 5(4) by simp
  next
    case False
    then obtain k where k: "k \<in> set (ends r xs i)" "i < k" "k \<le> length xs" "j \<in> set (ends (Star r) xs k)"
      using 5(3) set_ends_Star [of j r xs i] by blast
    then show ?thesis using 5(2) [OF k(1) _ k(4)] by simp
  qed
qed (auto simp: at_is_def split: if_splits)

lemma match_end_bounds: "match_end r xs i = Some j \<Longrightarrow> i \<le> length xs \<Longrightarrow> i \<le> j \<and> j \<le> length xs"
  using ends_bounds [of j r xs i] by (auto simp: match_end_def split: list.splits)

text \<open>A pattern that never matches the empty text.\<close>

fun consumes :: "re \<Rightarrow> bool" where
  "consumes (Cls p) = True"
| "consumes (Seq r s) = (consumes r \<or> consumes s)"
| "consumes (Alt r s) = (consumes r \<and> consumes s)"
| "consumes _ = False"

lemma ends_consumes: "j \<in> set (ends r xs i) \<Longrightarrow> i \<le> length xs \<Longrightarrow> consumes r \<Longrightarrow> i < j"
proof (induction r arbitrary: i j)
  case (Seq r s)
  obtain k where k: "k \<in> set (ends r xs i)" "j \<in> set (ends s xs k)"
    using Seq(3) unfolding set_ends_Seq by blast
  have "i \<le> k" "k \<le> length xs" "k \<le> j"
    using ends_bounds [OF k(1) Seq(4)] ends_bounds [OF k(2)] by auto
  then show ?case using Seq(1) [OF k(1) Seq(4)] Seq(2) [OF k(2)] Seq(5) by auto
qed (auto split: if_splits)

lemma match_end_consumes: "match_end r xs i = Some j \<Longrightarrow> i \<le> length xs \<Longrightarrow> consumes r \<Longrightarrow> i < j"
  using ends_consumes [of j r xs i] by (auto simp: match_end_def split: list.splits)

section \<open>Scanning\<close>

text \<open>The character at an index, and the end of a run of units of one class.\<close>

definition here :: "cus \<Rightarrow> nat \<Rightarrow> char \<Rightarrow> bool" where
  "here xs i c = at_is xs i (\<lambda>x. x = cu_of c)"

definition scan_while :: "(cu \<Rightarrow> bool) \<Rightarrow> cus \<Rightarrow> nat \<Rightarrow> nat" where
  "scan_while p xs i = i + length (takeWhile p (drop i xs))"

lemma scan_while_ge: "i \<le> scan_while p xs i"
  by (simp add: scan_while_def)

lemma scan_while_le: "i \<le> length xs \<Longrightarrow> scan_while p xs i \<le> length xs"
  using length_takeWhile_le [of p "drop i xs"] by (simp add: scan_while_def)

lemma scan_while_less: "at_is xs i p \<Longrightarrow> i < scan_while p xs i"
  by (simp add: scan_while_def at_is_def Cons_nth_drop_Suc [symmetric])

lemma scan_while_all:
  assumes "i \<le> k" "k < scan_while p xs i"
  shows "p (xs ! k)"
proof -
  define n where "n = k - i"
  have n: "n < length (takeWhile p (drop i xs))" using assms by (simp add: n_def scan_while_def)
  then have "i + n < length xs" using length_takeWhile_le [of p "drop i xs"] by simp
  moreover have "p (takeWhile p (drop i xs) ! n)" using n by (meson nth_mem set_takeWhileD)
  ultimately show ?thesis using n assms(1) by (simp add: takeWhile_nth n_def)
qed

text \<open>\<open>indexOf(pattern, i)\<close> with the end of the text for \<open>-1\<close>, and the end of the pattern found.\<close>

definition close_after :: "string \<Rightarrow> cus \<Rightarrow> nat \<Rightarrow> nat" where
  "close_after pat xs i =
     (case index_of (us pat) xs i of None \<Rightarrow> length xs | Some p \<Rightarrow> p + length pat)"

lemma length_us [simp]: "length (us s) = length s"
  by (simp add: us_def)

lemma close_after_bounds: "i \<le> length xs \<Longrightarrow> i \<le> close_after pat xs i \<and> close_after pat xs i \<le> length xs"
  by (auto simp: close_after_def split: option.splits dest: index_of_Some)

text \<open>The unfoldings that evaluate the classes and tests above on a concrete text.\<close>

lemmas text_evals = at_is_def here_def cu_of_def in_range_def is_space_def cu_letter_def cu_digit_def cu_hex_def
  cu_word_def one_of_cu_def starts_at_def us_def scan_while_def slice_def

section \<open>Line breaks\<close>

text \<open>\<open>text.indexOf('\n', i)\<close>.\<close>

definition next_newline :: "cus \<Rightarrow> nat \<Rightarrow> nat option" where
  "next_newline xs i = find_from (\<lambda>c. c = newline) xs i"

lemma next_newline_index_of: "next_newline xs i = index_of [newline] xs i"
proof -
  have p: "starts_at [newline] xs k \<longleftrightarrow> k < length xs \<and> xs ! k = newline" for k
    by (cases "k < length xs") (auto simp: starts_at_def Cons_nth_drop_Suc [symmetric])
  show ?thesis
  proof (cases "index_of [newline] xs i")
    case None
    then have "\<forall>k. i \<le> k \<and> k < length xs \<longrightarrow> xs ! k \<noteq> newline"
      unfolding index_of_def find_None_iff by (auto simp: p)
    then show ?thesis by (simp add: None next_newline_def find_from_None)
  next
    case (Some j)
    then obtain m where m: "m < length [i..<Suc (length xs)]" "starts_at [newline] xs ([i..<Suc (length xs)] ! m)"
      "j = [i..<Suc (length xs)] ! m" "\<forall>k<m. \<not> starts_at [newline] xs ([i..<Suc (length xs)] ! k)"
      unfolding index_of_def find_Some_iff by blast
    then have j: "j = i + m" by (simp only: length_upt nth_upt less_diff_conv2 add.commute)
    have le: "j < length xs" "xs ! j = newline" using m(2,3) p [of j] by auto
    have "xs ! k \<noteq> newline" if "i \<le> k" "k < j" for k
    proof -
      have "k - i < m" using j that by simp
      then have "\<not> starts_at [newline] xs ([i..<Suc (length xs)] ! (k - i))" using m(4) by blast
      moreover have "[i..<Suc (length xs)] ! (k - i) = k" using that le(1) by (simp only: nth_upt)
      ultimately show ?thesis using p [of k] that le(1) by simp
    qed
    then show ?thesis using j le by (simp add: Some next_newline_def find_from_Some)
  qed
qed

lemma next_newline_Some: "next_newline xs i = Some j \<longleftrightarrow>
    i \<le> j \<and> j < length xs \<and> xs ! j = newline \<and> (\<forall>k. i \<le> k \<and> k < j \<longrightarrow> xs ! k \<noteq> newline)"
  by (simp add: next_newline_def find_from_Some)

lemma next_newline_None: "next_newline xs i = None \<longleftrightarrow> (\<forall>k. i \<le> k \<and> k < length xs \<longrightarrow> xs ! k \<noteq> newline)"
  by (simp add: next_newline_def find_from_None)

text \<open>The offsets where the lines of the first \<open>n\<close> units begin.\<close>

definition newlines :: "cus \<Rightarrow> nat \<Rightarrow> nat list" where
  "newlines xs n = filter (\<lambda>p. xs ! p = newline) [0..<n]"

definition line_starts :: "cus \<Rightarrow> nat \<Rightarrow> nat list" where
  "line_starts xs n = 0 # map Suc (newlines xs n)"

lemma newlines_sorted: "sorted_wrt (<) (newlines xs n)"
  unfolding newlines_def by (rule sorted_wrt_filter) simp

lemma line_starts_sorted: "sorted_wrt (<) (line_starts xs n)"
  using newlines_sorted [of xs n] by (simp add: line_starts_def sorted_wrt_map)

lemma length_line_starts: "length (line_starts xs n) = Suc (length (newlines xs n))"
  by (simp add: line_starts_def)

lemma newlines_nth: "k < length (newlines xs n) \<Longrightarrow> newlines xs n ! k < n \<and> xs ! (newlines xs n ! k) = newline"
  using nth_mem [of k "newlines xs n"] by (simp add: newlines_def)

lemma newlines_length_le: "length (newlines xs n) \<le> n"
  unfolding newlines_def by (metis diff_zero length_filter_le length_upt)

lemma line_starts_Suc: "k < length (newlines xs n) \<Longrightarrow> line_starts xs n ! Suc k = Suc (newlines xs n ! k)"
  by (simp add: line_starts_def)

lemma line_starts_0: "line_starts xs n ! 0 = 0"
  by (simp add: line_starts_def)

lemma line_starts_le: "k < length (line_starts xs n) \<Longrightarrow> line_starts xs n ! k \<le> n"
  using newlines_nth [of "k - 1" xs n] by (cases k) (auto simp: line_starts_def Suc_le_eq)

lemma newline_between:
  assumes "p < n" "xs ! p = newline" "k \<le> length (newlines xs n)" "line_starts xs n ! k \<le> p"
  shows "k < length (newlines xs n) \<and> newlines xs n ! k \<le> p"
proof -
  have "p \<in> set (newlines xs n)" using assms by (simp add: newlines_def)
  then obtain m where m: "m < length (newlines xs n)" "newlines xs n ! m = p" by (meson in_set_conv_nth)
  have "k \<le> m"
  proof (rule ccontr)
    assume "\<not> k \<le> m"
    then obtain k' where k': "k = Suc k'" "m \<le> k'" by (cases k) auto
    then have "newlines xs n ! m \<le> newlines xs n ! k'"
      using newlines_sorted [of xs n] assms(3) by (cases "m = k'") (auto simp: sorted_wrt_iff_nth_less less_imp_le)
    then show False using m assms(3,4) k' by (simp add: line_starts_Suc)
  qed
  then have "newlines xs n ! k \<le> newlines xs n ! m"
    using newlines_sorted [of xs n] m(1) by (cases "m = k") (auto simp: sorted_wrt_iff_nth_less less_imp_le)
  then show ?thesis using m \<open>k \<le> m\<close> by simp
qed

lemma line_start_le_newline:
  "k < length (newlines xs n) \<Longrightarrow> line_starts xs n ! k \<le> newlines xs n ! k"
  using sorted_wrt_nth_less [OF line_starts_sorted, of k "Suc k" xs n] line_starts_Suc [of k xs n]
  by (simp add: length_line_starts)

text \<open>The scan from the start of a line finds that line's break, if the text has one.\<close>

lemma next_newline_line:
  assumes n: "n \<le> length xs" and k: "k < length (newlines xs n)"
  shows "next_newline xs (line_starts xs n ! k) = Some (newlines xs n ! k)"
proof -
  have "xs ! p \<noteq> newline" if "line_starts xs n ! k \<le> p" "p < newlines xs n ! k" for p
    using newline_between [of p n xs k] newlines_nth [OF k] that k by auto
  then show ?thesis
    using newlines_nth [OF k] n line_start_le_newline [OF k] by (auto simp: next_newline_Some)
qed

lemma next_newline_last:
  assumes "next_newline xs (line_starts xs n ! length (newlines xs n)) = Some p"
  shows "n \<le> p"
  using newline_between [of p n xs "length (newlines xs n)"] assms
  by (auto simp: next_newline_Some not_le [symmetric])

text \<open>The line of an offset: the number of line starts at or before it, less one.\<close>

definition line_at :: "cus \<Rightarrow> nat \<Rightarrow> nat \<Rightarrow> nat" where
  "line_at xs n p = length (filter (\<lambda>q. q < p) (newlines xs n))"

lemma less_length_filter_sorted:
  "sorted_wrt (<) L \<Longrightarrow> j < length (filter (\<lambda>q. q < p) L) \<longleftrightarrow> j < length L \<and> L ! j < p" for p :: nat
proof (induction L arbitrary: j)
  case (Cons x L)
  show ?case
  proof (cases "x < p")
    case True
    then show ?thesis using Cons by (cases j) auto
  next
    case False
    then have "filter (\<lambda>q. q < p) L = []" using Cons(2) by (auto simp: filter_empty_conv)
    moreover have "p \<le> (x # L) ! j" if "j < Suc (length L)"
      using that False Cons(2) by (cases j) (auto dest!: nth_mem)
    ultimately show ?thesis using False by (simp add: not_less) (meson not_less)
  qed
qed simp

lemma less_line_at: "j < line_at xs n p \<longleftrightarrow> Suc j < length (line_starts xs n) \<and> line_starts xs n ! Suc j \<le> p"
  unfolding line_at_def less_length_filter_sorted [OF newlines_sorted]
  by (auto simp: length_line_starts line_starts_Suc)

lemma line_at_less: "line_at xs n p < length (line_starts xs n)"
  using less_line_at [of "line_at xs n p - 1" xs n p] by (cases "line_at xs n p") (auto simp: length_line_starts)

lemma line_at_start: "line_starts xs n ! line_at xs n p \<le> p"
  using less_line_at [of "line_at xs n p - 1" xs n p] by (cases "line_at xs n p") (auto simp: line_starts_0)

lemma line_at_next: "Suc (line_at xs n p) < length (line_starts xs n) \<Longrightarrow> p < line_starts xs n ! Suc (line_at xs n p)"
  using less_line_at [of "line_at xs n p" xs n p] by simp

lemma line_at_unique:
  assumes "k < length (line_starts xs n)" "line_starts xs n ! k \<le> p"
    "Suc k < length (line_starts xs n) \<Longrightarrow> p < line_starts xs n ! Suc k"
  shows "line_at xs n p = k"
proof (rule antisym)
  show "k \<le> line_at xs n p"
    using less_line_at [of "k - 1" xs n p] assms(1,2) by (cases k) auto
  show "line_at xs n p \<le> k"
    using less_line_at [of k xs n p] assms(3) by (auto simp: not_less [symmetric])
qed

lemma count_newlines: "p \<le> length xs \<Longrightarrow> count_list (take p xs) newline = length (newlines xs p)"
proof (induction p)
  case (Suc p)
  then have "take (Suc p) xs = take p xs @ [xs ! p]" by (simp add: take_Suc_conv_app_nth)
  then show ?case using Suc by (simp add: newlines_def)
qed (simp add: newlines_def)

lemma line_at_count: "p \<le> n \<Longrightarrow> n \<le> length xs \<Longrightarrow> line_at xs n p = count_list (take p xs) newline"
proof -
  assume p: "p \<le> n" "n \<le> length xs"
  have "filter (\<lambda>q. q < p) (newlines xs n) = newlines xs p" if "p \<le> n" for n
  proof -
    have "[0..<n] = [0..<p] @ [p..<n]" using that by (metis le_add_diff_inverse upt_add_eq_append zero_le)
    then show ?thesis by (auto simp: newlines_def filter_empty_conv intro!: filter_cong)
  qed
  from this [OF p(1)] show ?thesis using p by (simp add: line_at_def count_newlines)
qed

lemma takeWhile_rev_take:
  assumes "s \<le> p" "p \<le> length xs" "\<forall>k. s \<le> k \<and> k < p \<longrightarrow> P (xs ! k)" "0 < s \<Longrightarrow> \<not> P (xs ! (s - 1))"
  shows "length (takeWhile P (rev (take p xs))) = p - s"
proof -
  have "take p xs = take s xs @ slice s p xs"
    using assms(1) by (simp add: slice_def) (metis le_add_diff_inverse take_add)
  moreover have "\<forall>x \<in> set (slice s p xs). P x"
    using assms(1,2,3) by (auto simp: in_set_conv_nth slice_nth less_diff_conv)
  moreover have "takeWhile P (rev (take s xs)) = []"
    using assms by (cases s) (simp_all add: take_Suc_conv_app_nth)
  moreover have "takeWhile P (rev (slice s p xs) @ ys) = rev (slice s p xs) @ takeWhile P ys"
    if "\<forall>x \<in> set (slice s p xs). P x" for ys
    using that by (intro takeWhile_append2) simp
  ultimately show ?thesis using assms(2) by simp
qed

lemma line_at_column:
  assumes "p \<le> n" "n \<le> length xs"
  shows "p - line_starts xs n ! line_at xs n p = length (takeWhile (\<lambda>c. c \<noteq> newline) (rev (take p xs)))"
proof (rule takeWhile_rev_take [symmetric])
  let ?s = "line_starts xs n ! line_at xs n p"
  show "?s \<le> p" by (rule line_at_start)
  show "p \<le> length xs" using assms by simp
  show "\<forall>k. ?s \<le> k \<and> k < p \<longrightarrow> xs ! k \<noteq> newline"
  proof (intro allI impI notI)
    fix k assume k: "?s \<le> k \<and> k < p" "xs ! k = newline"
    have "k < n" using k assms by linarith
    then have "line_at xs n p < length (newlines xs n) \<and> newlines xs n ! line_at xs n p \<le> k"
      using newline_between [of k "n" xs "line_at xs n p"] k line_at_less [of xs n p]
      by (simp add: length_line_starts del: min_less_iff_conj)
    then show False using line_at_next [of xs n p] k by (simp add: length_line_starts line_starts_Suc)
  qed
  show "\<not> xs ! (?s - 1) \<noteq> newline" if "0 < ?s"
  proof (cases "line_at xs n p")
    case (Suc k)
    then have "k < length (newlines xs n)" using line_at_less [of xs n p] by (simp add: length_line_starts)
    then show ?thesis using newlines_nth [of k xs "n"] Suc by (simp add: line_starts_Suc)
  qed (use that in \<open>simp add: line_starts_0\<close>)
qed

section \<open>Binary searches\<close>

text \<open>The loop \<open>middle = ceil((low + high) / 2)\<close>: the last index where an initial property holds.\<close>

function search_last :: "(nat \<Rightarrow> bool) \<Rightarrow> nat \<Rightarrow> nat \<Rightarrow> nat" where
  "search_last p low high =
     (if low < high
      then let middle = (low + high + 1) div 2 in
        if p middle then search_last p middle high else search_last p low (middle - 1)
      else low)"
  by pat_completeness auto
termination by (relation "measure (\<lambda>(p, low, high). high - low)") auto

declare search_last.simps [simp del]

lemma search_last_spec:
  assumes "low \<le> high" "p low" "\<forall>i j. i \<le> j \<and> j \<le> high \<and> p j \<longrightarrow> p i"
  shows "low \<le> search_last p low high \<and> search_last p low high \<le> high \<and> p (search_last p low high) \<and>
    (\<forall>k. search_last p low high < k \<and> k \<le> high \<longrightarrow> \<not> p k)"
  using assms
proof (induction p low high rule: search_last.induct)
  case (1 p low high)
  define m where "m = (low + high + 1) div 2"
  consider "low = high" | "low < high" "p m" | "low < high" "\<not> p m" using 1(3) by linarith
  then show ?case
  proof cases
    case 1
    then have "search_last p low high = low" by (subst search_last.simps) simp
    then show ?thesis using 1 \<open>p low\<close> by auto
  next
    case 2
    then have m: "low < m" "m \<le> high" unfolding m_def by auto
    have eq: "search_last p low high = search_last p m high"
      using 2 unfolding m_def by (subst search_last.simps) (simp add: Let_def)
    show ?thesis unfolding eq using 1(1) [OF 2(1) m_def 2(2) m(2) 2(2) 1(5)] m(1) by (meson le_trans less_imp_le)
  next
    case 3
    then have m: "low \<le> m - 1" "m \<le> high" "m - 1 < m" unfolding m_def by auto
    have eq: "search_last p low high = search_last p low (m - 1)"
      using 3 unfolding m_def by (subst search_last.simps) (simp add: Let_def)
    have "\<forall>i j. i \<le> j \<and> j \<le> m - 1 \<and> p j \<longrightarrow> p i" using 1(5) m by (meson le_trans less_imp_le)
    note ih = 1(2) [OF 3(1) m_def 3(2) m(1) 1(4) this]
    have "\<not> p k" if "search_last p low (m - 1) < k" "k \<le> high" for k
    proof (cases "k \<le> m - 1")
      case False
      then show ?thesis using 3(2) 1(5) that(2) by (metis Suc_leI Suc_pred' m(3) not_le not_less_zero zero_less_iff_neq_zero)
    qed (use ih that in blast)
    then show ?thesis unfolding eq using ih m by (meson le_trans less_imp_le)
  qed
qed

text \<open>The loop \<open>middle = (low + high) >> 1\<close>: the first index where an initial property fails.\<close>

function search_first :: "(nat \<Rightarrow> bool) \<Rightarrow> nat \<Rightarrow> nat \<Rightarrow> nat" where
  "search_first p low high =
     (if low < high
      then let middle = (low + high) div 2 in
        if p middle then search_first p (Suc middle) high else search_first p low middle
      else low)"
  by pat_completeness auto
termination by (relation "measure (\<lambda>(p, low, high). high - low)") auto

declare search_first.simps [simp del]

lemma search_first_spec:
  assumes "low \<le> high" "\<forall>i < low. p i" "\<forall>i j. i \<le> j \<and> j < high \<and> p j \<longrightarrow> p i"
  shows "low \<le> search_first p low high \<and> search_first p low high \<le> high \<and>
    (\<forall>k < search_first p low high. p k) \<and> (\<forall>k. search_first p low high \<le> k \<and> k < high \<longrightarrow> \<not> p k)"
  using assms
proof (induction p low high rule: search_first.induct)
  case (1 p low high)
  define m where "m = (low + high) div 2"
  consider "low = high" | "low < high" "p m" | "low < high" "\<not> p m" using 1(3) by linarith
  then show ?case
  proof cases
    case 1
    then have "search_first p low high = low" by (subst search_first.simps) simp
    then show ?thesis using 1 \<open>\<forall>i<low. p i\<close> by auto
  next
    case 2
    then have m: "low \<le> Suc m" "Suc m \<le> high" "m < high" unfolding m_def by auto
    have eq: "search_first p low high = search_first p (Suc m) high"
      using 2 unfolding m_def by (subst search_first.simps) (simp add: Let_def)
    have "\<forall>i < Suc m. p i" using 1(5) 2(2) m(3) less_Suc_eq_le by blast
    note ih = 1(1) [OF 2(1) m_def 2(2) m(2) this 1(5)]
    show ?thesis unfolding eq using ih m(1) by (meson le_trans)
  next
    case 3
    then have m: "low \<le> m" "m < high" unfolding m_def by auto
    have eq: "search_first p low high = search_first p low m"
      using 3 unfolding m_def by (subst search_first.simps) (simp add: Let_def)
    have "\<forall>i j. i \<le> j \<and> j < m \<and> p j \<longrightarrow> p i" using 1(5) m by (meson less_trans)
    note ih = 1(2) [OF 3(1) m_def 3(2) m(1) 1(4) this]
    have "\<not> p k" if "search_first p low m \<le> k" "k < high" for k
      using ih 3(2) 1(5) that by (meson not_le)
    then show ?thesis unfolding eq using ih m by (meson le_trans less_imp_le)
  qed
qed

end
