(* ===== verification/SourceDocument.thy ===== *)
theory SourceDocument
  imports SourceText
begin

text \<open>
  The sparse line index of one source document and the windows the editor mounts from it:
  \<open>sourceDocumentIndex\<close> to \<open>sourceDocumentWindow\<close> of
  \<open>apps/research-ui/source_syntax.js\<close>. An argument that the code tests with
  \<open>Number.isSafeInteger\<close> is \<open>Some\<close> of its integer, or \<open>None\<close> when the test fails;
  a result \<open>None\<close> is \<open>null\<close>. \<open>Math.max(0, a - b)\<close> is subtraction on \<open>nat\<close>.
\<close>

section \<open>The index\<close>

definition SOURCE_DOCUMENT_LIMIT :: nat where "SOURCE_DOCUMENT_LIMIT = 8 * 1024 * 1024"
definition SOURCE_WINDOW_LINES :: nat where "SOURCE_WINDOW_LINES = 1000"
definition SOURCE_WINDOW_COLUMN_LIMIT :: nat where "SOURCE_WINDOW_COLUMN_LIMIT = 16384"
definition SOURCE_WINDOW_OTHER_COLUMNS :: nat where "SOURCE_WINDOW_OTHER_COLUMNS = 512"

record source_index =
  ix_text :: cus
  ix_length :: nat
  anchors :: "nat list"
  lineCount :: nat
  complete :: bool

text \<open>The loop over the line breaks; \<open>None\<close> is the offset \<open>-1\<close>.\<close>

function index_loop :: "cus \<Rightarrow> nat \<Rightarrow> nat option \<Rightarrow> nat list \<Rightarrow> nat \<Rightarrow> nat list \<times> nat" where
  "index_loop xs n None ans lines = (ans, lines)"
| "index_loop xs n (Some p) ans lines =
     (if p < n
      then index_loop xs n (next_newline xs (Suc p)) (if lines mod 128 = 0 then ans @ [Suc p] else ans) (Suc lines)
      else (ans, lines))"
  by pat_completeness auto
termination
proof (relation "measure (\<lambda>(xs, n, off, ans, lines). case off of None \<Rightarrow> 0 | Some p \<Rightarrow> Suc (length xs - p))", goal_cases)
  case (2 xs n p ans lines)
  then show ?case by (auto simp: next_newline_Some split: option.splits)
qed simp

definition sourceDocumentIndex :: "cus \<Rightarrow> source_index" where
  "sourceDocumentIndex xs =
     (let n = min (length xs) SOURCE_DOCUMENT_LIMIT;
          (ans, lines) = index_loop xs n (next_newline xs 0) [0] 1
      in \<lparr>ix_text = xs, ix_length = n, anchors = ans, lineCount = lines, complete = (n = length xs)\<rparr>)"

section \<open>Offsets and positions\<close>

text \<open>\<open>offset = index.text.indexOf('\n', offset) + 1\<close>, repeated; a failed search gives \<open>0\<close>.\<close>

fun advance :: "cus \<Rightarrow> nat \<Rightarrow> nat \<Rightarrow> nat" where
  "advance xs 0 p = p"
| "advance xs (Suc n) p = advance xs n (case next_newline xs p of None \<Rightarrow> 0 | Some q \<Rightarrow> Suc q)"

definition sourceDocumentOffset :: "source_index \<Rightarrow> int option \<Rightarrow> nat option" where
  "sourceDocumentOffset ix line =
     (case line of
        None \<Rightarrow> None
      | Some l \<Rightarrow>
          if l < 0 \<or> int (lineCount ix) \<le> l then None
          else Some (advance (ix_text ix) (nat l - nat l div 128 * 128) (anchors ix ! (nat l div 128))))"

text \<open>The forward scan of \<open>sourceDocumentPosition\<close> from the start of a line.\<close>

function scan_line :: "cus \<Rightarrow> nat \<Rightarrow> nat \<Rightarrow> nat \<Rightarrow> nat \<times> nat" where
  "scan_line xs offset start line =
     (case next_newline xs start of
        None \<Rightarrow> (line, start)
      | Some p \<Rightarrow> if p < offset then scan_line xs offset (Suc p) (Suc line) else (line, start))"
  by pat_completeness auto
termination by (relation "measure (\<lambda>(xs, offset, start, line). length xs - start)") (auto simp: next_newline_Some)

declare scan_line.simps [simp del]

record position =
  p_line :: nat
  p_column :: nat

definition sourceDocumentPosition :: "source_index \<Rightarrow> int option \<Rightarrow> position option" where
  "sourceDocumentPosition ix offset =
     (case offset of
        None \<Rightarrow> None
      | Some z \<Rightarrow>
          if z < 0 \<or> int (ix_length ix) < z then None
          else
            let low = search_last (\<lambda>m. anchors ix ! m \<le> nat z) 0 (length (anchors ix) - 1);
                (line, start) = scan_line (ix_text ix) (nat z) (anchors ix ! low) (low * 128)
            in Some \<lparr>p_line = line, p_column = nat z - start\<rparr>)"

record line_bounds =
  b_start :: nat
  b_end :: nat
  b_length :: nat

definition sourceDocumentLine :: "source_index \<Rightarrow> int option \<Rightarrow> line_bounds option" where
  "sourceDocumentLine ix line =
     (case sourceDocumentOffset ix line of
        None \<Rightarrow> None
      | Some start \<Rightarrow>
          let stop = (case next_newline (ix_text ix) start of
                        None \<Rightarrow> ix_length ix
                      | Some p \<Rightarrow> min p (ix_length ix))
          in Some \<lparr>b_start = start, b_end = stop, b_length = stop - start\<rparr>)"

section \<open>Excerpts and windows\<close>

record excerpt =
  e_line :: nat
  e_offset :: nat
  columnStart :: nat
  columnEnd :: nat
  fullLength :: nat
  e_text :: cus

definition low_surrogate :: "cu \<Rightarrow> bool" where "low_surrogate c = in_range 0xDC00 0xDFFF c"
definition high_surrogate :: "cu \<Rightarrow> bool" where "high_surrogate c = in_range 0xD800 0xDBFF c"

text \<open>\<open>Math.max(0, Math.min(top, Number.isSafeInteger(v) ? v : 0))\<close>.\<close>

definition clamp :: "nat \<Rightarrow> int option \<Rightarrow> nat" where
  "clamp upper v = nat (max 0 (min (int upper) (case v of Some z \<Rightarrow> z | None \<Rightarrow> 0)))"

definition sourceDocumentExcerpt :: "source_index \<Rightarrow> nat \<Rightarrow> int option \<Rightarrow> nat \<Rightarrow> excerpt option" where
  "sourceDocumentExcerpt ix line column maximum =
     (case sourceDocumentLine ix (Some (int line)) of
        None \<Rightarrow> None
      | Some b \<Rightarrow>
          let requested = clamp (b_length b) column;
              start = min (b_length b - maximum) (requested - maximum div 4);
              stop = min (b_length b) (start + maximum);
              low = (\<lambda>col. at_is (ix_text ix) (b_start b + col) low_surrogate);
              start = (if start \<noteq> 0 \<and> low start then start - 1 else start);
              stop = (if stop < b_length b \<and> low stop then stop - 1 else stop)
          in Some \<lparr>e_line = line, e_offset = b_start b, columnStart = start, columnEnd = stop,
                   fullLength = b_length b,
                   e_text = slice (b_start b + start) (b_start b + stop) (ix_text ix)\<rparr>)"

record window =
  w_start :: nat
  w_end :: nat
  w_line :: nat
  w_column :: nat
  rows :: "excerpt option list"

definition sourceDocumentWindow :: "source_index \<Rightarrow> int option \<Rightarrow> int option \<Rightarrow> window option" where
  "sourceDocumentWindow ix line column =
     (let target = clamp (lineCount ix - 1) line in
      case sourceDocumentLine ix (Some (int target)) of
        None \<Rightarrow> None
      | Some b \<Rightarrow>
          let column = clamp (b_length b) column;
              start = target div SOURCE_WINDOW_LINES * SOURCE_WINDOW_LINES;
              stop = min (lineCount ix) (start + SOURCE_WINDOW_LINES)
          in Some \<lparr>w_start = start, w_end = stop, w_line = target, w_column = column,
                   rows = map (\<lambda>l. sourceDocumentExcerpt ix l
                                 (Some (if l = target then int column else 0))
                                 (if l = target then SOURCE_WINDOW_COLUMN_LIMIT else SOURCE_WINDOW_OTHER_COLUMNS))
                              [start..<stop]\<rparr>)"

section \<open>What the index holds\<close>

abbreviation doc_length :: "cus \<Rightarrow> nat" where
  "doc_length xs \<equiv> min (length xs) SOURCE_DOCUMENT_LIMIT"

abbreviation doc_starts :: "cus \<Rightarrow> nat list" where
  "doc_starts xs \<equiv> line_starts xs (doc_length xs)"

text \<open>Every 128th line start, for the first \<open>lines\<close> lines.\<close>

definition sparse :: "nat list \<Rightarrow> nat \<Rightarrow> nat list" where
  "sparse starts lines = map (\<lambda>i. starts ! (128 * i)) [0..<Suc ((lines - 1) div 128)]"

lemma sparse_Suc:
  "0 < lines \<Longrightarrow> sparse starts (Suc lines) =
     (if lines mod 128 = 0 then sparse starts lines @ [starts ! lines] else sparse starts lines)"
proof (cases lines)
  case (Suc m)
  have "Suc m mod 128 = 0 \<Longrightarrow> 128 + 128 * (m div 128) = Suc m"
    using mult_div_mod_eq [of 128 "Suc m"] by (simp add: div_Suc)
  then have "Suc m mod 128 = 0 \<Longrightarrow> starts ! (128 + 128 * (m div 128)) = starts ! Suc m" by (simp only:)
  then show ?thesis using Suc by (simp add: sparse_def div_Suc)
qed simp

lemma index_loop_spec:
  assumes n: "n \<le> length xs"
    and k: "k \<le> length (newlines xs n)"
  shows "index_loop xs n (next_newline xs (line_starts xs n ! k)) (sparse (line_starts xs n) (Suc k)) (Suc k) =
    (sparse (line_starts xs n) (length (line_starts xs n)), length (line_starts xs n))"
  using k
proof (induction "length (newlines xs n) - k" arbitrary: k)
  case 0
  then have k: "k = length (newlines xs n)" by simp
  then have "\<not> p < n" if "next_newline xs (line_starts xs n ! k) = Some p" for p
    using next_newline_last [of xs n p] that by simp
  then show ?case using k by (cases "next_newline xs (line_starts xs n ! k)") (auto simp: length_line_starts)
next
  case (Suc d)
  then have k: "k < length (newlines xs n)" by simp
  have "index_loop xs n (next_newline xs (line_starts xs n ! Suc k))
          (sparse (line_starts xs n) (Suc (Suc k))) (Suc (Suc k)) =
        (sparse (line_starts xs n) (length (line_starts xs n)), length (line_starts xs n))"
    using Suc k by simp
  then show ?case
    by (simp only: next_newline_line [OF n k] index_loop.simps newlines_nth [OF k] if_True
        line_starts_Suc [OF k, symmetric] sparse_Suc [of "Suc k" "line_starts xs n", OF zero_less_Suc])
qed

lemma index_fields:
  "ix_text (sourceDocumentIndex xs) = xs" "ix_length (sourceDocumentIndex xs) = doc_length xs"
  "lineCount (sourceDocumentIndex xs) = length (doc_starts xs)"
  "anchors (sourceDocumentIndex xs) = sparse (doc_starts xs) (length (doc_starts xs))"
  "complete (sourceDocumentIndex xs) \<longleftrightarrow> length xs \<le> SOURCE_DOCUMENT_LIMIT"
proof -
  have "index_loop xs (doc_length xs) (next_newline xs 0) [0] 1 =
      (sparse (doc_starts xs) (length (doc_starts xs)), length (doc_starts xs))"
    using index_loop_spec [of "doc_length xs" xs 0] by (simp add: line_starts_0 sparse_def)
  then show "ix_text (sourceDocumentIndex xs) = xs" "ix_length (sourceDocumentIndex xs) = doc_length xs"
    "lineCount (sourceDocumentIndex xs) = length (doc_starts xs)"
    "anchors (sourceDocumentIndex xs) = sparse (doc_starts xs) (length (doc_starts xs))"
    "complete (sourceDocumentIndex xs) \<longleftrightarrow> length xs \<le> SOURCE_DOCUMENT_LIMIT"
    by (auto simp: sourceDocumentIndex_def Let_def)
qed

lemma sparse_nth: "128 * i < lines \<Longrightarrow> sparse starts lines ! i = starts ! (128 * i)"
proof -
  assume "128 * i < lines"
  then have "i < Suc ((lines - 1) div 128)" by (simp add: less_Suc_eq_le less_eq_div_iff_mult_less_eq)
  then show ?thesis unfolding sparse_def by (simp del: upt_Suc)
qed

lemma length_sparse: "length (sparse starts lines) = Suc ((lines - 1) div 128)"
  by (simp add: sparse_def)

lemma advance_lines:
  "n \<le> length xs \<Longrightarrow> k + d \<le> length (newlines xs n) \<Longrightarrow>
     advance xs d (line_starts xs n ! k) = line_starts xs n ! (k + d)"
proof (induction d arbitrary: k)
  case (Suc d)
  have "k < length (newlines xs n)" using Suc by simp
  from next_newline_line [OF Suc(2) this] line_starts_Suc [OF this] show ?case
    using Suc(1) [of "Suc k"] Suc(2,3) by simp
qed simp

lemma doc_newlines_le: "Suc k \<le> length (doc_starts xs) \<longleftrightarrow> k \<le> length (newlines xs (doc_length xs))"
  by (simp add: length_line_starts)

lemma offset_line:
  assumes "l < length (doc_starts xs)"
  shows "sourceDocumentOffset (sourceDocumentIndex xs) (Some (int l)) = Some (doc_starts xs ! l)"
proof -
  have le: "128 * (l div 128) \<le> l" using div_times_less_eq_dividend [of l 128] by (simp add: mult.commute)
  then have "128 * (l div 128) + (l - l div 128 * 128) = l" by (simp add: mult.commute)
  moreover have "128 * (l div 128) < length (doc_starts xs)" using assms le by simp
  moreover have "l \<le> length (newlines xs (doc_length xs))" using assms doc_newlines_le [of l xs] by simp
  ultimately have "advance xs (l - l div 128 * 128) (doc_starts xs ! (128 * (l div 128))) = doc_starts xs ! l"
    using advance_lines [of "doc_length xs" xs "128 * (l div 128)" "l - l div 128 * 128"] by simp
  then show ?thesis using assms \<open>128 * (l div 128) < _\<close>
    by (simp add: sourceDocumentOffset_def index_fields sparse_nth)
qed

lemma offset_None:
  "\<not> (\<exists>l < length (doc_starts xs). line = Some (int l)) \<Longrightarrow>
     sourceDocumentOffset (sourceDocumentIndex xs) line = None"
proof (cases line)
  case (Some z)
  assume no: "\<not> (\<exists>l < length (doc_starts xs). line = Some (int l))"
  have "z < 0 \<or> int (length (doc_starts xs)) \<le> z"
  proof (cases "0 \<le> z")
    case True
    then obtain l where "z = int l" by (rule nonneg_int_cases)
    then show ?thesis using no Some by auto
  qed simp
  then show ?thesis by (simp add: Some sourceDocumentOffset_def index_fields)
qed (simp add: sourceDocumentOffset_def)

text \<open>The line of an offset of the document.\<close>

abbreviation line_of :: "cus \<Rightarrow> nat \<Rightarrow> nat" where
  "line_of xs \<equiv> line_at xs (doc_length xs)"

lemma scan_line_spec:
  assumes "p \<le> doc_length xs" "k \<le> line_of xs p"
  shows "scan_line xs p (doc_starts xs ! k) k = (line_of xs p, doc_starts xs ! line_of xs p)"
  using assms(2)
proof (induction "line_of xs p - k" arbitrary: k)
  case 0
  then have k: "k = line_of xs p" by simp
  have "\<not> q < p" if "next_newline xs (doc_starts xs ! k) = Some q" for q
  proof (cases "k < length (newlines xs (doc_length xs))")
    case True
    then have "q = newlines xs (doc_length xs) ! k" using next_newline_line [of "doc_length xs" xs k] that by simp
    then show ?thesis using line_at_next [of xs "doc_length xs" p] True k by (simp add: length_line_starts line_starts_Suc)
  next
    case False
    then have "k = length (newlines xs (doc_length xs))" using line_at_less [of xs "doc_length xs" p] k by (simp add: length_line_starts)
    then have "doc_length xs \<le> q" using next_newline_last [of xs "doc_length xs" q] that by (simp only:)
    then show ?thesis using assms(1) by linarith
  qed
  then show ?case using k by (subst scan_line.simps) (auto split: option.splits)
next
  case (Suc d)
  then have lt: "k < line_of xs p" by simp
  then have k: "k < length (newlines xs (doc_length xs))" "newlines xs (doc_length xs) ! k < p"
    using less_line_at [of k xs "doc_length xs" p] by (auto simp: length_line_starts line_starts_Suc)
  have "scan_line xs p (doc_starts xs ! Suc k) (Suc k) = (line_of xs p, doc_starts xs ! line_of xs p)"
    by (rule Suc(1)) (use Suc(2) lt in simp_all)
  then show ?case using next_newline_line [of "doc_length xs" xs k] k
    by (subst scan_line.simps) (simp add: line_starts_Suc)
qed

lemma position_line:
  assumes "p \<le> doc_length xs"
  shows "sourceDocumentPosition (sourceDocumentIndex xs) (Some (int p)) =
    Some \<lparr>p_line = line_of xs p, p_column = p - doc_starts xs ! line_of xs p\<rparr>"
proof -
  define n where "n = length (doc_starts xs)"
  define ans where "ans = sparse (doc_starts xs) n"
  have n: "0 < n" by (simp add: n_def length_line_starts)
  have len: "128 * m < n" if "m \<le> length ans - 1" for m
    using that n unfolding ans_def length_sparse
    by (simp add: less_eq_div_iff_mult_less_eq)
  have ans: "ans ! m = doc_starts xs ! (128 * m)" if "m \<le> length ans - 1" for m
    using len [OF that] unfolding ans_def by (rule sparse_nth)
  have mono: "ans ! i \<le> p" if "i \<le> j" "j \<le> length ans - 1" "ans ! j \<le> p" for i j
  proof (cases "i = j")
    case False
    then have "doc_starts xs ! (128 * i) < doc_starts xs ! (128 * j)"
      using sorted_wrt_nth_less [OF line_starts_sorted, of "128 * i" "128 * j" xs "doc_length xs"] len [OF that(2)] that(1)
      by (simp add: n_def)
    then show ?thesis using that ans [of i] ans [of j] by simp
  qed (use that in simp)
  have all: "\<forall>i j. i \<le> j \<and> j \<le> length ans - 1 \<and> ans ! j \<le> p \<longrightarrow> ans ! i \<le> p" using mono by blast
  have p0: "ans ! 0 \<le> p" using ans [of 0] by (simp add: line_starts_0)
  define low where "low = search_last (\<lambda>m. ans ! m \<le> p) 0 (length ans - 1)"
  have low: "low \<le> length ans - 1" "ans ! low \<le> p"
    using search_last_spec [OF le0 p0 all, folded low_def] by blast+
  then have start: "ans ! low = doc_starts xs ! (128 * low)" "128 * low < n" using ans len by auto
  have "128 * low \<le> line_of xs p"
    using less_line_at [of "128 * low - 1" xs "doc_length xs" p] start low by (cases low) (auto simp: n_def)
  then have "scan_line xs p (ans ! low) (low * 128) = (line_of xs p, doc_starts xs ! line_of xs p)"
    using scan_line_spec [OF assms, of "128 * low"] start by (simp add: mult.commute)
  moreover have "\<not> doc_length xs < p" using assms by linarith
  ultimately show ?thesis
    by (simp add: sourceDocumentPosition_def index_fields Let_def n_def [symmetric] ans_def [symmetric]
        low_def [symmetric] del: min_less_iff_disj One_nat_def)
qed

section \<open>Positions against a count of the line breaks\<close>

lemma position_count:
  assumes "p \<le> doc_length xs"
  shows "sourceDocumentPosition (sourceDocumentIndex xs) (Some (int p)) =
    Some \<lparr>p_line = count_list (take p xs) newline,
          p_column = length (takeWhile (\<lambda>c. c \<noteq> newline) (rev (take p xs)))\<rparr>"
  by (simp only: position_line [OF assms] line_at_column [OF assms min.cobounded1, symmetric]
      line_at_count [OF assms min.cobounded1, symmetric])

section \<open>Lines, excerpts and windows\<close>

lemma line_bounds_spec:
  assumes "l < length (doc_starts xs)"
  obtains stop where
    "sourceDocumentLine (sourceDocumentIndex xs) (Some (int l)) =
       Some \<lparr>b_start = doc_starts xs ! l, b_end = stop, b_length = stop - doc_starts xs ! l\<rparr>"
    "doc_starts xs ! l \<le> stop" "stop \<le> doc_length xs" "stop = length xs \<or> stop = SOURCE_DOCUMENT_LIMIT \<or> xs ! stop = newline"
    "0 < doc_starts xs ! l \<longrightarrow> xs ! (doc_starts xs ! l - 1) = newline"
proof -
  let ?s = "doc_starts xs ! l"
  define stop where "stop = (case next_newline xs ?s of None \<Rightarrow> doc_length xs | Some p \<Rightarrow> min p (doc_length xs))"
  have "sourceDocumentLine (sourceDocumentIndex xs) (Some (int l)) =
       Some \<lparr>b_start = ?s, b_end = stop, b_length = stop - ?s\<rparr>"
    by (cases "next_newline xs ?s")
      (simp_all add: sourceDocumentLine_def offset_line [OF assms] index_fields stop_def Let_def)
  moreover have "?s \<le> stop" using line_starts_le [OF assms]
    by (auto simp: stop_def next_newline_Some split: option.splits)
  moreover have "stop \<le> doc_length xs" by (auto simp: stop_def min_def split: option.splits)
  moreover have "stop = length xs \<or> stop = SOURCE_DOCUMENT_LIMIT \<or> xs ! stop = newline"
    by (auto simp: stop_def next_newline_Some min_def split: option.splits)
  moreover have "0 < ?s \<longrightarrow> xs ! (?s - 1) = newline"
    using assms newlines_nth [of "l - 1" xs "doc_length xs"]
    by (cases l) (auto simp: line_starts_0 length_line_starts line_starts_Suc)
  ultimately show thesis by (rule that)
qed

text \<open>
  A cut at \<open>p\<close> is inside a surrogate pair. A text is sound when no low surrogate stands
  without its high surrogate.
\<close>

definition splits_pair :: "cus \<Rightarrow> nat \<Rightarrow> bool" where
  "splits_pair xs p = (0 < p \<and> p < length xs \<and> high_surrogate (xs ! (p - 1)) \<and> low_surrogate (xs ! p))"

definition lows_paired :: "cus \<Rightarrow> bool" where
  "lows_paired xs = (\<forall>i < length xs. low_surrogate (xs ! i) \<longrightarrow> 0 < i \<and> high_surrogate (xs ! (i - 1)))"

lemma surrogates_disjoint [simp]: "high_surrogate c \<Longrightarrow> \<not> low_surrogate c"
  by (simp add: high_surrogate_def low_surrogate_def in_range_def)

lemma newline_no_surrogate [simp]: "\<not> low_surrogate newline" "\<not> high_surrogate newline"
  by (simp_all add: high_surrogate_def low_surrogate_def in_range_def newline_def)

lemma not_splits_low: "\<not> at_is xs p low_surrogate \<Longrightarrow> \<not> splits_pair xs p"
  by (auto simp: splits_pair_def at_is_def)

lemma not_splits_before_low: "lows_paired xs \<Longrightarrow> at_is xs (Suc p) low_surrogate \<Longrightarrow> \<not> splits_pair xs p"
  unfolding splits_pair_def lows_paired_def at_is_def by (metis diff_Suc_1 surrogates_disjoint)

text \<open>What an excerpt of a sound, complete document promises about the requested column.\<close>

definition excerpt_ok :: "cus \<Rightarrow> nat \<Rightarrow> nat \<Rightarrow> nat \<Rightarrow> excerpt \<Rightarrow> bool" where
  "excerpt_ok xs line requested maximum e =
     (e_line e = line \<and>
      columnStart e \<le> requested \<and> requested \<le> columnEnd e \<and> columnEnd e \<le> fullLength e \<and>
      e_offset e + fullLength e \<le> length xs \<and>
      e_text e = slice (e_offset e + columnStart e) (e_offset e + columnEnd e) xs \<and>
      length (e_text e) \<le> Suc maximum \<and>
      (length xs \<le> SOURCE_DOCUMENT_LIMIT \<and> lows_paired xs \<longrightarrow>
         \<not> splits_pair xs (e_offset e + columnStart e) \<and> \<not> splits_pair xs (e_offset e + columnEnd e)))"

lemma excerpt_sound:
  assumes l: "l < length (doc_starts xs)" and m: "2 \<le> maximum"
    and b: "sourceDocumentLine (sourceDocumentIndex xs) (Some (int l)) = Some b"
  shows "\<exists>e. sourceDocumentExcerpt (sourceDocumentIndex xs) l column maximum = Some e \<and>
    excerpt_ok xs l (clamp (b_length b) column) maximum e"
proof -
  obtain stop where "sourceDocumentLine (sourceDocumentIndex xs) (Some (int l)) =
       Some \<lparr>b_start = doc_starts xs ! l, b_end = stop, b_length = stop - doc_starts xs ! l\<rparr>"
    and "doc_starts xs ! l \<le> stop" "stop \<le> doc_length xs"
      "stop = length xs \<or> stop = SOURCE_DOCUMENT_LIMIT \<or> xs ! stop = newline"
      "0 < doc_starts xs ! l \<longrightarrow> xs ! (doc_starts xs ! l - 1) = newline"
    using line_bounds_spec [OF l] .
  then have st: "b = \<lparr>b_start = doc_starts xs ! l, b_end = stop, b_length = stop - doc_starts xs ! l\<rparr>"
    "doc_starts xs ! l \<le> stop" "stop \<le> doc_length xs"
    "stop = length xs \<or> stop = SOURCE_DOCUMENT_LIMIT \<or> xs ! stop = newline"
    "0 < doc_starts xs ! l \<longrightarrow> xs ! (doc_starts xs ! l - 1) = newline"
    using b by (simp_all del: min.bounded_iff)
  define s where "s = doc_starts xs ! l"
  define n where "n = stop - s"
  define r where "r = clamp n column"
  define low where "low = (\<lambda>col. at_is xs (s + col) low_surrogate)"
  define start where "start = min (n - maximum) (r - maximum div 4)"
  define stp where "stp = min n (start + maximum)"
  define start' where "start' = (if start \<noteq> 0 \<and> low start then start - 1 else start)"
  define stp' where "stp' = (if stp < n \<and> low stp then stp - 1 else stp)"
  define e where "e = \<lparr>e_line = l, e_offset = s, columnStart = start', columnEnd = stp', fullLength = n,
      e_text = slice (s + start') (s + stp') xs\<rparr>"
  have "sourceDocumentExcerpt (sourceDocumentIndex xs) l column maximum = Some e"
    unfolding sourceDocumentExcerpt_def b st(1) e_def start'_def stp'_def stp_def start_def low_def r_def n_def s_def
    by (simp only: option.case line_bounds.simps index_fields Let_def)
  have rn: "r \<le> n" by (simp add: r_def clamp_def)
  have steps: "start' \<le> start" "start \<le> Suc start'" "stp' \<le> stp" "start \<le> r" "stp \<le> n" "stp \<le> start + maximum"
    by (simp_all add: start'_def stp'_def) (simp_all add: start_def stp_def)
  have "s + n \<le> length xs" using st(2,3) by (simp add: n_def s_def)
  with steps have bounds: "start' \<le> r" "stp' \<le> n" "stp' \<le> start' + Suc maximum" "s + n \<le> length xs"
    by linarith+
  have "r \<le> stp'"
  proof (cases "stp < n")
    case True
    then have "stp = start + maximum" "start < n - maximum" by (auto simp: stp_def)
    then have "stp = (r - maximum div 4) + maximum" by (simp add: start_def min_def split: if_splits)
    moreover have "maximum div 4 < maximum" using m by simp
    ultimately have "r \<le> stp - 1" "r \<le> stp" by linarith+
    then show ?thesis by (simp add: stp'_def)
  next
    case False
    then show ?thesis using rn steps(5) by (simp add: stp'_def)
  qed
  have no_start: "\<not> splits_pair xs (s + start')" if "lows_paired xs"
  proof (cases "start \<noteq> 0 \<and> low start")
    case True
    then have "at_is xs (Suc (s + start')) low_surrogate" by (simp add: start'_def low_def)
    then show ?thesis by (rule not_splits_before_low [OF that])
  next
    case False
    show ?thesis
    proof (cases "start = 0")
      case True
      then show ?thesis using st(5) by (auto simp: start'_def splits_pair_def s_def)
    next
      case 2: False
      then show ?thesis using False by (intro not_splits_low) (simp add: start'_def low_def)
    qed
  qed
  have no_stop: "\<not> splits_pair xs (s + stp')" if "lows_paired xs" "length xs \<le> SOURCE_DOCUMENT_LIMIT"
  proof (cases "stp < n \<and> low stp")
    case True
    then have "0 < stp" using m by (auto simp: stp_def)
    then have "at_is xs (Suc (s + stp')) low_surrogate" using True by (simp add: stp'_def low_def)
    then show ?thesis by (rule not_splits_before_low [OF that(1)])
  next
    case False
    show ?thesis
    proof (cases "stp < n")
      case True
      then show ?thesis using False by (intro not_splits_low) (simp add: stp'_def low_def)
    next
      case no: False
      then have "s + stp' = stop" using st(2) by (simp add: stp'_def stp_def n_def s_def)
      then show ?thesis using st(3,4) that(2) by (auto simp: splits_pair_def)
    qed
  qed
  have "excerpt_ok xs l r maximum e"
    unfolding excerpt_ok_def e_def using bounds \<open>r \<le> stp'\<close> no_start no_stop by (simp add: min_def)
  then show ?thesis using \<open>sourceDocumentExcerpt _ _ _ _ = Some e\<close>
    by (auto simp: st(1) r_def n_def s_def)
qed

lemma excerpt_fields:
  assumes "sourceDocumentExcerpt ix line column maximum = Some e"
  shows "\<exists>b. sourceDocumentLine ix (Some (int line)) = Some b \<and> e_offset e = b_start b \<and> fullLength e = b_length b"
proof (cases "sourceDocumentLine ix (Some (int line))")
  case None
  then have "sourceDocumentExcerpt ix line column maximum = None" by (simp only: sourceDocumentExcerpt_def option.case)
  then show ?thesis using assms by simp
next
  case (Some b)
  have "e_offset e = b_start b \<and> fullLength e = b_length b"
    using assms unfolding sourceDocumentExcerpt_def Some option.case Let_def option.inject
    by (elim subst) (simp only: excerpt.simps simp_thms)
  then show ?thesis using Some by blast
qed

lemma line_start_excerpt:
  assumes l: "l < length (doc_starts xs)" and m: "2 \<le> maximum"
  shows "\<exists>e. sourceDocumentExcerpt (sourceDocumentIndex xs) l (Some 0) maximum = Some e \<and>
    excerpt_ok xs l 0 maximum e"
proof -
  obtain b where b: "sourceDocumentLine (sourceDocumentIndex xs) (Some (int l)) = Some b"
    using line_bounds_spec [OF l] by blast
  show ?thesis using excerpt_sound [OF l m b, of "Some 0"] by (simp add: clamp_def)
qed

text \<open>
  A mounted window: consecutive lines around the target, every row present, the target row
  around the requested column and every other row from its start.
\<close>

definition window_ok :: "cus \<Rightarrow> window \<Rightarrow> bool" where
  "window_ok xs w =
     (w_start w \<le> w_line w \<and> w_line w < w_end w \<and> w_end w \<le> length (doc_starts xs) \<and>
      w_end w - w_start w \<le> SOURCE_WINDOW_LINES \<and>
      length (rows w) = w_end w - w_start w \<and>
      (\<forall>i < length (rows w). \<exists>e. rows w ! i = Some e \<and>
         excerpt_ok xs (w_start w + i)
           (if w_start w + i = w_line w then w_column w else 0)
           (if w_start w + i = w_line w then SOURCE_WINDOW_COLUMN_LIMIT else SOURCE_WINDOW_OTHER_COLUMNS) e))"

lemma window_exists:
  obtains w b where "sourceDocumentWindow (sourceDocumentIndex xs) line column = Some w" "window_ok xs w"
    "w_line w = clamp (length (doc_starts xs) - 1) line"
    "sourceDocumentLine (sourceDocumentIndex xs) (Some (int (w_line w))) = Some b"
    "w_column w = clamp (b_length b) column"
proof -
  define n where "n = length (doc_starts xs)"
  define t where "t = clamp (n - 1) line"
  have n: "0 < n" by (simp add: n_def length_line_starts)
  have t: "t < n" using n by (auto simp: t_def clamp_def)
  obtain b where b: "sourceDocumentLine (sourceDocumentIndex xs) (Some (int t)) = Some b"
    using line_bounds_spec [of t xs] t by (metis n_def)
  define c where "c = clamp (b_length b) column"
  define st where "st = t div SOURCE_WINDOW_LINES * SOURCE_WINDOW_LINES"
  define en where "en = min n (st + SOURCE_WINDOW_LINES)"
  define row where "row = (\<lambda>l. sourceDocumentExcerpt (sourceDocumentIndex xs) l (Some (if l = t then int c else 0))
      (if l = t then SOURCE_WINDOW_COLUMN_LIMIT else SOURCE_WINDOW_OTHER_COLUMNS))"
  define w where "w = \<lparr>w_start = st, w_end = en, w_line = t, w_column = c, rows = map row [st..<en]\<rparr>"
  have w: "sourceDocumentWindow (sourceDocumentIndex xs) line column = Some w"
    unfolding sourceDocumentWindow_def index_fields Let_def n_def [symmetric] t_def [symmetric]
    by (simp only: b option.case c_def [symmetric] st_def [symmetric] en_def [symmetric] w_def row_def)
  have st: "st \<le> t" by (simp add: st_def)
  have "t < st + SOURCE_WINDOW_LINES"
    using mod_less_divisor [of SOURCE_WINDOW_LINES t] div_mult_mod_eq [of t SOURCE_WINDOW_LINES]
    unfolding st_def by (simp add: SOURCE_WINDOW_LINES_def)
  then have en: "t < en" "en \<le> n" "en - st \<le> SOURCE_WINDOW_LINES" using t by (simp_all add: en_def)
  have c: "clamp (b_length b) (Some (int c)) = c" by (simp add: c_def clamp_def)
  have rows: "\<exists>e. row l = Some e \<and> excerpt_ok xs l (if l = t then c else 0)
      (if l = t then SOURCE_WINDOW_COLUMN_LIMIT else SOURCE_WINDOW_OTHER_COLUMNS) e" if "l < n" for l
  proof (cases "l = t")
    case True
    then show ?thesis using excerpt_sound [OF _ _ b, of SOURCE_WINDOW_COLUMN_LIMIT "Some (int c)"] that c
      by (simp add: row_def n_def SOURCE_WINDOW_COLUMN_LIMIT_def)
  next
    case False
    then show ?thesis using line_start_excerpt [of l xs SOURCE_WINDOW_OTHER_COLUMNS] that
      by (simp add: row_def n_def SOURCE_WINDOW_OTHER_COLUMNS_def)
  qed
  have wsel: "w_start w = st" "w_end w = en" "w_line w = t" "w_column w = c" "length (rows w) = en - st"
    by (simp_all add: w_def)
  have "\<exists>e. row (st + i) = Some e \<and> excerpt_ok xs (st + i) (if st + i = t then c else 0)
      (if st + i = t then SOURCE_WINDOW_COLUMN_LIMIT else SOURCE_WINDOW_OTHER_COLUMNS) e" if "i < en - st" for i
    using rows [of "st + i"] that en(2) by (simp only: less_diff_conv add.commute)
  then have "\<forall>i < length (rows w). \<exists>e. rows w ! i = Some e \<and> excerpt_ok xs (st + i) (if st + i = t then c else 0)
      (if st + i = t then SOURCE_WINDOW_COLUMN_LIMIT else SOURCE_WINDOW_OTHER_COLUMNS) e"
    by (simp add: w_def)
  then have "window_ok xs w"
    using st en wsel(5) unfolding window_ok_def wsel(1-4) n_def by blast
  with w show thesis by (rule that) (use b wsel in \<open>simp_all add: t_def n_def c_def\<close>)
qed

section \<open>Properties\<close>

text \<open>
  C14. The position of an offset is what a count of the line breaks gives: the number of line
  breaks before the offset and the distance from the last one, for every offset of the
  document (within the 8 MiB limit), and null for every other argument. So the sparse anchors
  and the binary search never change an answer.
\<close>

theorem position_is_count:
  "sourceDocumentPosition (sourceDocumentIndex xs) offset =
     (case offset of
        None \<Rightarrow> None
      | Some z \<Rightarrow>
          if 0 \<le> z \<and> z \<le> int (min (length xs) SOURCE_DOCUMENT_LIMIT)
          then let before = take (nat z) xs in
            Some \<lparr>p_line = count_list before newline,
                  p_column = length (takeWhile (\<lambda>c. c \<noteq> newline) (rev before))\<rparr>
          else None)"
proof (cases offset)
  case (Some z)
  show ?thesis
  proof (cases "0 \<le> z \<and> z \<le> int (doc_length xs)")
    case True
    then obtain p where "z = int p" "p \<le> doc_length xs" using nonneg_int_cases [of z] by (metis of_nat_le_iff)
    then show ?thesis using position_count [of p xs] Some by (simp add: Let_def)
  next
    case False
    then show ?thesis by (auto simp: Some sourceDocumentPosition_def index_fields)
  qed
qed (simp add: sourceDocumentPosition_def)

text \<open>
  Offsets and positions are inverse: the offset of the position's line plus its column is
  the offset the position was computed from.
\<close>

theorem position_roundtrip:
  assumes "0 \<le> z" "z \<le> int (ix_length (sourceDocumentIndex xs))"
  shows "\<exists>pos start. sourceDocumentPosition (sourceDocumentIndex xs) (Some z) = Some pos \<and>
    sourceDocumentOffset (sourceDocumentIndex xs) (Some (int (p_line pos))) = Some start \<and>
    int (start + p_column pos) = z"
proof -
  obtain p where p: "z = int p" "p \<le> doc_length xs"
    using assms nonneg_int_cases [of z] by (metis index_fields(2) of_nat_le_iff)
  show ?thesis
    using position_line [OF p(2)] offset_line [OF line_at_less, of xs p] line_at_start [of xs "doc_length xs" p] p(1) by simp
qed

theorem position_roundtrip_witness:
  "\<exists>pos start. sourceDocumentPosition (sourceDocumentIndex (us ''ab'' @ [10] @ us ''c'')) (Some 4) = Some pos \<and>
    sourceDocumentOffset (sourceDocumentIndex (us ''ab'' @ [10] @ us ''c'')) (Some (int (p_line pos))) = Some start \<and>
    int (start + p_column pos) = 4"
  by (rule position_roundtrip) (simp_all add: index_fields SOURCE_DOCUMENT_LIMIT_def us_def)

text \<open>
  C15. A window exists for every requested line and column. It holds at most 1000 consecutive
  lines, the clamped target among them; every row is an excerpt of its line, at most one unit
  longer than its column limit; the target row contains the clamped requested column; and in a
  complete document without unpaired low surrogates no excerpt begins or ends inside a
  surrogate pair.
\<close>

theorem window_mounts_target:
  "\<exists>w b. sourceDocumentWindow (sourceDocumentIndex xs) line column = Some w \<and> window_ok xs w \<and>
     w_line w = clamp (lineCount (sourceDocumentIndex xs) - 1) line \<and>
     sourceDocumentLine (sourceDocumentIndex xs) (Some (int (w_line w))) = Some b \<and>
     w_column w = clamp (b_length b) column"
proof -
  obtain w b where "sourceDocumentWindow (sourceDocumentIndex xs) line column = Some w" "window_ok xs w"
    "w_line w = clamp (length (doc_starts xs) - 1) line"
    "sourceDocumentLine (sourceDocumentIndex xs) (Some (int (w_line w))) = Some b"
    "w_column w = clamp (b_length b) column" by (rule window_exists)
  then show ?thesis by (auto simp: index_fields)
qed

end
