(* ===== verification/SourceLexer.thy ===== *)
theory SourceLexer
  imports SourceText
begin

text \<open>
  The tokens of the pretty printer: \<open>sourcePrettyQuotedEnd\<close> to \<open>sourcePrettyTokens\<close> of
  \<open>apps/research-ui/source_syntax.js\<close>. A \<open>RangeError\<close> is \<open>Inl\<close> of its message.
\<close>

section \<open>Token data\<close>

datatype language = JavaScript | Json | Css | Markup | Wasm | Bytes | PlainText

datatype token_kind =
    Whitespace | Comment | LineComment | Literal | Word | Number | Operator | TextRun | Tag | RawText

record token =
  kind :: token_kind
  t_start :: nat
  t_end :: nat
  t_text :: cus

definition SOURCE_PRETTY_TOKEN_LIMIT :: nat where "SOURCE_PRETTY_TOKEN_LIMIT = 250000"

definition SOURCE_PRETTY_REGEX_PREFIXES :: "string list" where
  "SOURCE_PRETTY_REGEX_PREFIXES =
     [''await'', ''case'', ''delete'', ''do'', ''else'', ''in'', ''instanceof'', ''new'', ''of'',
      ''return'', ''throw'', ''typeof'', ''void'', ''yield'']"

definition SOURCE_PRETTY_OPERATORS :: "string list" where
  "SOURCE_PRETTY_OPERATORS =
     [''>>>='', ''**='', ''==='', ''!=='', ''>>>'', ''<<='', ''>>='', ''&&='', ''||='', ''??='',
      ''...'', ''=>'', ''=='', ''!='', ''<='', ''>='', ''++'', ''--'', ''&&'', ''||'', ''??'', ''?.'', ''**'',
      ''+='', ''-='', ''*='', ''/='', ''%='', ''&='', ''|='', ''^='', ''<<'', ''>>'',
      ''{'', ''}'', ''('', '')'', ''['', '']'', '';'', '','', '':'', ''.'', ''?'', ''+'', ''-'', ''*'',
      ''/'', ''%'', ''='', ''<'', ''>'', ''!'', ''~'', ''&'', ''|'', ''^'']"

text \<open>\<open>(?:_?d)*\<close> after a first digit of the class.\<close>

definition digit_run :: "(cu \<Rightarrow> bool) \<Rightarrow> re" where
  "digit_run p = Star (Seq (opt (chr CHR ''_'')) (Cls p))"

definition prefixed_number :: "string \<Rightarrow> (cu \<Rightarrow> bool) \<Rightarrow> re" where
  "prefixed_number marks p =
     seqs [chr CHR ''0'', Cls (one_of_cu marks), Cls p, digit_run p, opt (chr CHR ''n'')]"

definition SOURCE_PRETTY_NUMBER_PATTERN :: re where
  "SOURCE_PRETTY_NUMBER_PATTERN =
     alts
       [prefixed_number ''xX'' cu_hex,
        prefixed_number ''bB'' (one_of_cu ''01''),
        prefixed_number ''oO'' (one_of_cu ''01234567''),
        seqs
          [alts
             [seqs [Cls cu_digit, digit_run cu_digit,
                    opt (Seq (chr CHR ''.'') (opt (Seq (Cls cu_digit) (digit_run cu_digit))))],
              seqs [chr CHR ''.'', Cls cu_digit, digit_run cu_digit]],
           opt (seqs [Cls (one_of_cu ''eE''), opt (Cls (one_of_cu ''+-'')), Cls cu_digit, digit_run cu_digit]),
           opt (chr CHR ''n'')]]"

section \<open>Quoted and regular expression literals\<close>

function quoted_loop :: "cus \<Rightarrow> cu \<Rightarrow> nat \<Rightarrow> bool \<Rightarrow> nat" where
  "quoted_loop xs q i escaped =
     (if i < length xs
      then if escaped then quoted_loop xs q (Suc i) False
           else if xs ! i = cu_of CHR 0x5C then quoted_loop xs q (Suc i) True
           else if xs ! i = q then Suc i
           else quoted_loop xs q (Suc i) False
      else length xs)"
  by pat_completeness auto
termination by (relation "measure (\<lambda>(xs, q, i, escaped). length xs - i)") auto

declare quoted_loop.simps [simp del]

definition sourcePrettyQuotedEnd :: "cus \<Rightarrow> nat \<Rightarrow> cu \<Rightarrow> nat" where
  "sourcePrettyQuotedEnd xs start q = quoted_loop xs q (Suc start) False"

text \<open>\<open>None\<close> stands for the two returns of \<open>start + 1\<close>: a line break, or no closing slash.\<close>

function regex_loop :: "cus \<Rightarrow> nat \<Rightarrow> bool \<Rightarrow> bool \<Rightarrow> nat option" where
  "regex_loop xs i escaped characterClass =
     (if i < length xs
      then if escaped then regex_loop xs (Suc i) False characterClass
           else if xs ! i = cu_of CHR 0x5C then regex_loop xs (Suc i) True characterClass
           else if xs ! i = cu_of CHR ''['' then regex_loop xs (Suc i) False True
           else if xs ! i = cu_of CHR '']'' then regex_loop xs (Suc i) False False
           else if xs ! i = cu_of CHR ''/'' \<and> \<not> characterClass then Some (scan_while cu_letter xs (Suc i))
           else if xs ! i = 10 \<or> xs ! i = 13 then None
           else regex_loop xs (Suc i) False characterClass
      else None)"
  by pat_completeness auto
termination by (relation "measure (\<lambda>(xs, i, escaped, characterClass). length xs - i)") auto

declare regex_loop.simps [simp del]

definition sourcePrettyRegexEnd :: "cus \<Rightarrow> nat \<Rightarrow> nat" where
  "sourcePrettyRegexEnd xs start =
     (case regex_loop xs (Suc start) False False of None \<Rightarrow> start + 1 | Some j \<Rightarrow> j)"

definition text_is :: "token \<Rightarrow> string list \<Rightarrow> bool" where
  "text_is t names = (t_text t \<in> set (map us names))"

definition sourcePrettyMayStartRegex :: "token option \<Rightarrow> bool" where
  "sourcePrettyMayStartRegex previous =
     (case previous of
        None \<Rightarrow> True
      | Some p \<Rightarrow>
          if kind p = Word then text_is p SOURCE_PRETTY_REGEX_PREFIXES
          else kind p = Operator \<and> \<not> text_is p ['')'', '']'', ''}'', ''++'', ''--''])"

section \<open>One token\<close>

definition word_start :: "cu \<Rightarrow> bool" where "word_start c = (cu_letter c \<or> c = cu_of CHR ''_'' \<or> c = cu_of CHR ''$'')"
definition word_part :: "cu \<Rightarrow> bool" where "word_part c = (cu_word c \<or> c = cu_of CHR ''$'')"

text \<open>The body of the loop of \<open>sourcePrettyTokens\<close>: the kind pushed and the index reached.\<close>

definition pretty_token :: "language \<Rightarrow> cus \<Rightarrow> token option \<Rightarrow> nat \<Rightarrow> token_kind \<times> nat" where
  "pretty_token lang xs previous i =
     (if at_is xs i is_space then (Whitespace, scan_while is_space xs i)
      else if (lang = JavaScript \<or> lang = Css) \<and> here xs i CHR ''/'' \<and> here xs (i + 1) CHR ''*''
      then (Comment, close_after ''*/'' xs (i + 2))
      else if lang = JavaScript \<and> here xs i CHR ''/'' \<and> here xs (i + 1) CHR ''/''
      then (LineComment, case next_newline xs (i + 2) of None \<Rightarrow> length xs | Some p \<Rightarrow> p)
      else if here xs i CHR 0x22 \<or> here xs i CHR 0x27 \<or> lang = JavaScript \<and> here xs i CHR 0x60
      then (Literal, sourcePrettyQuotedEnd xs i (xs ! i))
      else if lang = JavaScript \<and> here xs i CHR ''/'' \<and> \<not> here xs (i + 1) CHR ''/'' \<and> \<not> here xs (i + 1) CHR ''*'' \<and>
        sourcePrettyMayStartRegex previous \<and> i + 1 < sourcePrettyRegexEnd xs i
      then (Literal, sourcePrettyRegexEnd xs i)
      else if at_is xs i word_start then (Word, scan_while word_part xs (i + 1))
      else if at_is xs i cu_digit \<or> here xs i CHR ''.'' \<and> at_is xs (i + 1) cu_digit
      then (Number, case match_end SOURCE_PRETTY_NUMBER_PATTERN xs i of None \<Rightarrow> i + 1 | Some j \<Rightarrow> j)
      else (Operator, i + (case find (\<lambda>p. starts_at (us p) xs i) SOURCE_PRETTY_OPERATORS of
                             None \<Rightarrow> 1
                           | Some p \<Rightarrow> length p)))"

lemma quoted_loop_bounds: "i \<le> length xs \<Longrightarrow> i \<le> quoted_loop xs q i escaped \<and> quoted_loop xs q i escaped \<le> length xs"
proof (induction "length xs - i" arbitrary: i escaped)
  case 0
  then show ?case by (simp add: quoted_loop.simps [of xs q i])
next
  case (Suc n)
  then have "Suc i \<le> quoted_loop xs q (Suc i) b \<and> quoted_loop xs q (Suc i) b \<le> length xs" for b
    by (intro Suc(1)) auto
  from this [of True] this [of False] Suc(2) show ?case
    by (simp add: quoted_loop.simps [of xs q i escaped])
qed

lemma regex_loop_bounds: "regex_loop xs i escaped cls = Some j \<Longrightarrow> i < j \<and> j \<le> length xs"
proof (induction "length xs - i" arbitrary: i escaped cls)
  case 0
  then show ?case by (simp add: regex_loop.simps [of xs i])
next
  case (Suc n)
  have ih: "i < j \<and> j \<le> length xs" if "regex_loop xs (Suc i) b c = Some j" for b c
    using Suc(1) [of "Suc i" b c] Suc(2) that by (simp add: Suc_diff_Suc [symmetric]) linarith
  have "i < scan_while cu_letter xs (Suc i)" "scan_while cu_letter xs (Suc i) \<le> length xs"
    using scan_while_ge [of "Suc i" cu_letter xs] scan_while_le [of "Suc i" xs cu_letter] Suc(2) by simp_all
  then show ?case using Suc(3) ih
    by (simp add: regex_loop.simps [of xs i escaped cls] split: if_splits)
qed

lemma regex_end_bounds: "i < length xs \<Longrightarrow> i < sourcePrettyRegexEnd xs i \<and> sourcePrettyRegexEnd xs i \<le> length xs"
  using regex_loop_bounds [of xs "Suc i" False False]
  by (auto simp: sourcePrettyRegexEnd_def Suc_le_eq split: option.splits dest: Suc_lessD)

lemma operators_fit:
  "find (\<lambda>p. starts_at (us p) xs i) SOURCE_PRETTY_OPERATORS = Some p \<Longrightarrow> 0 < length p \<and> i + length p \<le> length xs"
proof -
  assume f: "find (\<lambda>p. starts_at (us p) xs i) SOURCE_PRETTY_OPERATORS = Some p"
  then have p: "p \<in> set SOURCE_PRETTY_OPERATORS" "starts_at (us p) xs i" by (auto simp: find_Some_iff)
  have "\<forall>p \<in> set SOURCE_PRETTY_OPERATORS. 0 < length p" by (simp add: SOURCE_PRETTY_OPERATORS_def)
  then have "0 < length p" using p by blast
  moreover have "length p \<le> length xs - i" using p(2) prefix_length_le [of "us p" "drop i xs"] by (simp add: starts_at_def)
  ultimately show ?thesis by linarith
qed

lemma number_consumes: "consumes SOURCE_PRETTY_NUMBER_PATTERN"
  by (simp add: SOURCE_PRETTY_NUMBER_PATTERN_def prefixed_number_def chr_def opt_def)

text \<open>Every branch reaches a later index inside the text.\<close>

lemma pretty_token_bounds:
  assumes i: "i < length xs"
  shows "i < snd (pretty_token lang xs previous i) \<and> snd (pretty_token lang xs previous i) \<le> length xs"
proof -
  have two: "i + 2 \<le> length xs" if "here xs (i + 1) c" for c using that by (simp add: here_def at_is_def)
  have s1: "i < scan_while is_space xs i \<and> scan_while is_space xs i \<le> length xs" if "at_is xs i is_space"
    using scan_while_less [OF that] scan_while_le [of i xs is_space] i by simp
  have s2: "i < close_after ''*/'' xs (i + 2) \<and> close_after ''*/'' xs (i + 2) \<le> length xs" if "here xs (i + 1) CHR ''*''"
    using close_after_bounds [OF two [OF that], of "''*/''"] by linarith
  have s3: "i < (case next_newline xs (i + 2) of None \<Rightarrow> length xs | Some p \<Rightarrow> p) \<and>
      (case next_newline xs (i + 2) of None \<Rightarrow> length xs | Some p \<Rightarrow> p) \<le> length xs"
    using i by (auto simp: next_newline_Some split: option.splits)
  have s4: "i < sourcePrettyQuotedEnd xs i q \<and> sourcePrettyQuotedEnd xs i q \<le> length xs" for q
    using quoted_loop_bounds [of "Suc i" xs q False] i by (simp add: sourcePrettyQuotedEnd_def Suc_le_eq)
  have s5: "i < scan_while word_part xs (i + 1) \<and> scan_while word_part xs (i + 1) \<le> length xs"
    using scan_while_ge [of "i + 1" word_part xs] scan_while_le [of "i + 1" xs word_part] i by simp
  have s6: "i < (case match_end SOURCE_PRETTY_NUMBER_PATTERN xs i of None \<Rightarrow> i + 1 | Some j \<Rightarrow> j) \<and>
      (case match_end SOURCE_PRETTY_NUMBER_PATTERN xs i of None \<Rightarrow> i + 1 | Some j \<Rightarrow> j) \<le> length xs"
    using i match_end_bounds [of _ xs i] match_end_consumes [OF _ _ number_consumes, of xs i]
    by (auto split: option.splits)
  have s7: "i < i + (case find (\<lambda>p. starts_at (us p) xs i) SOURCE_PRETTY_OPERATORS of None \<Rightarrow> 1 | Some p \<Rightarrow> length p) \<and>
      i + (case find (\<lambda>p. starts_at (us p) xs i) SOURCE_PRETTY_OPERATORS of None \<Rightarrow> 1 | Some p \<Rightarrow> length p) \<le> length xs"
    using i operators_fit [of xs i] by (auto split: option.splits)
  show ?thesis
    using s1 s2 s3 s4 s5 s6 s7 regex_end_bounds [OF i] unfolding pretty_token_def by (simp only: split: if_split) simp
qed

lemma pretty_token_pair:
  "(k, j) = pretty_token lang xs previous i \<Longrightarrow> i < length xs \<Longrightarrow> i < j \<and> j \<le> length xs"
  using pretty_token_bounds [of i xs lang previous] by (metis snd_conv)

section \<open>The token list\<close>

definition with_previous :: "token \<Rightarrow> token option \<Rightarrow> token option" where
  "with_previous t previous = (if kind t \<noteq> Whitespace \<and> kind t \<noteq> Comment then Some t else previous)"

text \<open>The loop; \<open>count\<close> is \<open>tokens.length\<close>. It stops because every token is nonempty.\<close>

function pretty_loop :: "language \<Rightarrow> cus \<Rightarrow> nat \<Rightarrow> token option \<Rightarrow> nat \<Rightarrow> string + token list" where
  "pretty_loop lang xs count previous i =
     (if i < length xs
      then let (k, j) = pretty_token lang xs previous i in
        if SOURCE_PRETTY_TOKEN_LIMIT \<le> count then Inl ''Pretty print token limit reached''
        else let t = \<lparr>kind = k, t_start = i, t_end = j, t_text = slice i j xs\<rparr> in
          bindE (pretty_loop lang xs (Suc count) (with_previous t previous) j) (\<lambda>ts. Inr (t # ts))
      else Inr [])"
  by pat_completeness auto
termination
  by (relation "measure (\<lambda>(lang, xs, count, previous, i). length xs - i)") (auto dest!: pretty_token_pair)

declare pretty_loop.simps [simp del]

definition sourcePrettyTokens :: "cus \<Rightarrow> language \<Rightarrow> string + token list" where
  "sourcePrettyTokens xs lang = pretty_loop lang xs 0 None 0"

text \<open>A list of pieces that covers the text from \<open>i\<close> on, without gap or overlap.\<close>

fun tiles :: "cus \<Rightarrow> nat \<Rightarrow> token list \<Rightarrow> bool" where
  "tiles xs i [] = (i = length xs)"
| "tiles xs i (t # ts) =
     (t_start t = i \<and> i < t_end t \<and> t_end t \<le> length xs \<and> t_text t = slice i (t_end t) xs \<and> tiles xs (t_end t) ts)"

lemma tiles_concat: "tiles xs i ts \<Longrightarrow> i \<le> length xs \<Longrightarrow> concat (map t_text ts) = drop i xs"
proof (induction ts arbitrary: i)
  case (Cons t ts)
  have "concat (map t_text ts) = drop (t_end t) xs" by (rule Cons(1)) (use Cons(2) in simp_all)
  then show ?case using Cons(2) slice_append_drop [of i "t_end t" xs] by simp
qed simp

lemma tiles_token:
  "tiles xs i ts \<Longrightarrow> t \<in> set ts \<Longrightarrow>
     i \<le> t_start t \<and> t_start t < t_end t \<and> t_end t \<le> length xs \<and> t_text t = slice (t_start t) (t_end t) xs"
  by (induction xs i ts rule: tiles.induct) auto

lemma pretty_loop_step:
  assumes "i < length xs" "pretty_token lang xs previous i = (k, j)" "count < SOURCE_PRETTY_TOKEN_LIMIT"
  shows "pretty_loop lang xs count previous i =
    (let t = \<lparr>kind = k, t_start = i, t_end = j, t_text = slice i j xs\<rparr> in
     bindE (pretty_loop lang xs (Suc count) (with_previous t previous) j) (\<lambda>ts. Inr (t # ts)))"
  using assms by (simp add: pretty_loop.simps [of lang xs count previous i] Let_def)

lemma pretty_loop_end: "length xs \<le> i \<Longrightarrow> pretty_loop lang xs count previous i = Inr []"
  by (simp add: pretty_loop.simps [of lang xs count previous i])

lemma pretty_loop_full:
  "i < length xs \<Longrightarrow> SOURCE_PRETTY_TOKEN_LIMIT \<le> count \<Longrightarrow>
     pretty_loop lang xs count previous i = Inl ''Pretty print token limit reached''"
  by (simp add: pretty_loop.simps [of lang xs count previous i] split: prod.splits)

lemma pretty_loop_tiles:
  "pretty_loop lang xs count previous i = Inr ts \<Longrightarrow> i \<le> length xs \<Longrightarrow> count \<le> SOURCE_PRETTY_TOKEN_LIMIT \<Longrightarrow>
     tiles xs i ts \<and> count + length ts \<le> SOURCE_PRETTY_TOKEN_LIMIT"
proof (induction "length xs - i" arbitrary: i count previous ts rule: less_induct)
  case less
  show ?case
  proof (cases "i < length xs")
    case i: True
    obtain k j where kj: "pretty_token lang xs previous i = (k, j)" by (cases "pretty_token lang xs previous i")
    then have j: "i < j" "j \<le> length xs" using pretty_token_bounds [OF i, of lang previous] by auto
    have c: "count < SOURCE_PRETTY_TOKEN_LIMIT"
      using less(2) pretty_loop_full [OF i, of count lang previous] by (cases "SOURCE_PRETTY_TOKEN_LIMIT \<le> count") auto
    define t where "t = \<lparr>kind = k, t_start = i, t_end = j, t_text = slice i j xs\<rparr>"
    obtain us where us: "pretty_loop lang xs (Suc count) (with_previous t previous) j = Inr us" "ts = t # us"
      using less(2) by (auto simp: pretty_loop_step [OF i kj c] Let_def t_def [symmetric] bindE_Inr_iff)
    have "tiles xs j us \<and> Suc count + length us \<le> SOURCE_PRETTY_TOKEN_LIMIT"
      using less(1) [OF _ us(1)] i j c by simp
    then show ?thesis using us(2) i j by (simp add: t_def)
  next
    case False
    then show ?thesis using less by (simp add: pretty_loop_end)
  qed
qed

lemma pretty_loop_error:
  "pretty_loop lang xs count previous i = Inl e \<Longrightarrow> e = ''Pretty print token limit reached''"
proof (induction "length xs - i" arbitrary: i count previous rule: less_induct)
  case less
  show ?case
  proof (cases "i < length xs \<and> count < SOURCE_PRETTY_TOKEN_LIMIT")
    case True
    obtain k j where kj: "pretty_token lang xs previous i = (k, j)" by (cases "pretty_token lang xs previous i")
    then have j: "i < j" "j \<le> length xs" using pretty_token_bounds [of i xs lang previous] True by auto
    define t where "t = \<lparr>kind = k, t_start = i, t_end = j, t_text = slice i j xs\<rparr>"
    have "pretty_loop lang xs (Suc count) (with_previous t previous) j = Inl e"
      using less(2) True pretty_loop_step [OF _ kj, of count]
      by (cases "pretty_loop lang xs (Suc count) (with_previous t previous) j") (auto simp: Let_def t_def)
    then show ?thesis using less(1) j True by (meson diff_less_mono2)
  next
    case False
    then show ?thesis using less(2) pretty_loop_full [of i xs count lang previous] pretty_loop_end [of xs i]
      by (cases "i < length xs") auto
  qed
qed

lemma pretty_loop_enough:
  "count + (length xs - i) \<le> SOURCE_PRETTY_TOKEN_LIMIT \<Longrightarrow> \<exists>ts. pretty_loop lang xs count previous i = Inr ts"
proof (induction "length xs - i" arbitrary: i count previous rule: less_induct)
  case less
  show ?case
  proof (cases "i < length xs")
    case i: True
    obtain k j where kj: "pretty_token lang xs previous i = (k, j)" by (cases "pretty_token lang xs previous i")
    then have j: "i < j" "j \<le> length xs" using pretty_token_bounds [OF i, of lang previous] by auto
    have c: "count < SOURCE_PRETTY_TOKEN_LIMIT" "Suc count + (length xs - j) \<le> SOURCE_PRETTY_TOKEN_LIMIT"
      using less(2) i j by linarith+
    then show ?thesis using less(1) [of j "Suc count"] i j
      by (auto simp: pretty_loop_step [OF i kj] Let_def bindE_Inr_iff)
  qed (simp add: pretty_loop_end)
qed

lemma pretty_tokens_tile:
  "sourcePrettyTokens xs lang = Inr ts \<Longrightarrow> tiles xs 0 ts \<and> length ts \<le> SOURCE_PRETTY_TOKEN_LIMIT"
  using pretty_loop_tiles [of lang xs 0 None 0 ts] by (simp add: sourcePrettyTokens_def)

lemma whitespace_token: "pretty_token lang xs previous i = (Whitespace, j) \<Longrightarrow> j = scan_while is_space xs i"
  by (auto simp: pretty_token_def split: if_splits)

lemma whitespace_is_space:
  "pretty_loop lang xs count previous i = Inr ts \<Longrightarrow> t \<in> set ts \<Longrightarrow> kind t = Whitespace \<Longrightarrow> \<forall>c \<in> set (t_text t). is_space c"
proof (induction "length xs - i" arbitrary: i count previous ts rule: less_induct)
  case less
  show ?case
  proof (cases "i < length xs \<and> count < SOURCE_PRETTY_TOKEN_LIMIT")
    case True
    obtain k j where kj: "pretty_token lang xs previous i = (k, j)" by (cases "pretty_token lang xs previous i")
    then have j: "i < j" "j \<le> length xs" using pretty_token_bounds [of i xs lang previous] True by auto
    define t0 where "t0 = \<lparr>kind = k, t_start = i, t_end = j, t_text = slice i j xs\<rparr>"
    obtain us where us: "pretty_loop lang xs (Suc count) (with_previous t0 previous) j = Inr us" "ts = t0 # us"
      using less(2) True pretty_loop_step [OF _ kj, of count] by (auto simp: Let_def t0_def [symmetric] bindE_Inr_iff)
    have "is_space (xs ! m)" if "k = Whitespace" "i \<le> m" "m < j" for m
      using scan_while_all [OF that(2), of is_space xs] whitespace_token [of lang xs previous i j] kj that by simp
    then have "\<forall>c \<in> set (t_text t0). is_space c" if "k = Whitespace"
      using that j by (auto simp: t0_def in_set_conv_nth slice_nth less_diff_conv)
    moreover have "\<forall>c \<in> set (t_text t). is_space c" if "t \<in> set us"
      by (rule less(1) [OF _ us(1) that less(4)]) (use True j in simp)
    ultimately show ?thesis using less(3,4) us(2) by (auto simp: t0_def)
  next
    case False
    then show ?thesis using less(2,3) pretty_loop_full [of i xs count lang previous] pretty_loop_end [of xs i]
      by (cases "i < length xs") auto
  qed
qed

text \<open>
  A line comment counts as the previous token, a block comment does not. So a slash after a
  line comment is always an operator, while after a block comment it can start a literal.
\<close>

lemma line_comment_hides_regex:
  assumes "kind c = LineComment" "here xs i CHR ''/''" "\<not> here xs (i + 1) CHR ''/''" "\<not> here xs (i + 1) CHR ''*''"
  shows "fst (pretty_token JavaScript xs (with_previous c previous) i) = Operator"
proof -
  have "xs ! i = cu_of CHR ''/''" using assms(2) by (simp add: here_def at_is_def)
  then have "\<not> at_is xs i is_space" "\<not> at_is xs i word_start" "\<not> at_is xs i cu_digit" "\<not> here xs i CHR ''.''"
    "\<not> here xs i CHR 0x22" "\<not> here xs i CHR 0x27" "\<not> here xs i CHR 0x60"
    by (simp_all add: here_def at_is_def is_space_def word_start_def cu_digit_def cu_letter_def in_range_def cu_of_def)
  then show ?thesis using assms by (simp add: pretty_token_def with_previous_def sourcePrettyMayStartRegex_def)
qed

lemma block_comment_keeps_previous: "kind c = Comment \<Longrightarrow> with_previous c previous = previous"
  by (simp add: with_previous_def)

section \<open>Properties\<close>

text \<open>
  C16. Tokens lose nothing. When the pretty printer's lexer returns, its tokens are consecutive
  nonempty slices of the text that concatenate to it and there are at most 250000 of them; its
  only error is the token limit, which no text of at most that many units reaches.
\<close>

theorem pretty_tokens_cover:
  "case sourcePrettyTokens xs lang of
     Inr ts \<Rightarrow> concat (map t_text ts) = xs \<and> list_all (\<lambda>t. t_text t \<noteq> [] \<and> t_text t = slice (t_start t) (t_end t) xs) ts \<and>
       length ts \<le> SOURCE_PRETTY_TOKEN_LIMIT
   | Inl e \<Rightarrow> e = ''Pretty print token limit reached'' \<and> SOURCE_PRETTY_TOKEN_LIMIT < length xs"
proof (cases "sourcePrettyTokens xs lang")
  case (Inl e)
  have "SOURCE_PRETTY_TOKEN_LIMIT < length xs"
    using pretty_loop_enough [of 0 xs 0 lang None] Inl by (auto simp: sourcePrettyTokens_def not_le [symmetric])
  moreover have "e = ''Pretty print token limit reached''"
    using pretty_loop_error [of lang xs 0 None 0 e] Inl by (simp add: sourcePrettyTokens_def)
  ultimately show ?thesis by (simp add: Inl)
next
  case (Inr ts)
  then have t: "tiles xs 0 ts" "length ts \<le> SOURCE_PRETTY_TOKEN_LIMIT" using pretty_tokens_tile by auto
  have "t_text t \<noteq> []" if "t \<in> set ts" for t
    using tiles_token [OF t(1) that] by (metis diff_is_0_eq length_slice list.size(3) min.absorb1 not_le)
  then show ?thesis using t tiles_concat [OF t(1)] tiles_token [OF t(1)] Inr by (simp add: list_all_iff)
qed

end
