(* ===== verification/PrettyWriter.thy ===== *)
theory PrettyWriter
  imports SourceLexer
begin

text \<open>
  \<open>createSourcePrettyWriter\<close> of \<open>apps/research-ui/source_syntax.js\<close>: the text written so
  far, the segments that map it back to the original, the indentation and the line state.
  Each operation may throw the \<open>RangeError\<close> of a bound.
\<close>

section \<open>The writer\<close>

definition SOURCE_PRETTY_OUTPUT_LIMIT :: nat where "SOURCE_PRETTY_OUTPUT_LIMIT = 4 * 1024 * 1024"
definition SOURCE_PRETTY_SEGMENT_LIMIT :: nat where "SOURCE_PRETTY_SEGMENT_LIMIT = 500000"

datatype segment_kind = Verbatim | Synthetic

record segment =
  s_kind :: segment_kind
  original_start :: nat
  original_end :: nat
  derived_start :: nat
  derived_end :: nat

record writer =
  w_text :: cus
  segments :: "segment list"
  indent :: nat
  lineStart :: bool

definition createSourcePrettyWriter :: writer where
  "createSourcePrettyWriter = \<lparr>w_text = [], segments = [], indent = 0, lineStart = True\<rparr>"

definition ends_line :: "cus \<Rightarrow> bool" where
  "ends_line xs = (xs \<noteq> [] \<and> last xs = newline)"

definition append_chunk :: "segment_kind \<Rightarrow> cus \<Rightarrow> nat \<Rightarrow> nat \<Rightarrow> writer \<Rightarrow> string + writer" where
  "append_chunk k chunk originalStart originalEnd w =
     (if chunk = [] then Inr w
      else if SOURCE_PRETTY_OUTPUT_LIMIT < length (w_text w) + length chunk
      then Inl ''Pretty-print output exceeds 4 MB''
      else
        let derivedStart = length (w_text w);
            w' = w\<lparr>w_text := w_text w @ chunk, lineStart := ends_line chunk\<rparr>;
            segment = \<lparr>s_kind = k, original_start = originalStart, original_end = originalEnd,
                       derived_start = derivedStart, derived_end = derivedStart + length chunk\<rparr>;
            segs = segments w
        in if segs \<noteq> [] \<and> s_kind (last segs) = k \<and> derived_end (last segs) = derivedStart \<and>
              (k = Synthetic \<or> original_end (last segs) = originalStart)
           then Inr (w'\<lparr>segments := butlast segs @
                  [(last segs)\<lparr>original_end := originalEnd, derived_end := derived_end segment\<rparr>]\<rparr>)
           else if SOURCE_PRETTY_SEGMENT_LIMIT \<le> length segs then Inl ''Pretty print mapping limit reached''
           else Inr (w'\<lparr>segments := segs @ [segment]\<rparr>))"

definition synthetic :: "cus \<Rightarrow> nat \<Rightarrow> writer \<Rightarrow> string + writer" where
  "synthetic chunk anchor = append_chunk Synthetic chunk anchor anchor"

definition original :: "token \<Rightarrow> writer \<Rightarrow> string + writer" where
  "original t w =
     bindE (if lineStart w then synthetic (concat (replicate (min (indent w) 32) (us ''  ''))) (t_start t) w else Inr w)
       (append_chunk Verbatim (t_text t) (t_start t) (t_end t))"

definition space :: "nat \<Rightarrow> writer \<Rightarrow> string + writer" where
  "space anchor w =
     (if \<not> lineStart w \<and> w_text w \<noteq> [] \<and> \<not> is_space (last (w_text w)) then synthetic (us '' '') anchor w else Inr w)"

definition write_newline :: "nat \<Rightarrow> writer \<Rightarrow> string + writer" where
  "write_newline anchor w =
     (if w_text w = [] \<or> ends_line (w_text w) then Inr w
      else bindE (synthetic [newline] anchor w) (\<lambda>w. Inr (w\<lparr>lineStart := True\<rparr>)))"

definition indent_more :: "writer \<Rightarrow> string + writer" where
  "indent_more w = Inr (w\<lparr>indent := indent w + 1\<rparr>)"

definition outdent :: "writer \<Rightarrow> string + writer" where
  "outdent w = Inr (w\<lparr>indent := indent w - 1\<rparr>)"

text \<open>\<open>chunk.replace(/\s+$/, '')\<close> and the trimming loop of \<open>finish\<close>.\<close>

definition trim_end :: "cus \<Rightarrow> cus" where
  "trim_end xs = rev (dropWhile is_space (rev xs))"

lemma trim_end_prefix: "prefix (trim_end xs) xs"
  by (metis suffix_dropWhile suffix_to_prefix rev_rev_ident trim_end_def)

lemma trim_end_shorter: "trim_end xs \<noteq> xs \<Longrightarrow> length (trim_end xs) < length xs"
  using trim_end_prefix [of xs] by (metis nat_neq_iff prefix_length_less prefix_order.dual_order.strict_iff_order)

function finish_loop :: "cus \<Rightarrow> segment list \<Rightarrow> cus \<times> segment list" where
  "finish_loop xs segs =
     (if segs \<noteq> [] \<and> s_kind (last segs) = Synthetic
      then let s = last segs;
               chunk = slice (derived_start s) (derived_end s) xs;
               trimmed = trim_end chunk
        in if trimmed = chunk then (xs, segs)
           else let xs' = take (derived_start s) xs @ trimmed; s' = s\<lparr>derived_end := length xs'\<rparr>
             in if derived_start s' = derived_end s' then finish_loop xs' (butlast segs)
                else finish_loop xs' (butlast segs @ [s'])
      else (xs, segs))"
  by pat_completeness auto
termination
proof (relation "measure (\<lambda>(xs, segs). length xs)", goal_cases)
  case (2 xs segs s chunk trimmed xs' s')
  then have "length trimmed < min (derived_end s) (length xs) - derived_start s"
    using trim_end_shorter [of chunk] by simp
  then show ?case using 2 by simp
next
  case (3 xs segs s chunk trimmed xs' s')
  then have "length trimmed < min (derived_end s) (length xs) - derived_start s"
    using trim_end_shorter [of chunk] by simp
  then show ?case using 3 by simp
qed simp

declare finish_loop.simps [simp del]

record formatted =
  f_text :: cus
  f_segments :: "segment list"

definition finish :: "writer \<Rightarrow> formatted" where
  "finish w = (let (xs, segs) = finish_loop (w_text w) (segments w) in \<lparr>f_text = xs, f_segments = segs\<rparr>)"

section \<open>What the segments say\<close>

definition segment_ok :: "cus \<Rightarrow> cus \<Rightarrow> segment \<Rightarrow> bool" where
  "segment_ok xs out s =
     (case s_kind s of
        Verbatim \<Rightarrow>
          original_start s \<le> original_end s \<and> original_end s \<le> length xs \<and>
          original_end s - original_start s = derived_end s - derived_start s \<and>
          slice (derived_start s) (derived_end s) out = slice (original_start s) (original_end s) xs
      | Synthetic \<Rightarrow> \<forall>c \<in> set (slice (derived_start s) (derived_end s) out). is_space c)"

text \<open>The segments cover the output from \<open>d\<close> to \<open>e\<close>, without gap or overlap.\<close>

fun segments_tile :: "cus \<Rightarrow> cus \<Rightarrow> nat \<Rightarrow> segment list \<Rightarrow> nat \<Rightarrow> bool" where
  "segments_tile xs out d [] e = (d = e)"
| "segments_tile xs out d (s # ss) e =
     (derived_start s = d \<and> d < derived_end s \<and> derived_end s \<le> length out \<and> segment_ok xs out s \<and>
      segments_tile xs out (derived_end s) ss e)"

definition verbatim :: "segment list \<Rightarrow> segment list" where
  "verbatim segs = filter (\<lambda>s. s_kind s = Verbatim) segs"

text \<open>The verbatim output, and that it takes the original from left to right up to \<open>n\<close>.\<close>

definition payload :: "cus \<Rightarrow> segment list \<Rightarrow> cus" where
  "payload out segs = concat (map (\<lambda>s. slice (derived_start s) (derived_end s) out) (verbatim segs))"

definition in_order :: "nat \<Rightarrow> segment list \<Rightarrow> bool" where
  "in_order n segs \<longleftrightarrow>
     sorted_wrt (\<lambda>a b. original_end a \<le> original_start b) (verbatim segs) \<and> (\<forall>s \<in> set (verbatim segs). original_end s \<le> n)"

definition writer_ok :: "cus \<Rightarrow> nat \<Rightarrow> writer \<Rightarrow> bool" where
  "writer_ok xs n w \<longleftrightarrow>
     segments_tile xs (w_text w) 0 (segments w) (length (w_text w)) \<and>
     in_order n (segments w) \<and>
     lineStart w = (w_text w = [] \<or> ends_line (w_text w)) \<and>
     length (w_text w) \<le> SOURCE_PRETTY_OUTPUT_LIMIT \<and>
     length (segments w) \<le> SOURCE_PRETTY_SEGMENT_LIMIT"

definition written :: "writer \<Rightarrow> cus" where
  "written w = payload (w_text w) (segments w)"

lemma verbatim_simps [simp]:
  "verbatim [] = []"
  "verbatim (s # segs) = (if s_kind s = Verbatim then s # verbatim segs else verbatim segs)"
  "verbatim (segs @ segs') = verbatim segs @ verbatim segs'"
  by (simp_all add: verbatim_def)

lemma segments_tile_append:
  "segments_tile xs out d (ss @ ss') e \<longleftrightarrow> (\<exists>m. segments_tile xs out d ss m \<and> segments_tile xs out m ss' e)"
  by (induction ss arbitrary: d) auto

lemma segments_tile_le: "segments_tile xs out d ss e \<Longrightarrow> s \<in> set ss \<Longrightarrow> derived_end s \<le> e \<and> derived_end s \<le> length out"
proof (induction ss arbitrary: d)
  case (Cons a ss)
  have "d' \<le> e" if "segments_tile xs out d' ss e" for d'
    using that by (induction ss arbitrary: d') fastforce+
  then show ?case using Cons by auto
qed simp

lemma segment_ok_extend: "derived_end s \<le> length out \<Longrightarrow> segment_ok xs (out @ c) s = segment_ok xs out s"
  by (simp add: segment_ok_def slice_append_left split: segment_kind.split)

lemma segments_tile_extend:
  "segments_tile xs out d ss e \<Longrightarrow> segments_tile xs (out @ c) d ss e"
  by (induction ss arbitrary: d) (simp_all add: segment_ok_extend)

lemma payload_extend:
  assumes "\<forall>s \<in> set segs. derived_end s \<le> length out"
  shows "payload (out @ c) segs = payload out segs"
proof -
  have "map (\<lambda>s. slice (derived_start s) (derived_end s) (out @ c)) (verbatim segs) =
        map (\<lambda>s. slice (derived_start s) (derived_end s) out) (verbatim segs)"
    using assms by (intro map_cong) (auto simp: verbatim_def slice_append_left)
  then show ?thesis by (simp only: payload_def)
qed

lemma payload_snoc:
  "payload out (segs @ [s]) =
     payload out segs @ (if s_kind s = Verbatim then slice (derived_start s) (derived_end s) out else [])"
  by (simp add: payload_def)

section \<open>Appending\<close>

text \<open>What one append writes: verbatim text of the original, or white space.\<close>

definition chunk_ok :: "cus \<Rightarrow> segment_kind \<Rightarrow> cus \<Rightarrow> nat \<Rightarrow> nat \<Rightarrow> bool" where
  "chunk_ok xs k chunk os oe =
     (case k of
        Verbatim \<Rightarrow> os \<le> oe \<and> oe \<le> length xs \<and> chunk = slice os oe xs
      | Synthetic \<Rightarrow> \<forall>c \<in> set chunk. is_space c)"

text \<open>The new last segment is sound whether it is merged or added.\<close>

lemma merged_ok:
  assumes "segment_ok xs out s" "derived_start s < derived_end s" "derived_end s = length out" "chunk_ok xs (s_kind s) chunk os oe"
    "s_kind s = Synthetic \<or> original_end s = os"
  shows "segment_ok xs (out @ chunk) (s\<lparr>original_end := oe, derived_end := length out + length chunk\<rparr>)"
proof (cases "s_kind s")
  case Verbatim
  then have os: "original_end s = os" using assms(5) by simp
  have sl: "slice (derived_start s) (length out + length chunk) (out @ chunk) = slice (derived_start s) (length out) out @ chunk"
    using assms(2,3) slice_append_slice [of "derived_start s" "length out" "length out + length chunk" "out @ chunk"]
    by (simp add: slice_append_left slice_append_right)
  then show ?thesis
    using assms slice_append_slice [of "original_start s" os oe xs] os Verbatim
    by (auto simp: segment_ok_def chunk_ok_def)
next
  case Synthetic
  have "slice (derived_start s) (length out + length chunk) (out @ chunk) = slice (derived_start s) (length out) out @ chunk"
    using assms(2,3) slice_append_slice [of "derived_start s" "length out" "length out + length chunk" "out @ chunk"]
    by (simp add: slice_append_left slice_append_right)
  then show ?thesis using assms Synthetic by (auto simp: segment_ok_def chunk_ok_def)
qed

lemma added_ok:
  "chunk_ok xs k chunk os oe \<Longrightarrow>
     segment_ok xs (out @ chunk) \<lparr>s_kind = k, original_start = os, original_end = oe,
       derived_start = length out, derived_end = length out + length chunk\<rparr>"
  by (auto simp: segment_ok_def chunk_ok_def slice_append_right split: segment_kind.splits)

text \<open>The frontier of the original text after an append.\<close>

definition frontier :: "segment_kind \<Rightarrow> nat \<Rightarrow> nat \<Rightarrow> nat" where
  "frontier k oe n = (case k of Verbatim \<Rightarrow> oe | Synthetic \<Rightarrow> n)"

lemma in_order_merge:
  assumes "in_order n (ss @ [s])" "s_kind s = Synthetic \<or> original_end s \<le> oe \<and> n \<le> oe"
  shows "in_order (frontier (s_kind s) oe n) (ss @ [s\<lparr>original_end := oe, derived_end := de\<rparr>])"
  using assms by (cases "s_kind s") (auto simp: in_order_def frontier_def sorted_wrt_append intro: order_trans)

lemma in_order_add:
  assumes "in_order n ss" "k = Synthetic \<or> n \<le> os \<and> os \<le> oe"
  shows "in_order (frontier k oe n) (ss @ [\<lparr>s_kind = k, original_start = os, original_end = oe, derived_start = ds, derived_end = de\<rparr>])"
  using assms by (cases k) (auto simp: in_order_def frontier_def sorted_wrt_append intro: order_trans)

lemma append_chunk_ok:
  assumes "append_chunk k chunk os oe w = Inr w'" "writer_ok xs n w" "chunk_ok xs k chunk os oe"
    "k = Synthetic \<or> n \<le> os"
    "chunk \<noteq> []"
  shows "writer_ok xs (frontier k oe n) w' \<and> w_text w' = w_text w @ chunk \<and>
    written w' = written w @ (if k = Verbatim then chunk else []) \<and> indent w' = indent w"
proof -
  define out where "out = w_text w"
  define de where "de = length out + length chunk"
  have w: "segments_tile xs out 0 (segments w) (length out)" "in_order n (segments w)"
    "length (segments w) \<le> SOURCE_PRETTY_SEGMENT_LIMIT"
    using assms(2) by (auto simp: writer_ok_def out_def)
  have limit: "length (out @ chunk) \<le> SOURCE_PRETTY_OUTPUT_LIMIT"
    using assms(1,5) by (auto simp: append_chunk_def out_def Let_def split: if_splits)
  have w': "w_text w' = out @ chunk" "lineStart w' = ends_line chunk" "indent w' = indent w"
    using assms(1,5) by (auto simp: append_chunk_def out_def Let_def split: if_splits)
  have line: "lineStart w' = (w_text w' = [] \<or> ends_line (w_text w'))"
    using assms(5) by (simp add: w' ends_line_def)
  have oo: "k = Synthetic \<or> n \<le> os \<and> os \<le> oe" using assms(3,4) by (auto simp: chunk_ok_def split: segment_kind.splits)
  have ends: "\<forall>s \<in> set (segments w). derived_end s \<le> length out" using segments_tile_le [OF w(1)] by blast
  from assms(1,5) consider
      (merge) ss s where "segments w = ss @ [s]" "s_kind s = k" "derived_end s = length out" "k = Synthetic \<or> original_end s = os"
        "segments w' = ss @ [s\<lparr>original_end := oe, derived_end := de\<rparr>]"
    | (add) "length (segments w) < SOURCE_PRETTY_SEGMENT_LIMIT"
        "segments w' = segments w @ [\<lparr>s_kind = k, original_start = os, original_end = oe, derived_start = length out, derived_end = de\<rparr>]"
    by (cases "segments w" rule: rev_cases) (auto simp: append_chunk_def out_def de_def Let_def split: if_splits)
  then have "segments_tile xs (out @ chunk) 0 (segments w') (length (out @ chunk)) \<and> in_order (frontier k oe n) (segments w') \<and>
    length (segments w') \<le> SOURCE_PRETTY_SEGMENT_LIMIT \<and>
    payload (out @ chunk) (segments w') = payload out (segments w) @ (if k = Verbatim then chunk else [])"
  proof cases
    case merge
    obtain m where m: "segments_tile xs out 0 ss m" "derived_start s = m" "m < derived_end s" "segment_ok xs out s"
      using w(1) unfolding merge(1) segments_tile_append by auto
    have sl: "slice (derived_start s) de (out @ chunk) = slice (derived_start s) (length out) out @ chunk"
      using m(2,3) merge(3) slice_append_slice [of "derived_start s" "length out" de "out @ chunk"]
      by (simp add: de_def slice_append_left slice_append_right)
    have "segment_ok xs (out @ chunk) (s\<lparr>original_end := oe, derived_end := de\<rparr>)"
      unfolding de_def using merged_ok [OF m(4) _ merge(3), of chunk os oe] m(2,3) merge(2,4) assms(3) by auto
    then have t: "segments_tile xs (out @ chunk) 0 (segments w') (length (out @ chunk))"
      unfolding merge(5) segments_tile_append
      using segments_tile_extend [OF m(1), of chunk] m(2,3) merge(3) by (auto simp: de_def)
    have o: "in_order (frontier k oe n) (segments w')"
      unfolding merge(5) merge(2) [symmetric]
      by (rule in_order_merge) (use w(2) merge oo in auto)
    have "payload (out @ chunk) ss = payload out ss"
      by (rule payload_extend) (use ends merge(1) in simp)
    then have "payload (out @ chunk) (segments w') = payload out (segments w) @ (if k = Verbatim then chunk else [])"
      unfolding merge(1,5) payload_snoc using merge(2,3) sl by simp
    then show ?thesis using t o w(3) merge(1,5) by simp
  next
    case add
    have t: "segments_tile xs (out @ chunk) 0 (segments w') (length (out @ chunk))"
      unfolding add(2) segments_tile_append
      using segments_tile_extend [OF w(1), of chunk] added_ok [OF assms(3), of out] assms(5) by (auto simp: de_def)
    have o: "in_order (frontier k oe n) (segments w')"
      unfolding add(2) by (rule in_order_add [OF w(2)]) (use oo in auto)
    have "payload (out @ chunk) (segments w') = payload out (segments w) @ (if k = Verbatim then chunk else [])"
      unfolding add(2) payload_snoc using payload_extend [OF ends, of chunk] by (simp add: de_def slice_append_right)
    then show ?thesis using t o add by simp
  qed
  then show ?thesis using w' line limit by (simp add: writer_ok_def written_def out_def)
qed

section \<open>Operations\<close>

definition token_ok :: "cus \<Rightarrow> token \<Rightarrow> bool" where
  "token_ok xs t \<longleftrightarrow> t_start t < t_end t \<and> t_end t \<le> length xs \<and> t_text t = slice (t_start t) (t_end t) xs"

text \<open>An operation that writes white space or only changes the indentation.\<close>

definition layout :: "(writer \<Rightarrow> string + writer) \<Rightarrow> bool" where
  "layout f \<longleftrightarrow> f = indent_more \<or> f = outdent \<or> (\<exists>a. f = space a \<or> f = write_newline a)"

lemma layout_intros [simp, intro]: "layout indent_more" "layout outdent" "layout (space a)" "layout (write_newline a)"
  by (auto simp: layout_def)

lemma synthetic_ok:
  assumes "synthetic chunk a w = Inr w'" "writer_ok xs n w" "\<forall>c \<in> set chunk. is_space c"
  shows "writer_ok xs n w' \<and> written w' = written w"
proof (cases "chunk = []")
  case True
  then show ?thesis using assms by (simp add: synthetic_def append_chunk_def)
next
  case False
  then show ?thesis
    using append_chunk_ok [of Synthetic chunk a a w w' xs n] assms
    by (simp add: synthetic_def chunk_ok_def frontier_def)
qed

lemma spaces: "is_space newline" "c \<in> set (us '' '') \<Longrightarrow> is_space c" "c \<in> set (us ''  '') \<Longrightarrow> is_space c"
  by (auto simp: is_space_def in_range_def newline_def us_def cu_of_def)

lemma indentation_spaces: "\<forall>c \<in> set (concat (replicate m (us ''  ''))). is_space c"
  by (auto intro: spaces(3) split: if_splits)

lemma write_newline_ok:
  assumes "write_newline a w = Inr w'" "writer_ok xs n w"
  shows "writer_ok xs n w' \<and> written w' = written w"
proof (cases "w_text w = [] \<or> ends_line (w_text w)")
  case True
  then show ?thesis using assms by (simp add: write_newline_def)
next
  case False
  then obtain w1 where w1: "synthetic [newline] a w = Inr w1" "w' = w1\<lparr>lineStart := True\<rparr>"
    using assms(1) by (auto simp: write_newline_def bindE_Inr_iff)
  have "writer_ok xs n w1 \<and> written w1 = written w" by (rule synthetic_ok [OF w1(1) assms(2)]) (simp add: spaces)
  moreover have "w_text w1 = w_text w @ [newline]"
    using append_chunk_ok [of Synthetic "[newline]" a a w w1 xs n] w1(1) assms(2) by (simp add: synthetic_def chunk_ok_def spaces)
  ultimately show ?thesis using w1(2) by (simp add: writer_ok_def written_def ends_line_def)
qed

lemma layout_ok:
  assumes "layout f" "f w = Inr w'" "writer_ok xs n w"
  shows "writer_ok xs n w' \<and> written w' = written w"
proof -
  from assms(1) consider "f = indent_more" | "f = outdent" | a where "f = space a" | a where "f = write_newline a"
    by (auto simp: layout_def)
  then show ?thesis
  proof cases
    case 1
    then show ?thesis using assms by (auto simp: indent_more_def writer_ok_def written_def)
  next
    case 2
    then show ?thesis using assms by (auto simp: outdent_def writer_ok_def written_def)
  next
    case 3
    then show ?thesis using assms synthetic_ok [of "us '' ''" a w w' xs n] by (auto simp: space_def spaces split: if_splits)
  next
    case 4
    then show ?thesis using assms write_newline_ok by blast
  qed
qed

lemma original_ok:
  assumes "original t w = Inr w'" "writer_ok xs n w" "token_ok xs t" "n \<le> t_start t"
  shows "writer_ok xs (t_end t) w' \<and> written w' = written w @ t_text t"
proof -
  obtain w1 where w1: "(if lineStart w then synthetic (concat (replicate (min (indent w) 32) (us ''  ''))) (t_start t) w
      else Inr w) = Inr w1" "append_chunk Verbatim (t_text t) (t_start t) (t_end t) w1 = Inr w'"
    using assms(1) unfolding original_def bindE_Inr_iff by blast
  have ok: "writer_ok xs n w1 \<and> written w1 = written w"
    using w1(1) assms(2) synthetic_ok [OF _ assms(2) indentation_spaces, of "min (indent w) 32" "t_start t" w1]
    by (auto split: if_splits)
  have "t_text t \<noteq> []" using assms(3) by (auto simp: token_ok_def simp flip: length_0_conv)
  then show ?thesis
    using append_chunk_ok [OF w1(2), of xs n] ok assms(3,4) by (simp add: token_ok_def chunk_ok_def frontier_def)
qed

lemma create_ok: "writer_ok xs 0 createSourcePrettyWriter" "written createSourcePrettyWriter = []"
  by (simp_all add: createSourcePrettyWriter_def writer_ok_def in_order_def written_def payload_def)

section \<open>Finishing\<close>

lemma trim_end_spaces: "\<forall>c \<in> set chunk. is_space c \<Longrightarrow> trim_end chunk = []"
  by (simp add: trim_end_def)

lemma segments_tile_shrink:
  "segments_tile xs (a @ c) d ss e \<Longrightarrow> e \<le> length a \<Longrightarrow> segments_tile xs a d ss e"
proof (induction ss arbitrary: d)
  case (Cons s ss)
  then have "derived_end s \<le> length a" using segments_tile_le [OF Cons(2), of s] by simp
  then show ?case using Cons by (simp add: segment_ok_extend)
qed simp

lemma finish_loop_ok:
  assumes "segments_tile xs out 0 segs (length out)" "finish_loop out segs = (out', segs')"
  shows "segments_tile xs out' 0 segs' (length out') \<and> payload out' segs' = payload out segs \<and>
    prefix segs' segs \<and> prefix out' out \<and> (segs' = [] \<or> s_kind (last segs') = Verbatim)"
  using assms
proof (induction segs arbitrary: out rule: rev_induct)
  case Nil
  then show ?case using finish_loop.simps [of out "[]"] by simp
next
  case (snoc s ss)
  show ?case
  proof (cases "s_kind s")
    case Verbatim
    then show ?thesis using snoc by (auto simp: finish_loop.simps [of out])
  next
    case Synthetic
    obtain m where m: "segments_tile xs out 0 ss m" "derived_start s = m" "m < length out" "segment_ok xs out s" "derived_end s = length out"
      using snoc(2) unfolding segments_tile_append by auto
    have sp: "\<forall>c \<in> set (slice m (length out) out). is_space c" using m(2,4,5) Synthetic by (simp add: segment_ok_def)
    have ne: "slice m (length out) out \<noteq> []" using m(3) by (simp flip: length_0_conv)
    have "finish_loop out (ss @ [s]) = finish_loop (take m out) ss"
      using Synthetic m(2,3,5) ne trim_end_spaces [OF sp] by (simp add: finish_loop.simps [of out "ss @ [s]"] Let_def)
    then have step: "finish_loop (take m out) ss = (out', segs')" using snoc(3) by simp
    have "segments_tile xs (take m out @ drop m out) 0 ss m" using m(1) by simp
    then have tile: "segments_tile xs (take m out) 0 ss (length (take m out))"
      using segments_tile_shrink [of xs "take m out" "drop m out" 0 ss m] m(3) by simp
    have "\<forall>s \<in> set ss. derived_end s \<le> length (take m out)" using segments_tile_le [OF tile] by blast
    then have "payload out ss = payload (take m out) ss" using payload_extend [of ss "take m out" "drop m out"] by simp
    then have "payload out (ss @ [s]) = payload (take m out) ss" using Synthetic by (simp add: payload_snoc)
    then show ?thesis using snoc(1) [OF tile step] take_is_prefix [of m out]
      by (auto intro: prefix_order.trans prefixI)
  qed
qed

text \<open>What is not white space.\<close>

definition ink :: "cus \<Rightarrow> cus" where
  "ink xs = filter (\<lambda>c. \<not> is_space c) xs"

lemma ink_append [simp]: "ink (xs @ ys) = ink xs @ ink ys" and ink_Nil [simp]: "ink [] = []"
  by (simp_all add: ink_def)

lemma ink_spaces: "\<forall>c \<in> set xs. is_space c \<Longrightarrow> ink xs = []"
  by (simp add: ink_def)

lemma ink_payload: "segments_tile xs out d segs e \<Longrightarrow> ink (slice d e out) = ink (payload out segs)"
proof (induction segs arbitrary: d)
  case Nil
  then show ?case by (simp add: payload_def)
next
  case (Cons s ss)
  have le: "derived_end s \<le> e" using segments_tile_le [OF Cons(2), of s] by simp
  have "slice d e out = slice d (derived_end s) out @ slice (derived_end s) e out"
    using Cons(2) le by (simp add: slice_append_slice)
  moreover have "ink (slice (derived_end s) e out) = ink (payload out ss)" using Cons by simp
  moreover have "ink (slice d (derived_end s) out) = []" if "s_kind s = Synthetic"
    using Cons(2) that by (intro ink_spaces) (simp add: segment_ok_def)
  ultimately show ?case using Cons(2) by (cases "s_kind s") (auto simp: payload_def)
qed

text \<open>A formatted text whose segments cover it and whose verbatim part is given.\<close>

definition formatted_ok :: "cus \<Rightarrow> cus \<Rightarrow> formatted \<Rightarrow> bool" where
  "formatted_ok xs verbatim_text f \<longleftrightarrow>
     segments_tile xs (f_text f) 0 (f_segments f) (length (f_text f)) \<and>
     sorted_wrt (\<lambda>a b. original_end a \<le> original_start b) (verbatim (f_segments f)) \<and>
     payload (f_text f) (f_segments f) = verbatim_text \<and>
     ink (f_text f) = ink verbatim_text \<and>
     (f_segments f = [] \<or> s_kind (last (f_segments f)) = Verbatim) \<and>
     length (f_text f) \<le> SOURCE_PRETTY_OUTPUT_LIMIT \<and>
     length (f_segments f) \<le> SOURCE_PRETTY_SEGMENT_LIMIT"

lemma finish_ok:
  assumes "writer_ok xs n w"
  shows "formatted_ok xs (written w) (finish w)"
proof -
  obtain out segs where fl: "finish_loop (w_text w) (segments w) = (out, segs)" by (cases "finish_loop (w_text w) (segments w)")
  have w: "segments_tile xs (w_text w) 0 (segments w) (length (w_text w))" "in_order n (segments w)"
    "length (w_text w) \<le> SOURCE_PRETTY_OUTPUT_LIMIT" "length (segments w) \<le> SOURCE_PRETTY_SEGMENT_LIMIT"
    using assms by (auto simp: writer_ok_def)
  have f: "segments_tile xs out 0 segs (length out)" "payload out segs = written w" "prefix segs (segments w)"
      "prefix out (w_text w)" "segs = [] \<or> s_kind (last segs) = Verbatim"
    using finish_loop_ok [OF w(1) fl] by (auto simp: written_def)
  obtain rest where "segments w = segs @ rest" using f(3) by (auto elim: prefixE)
  then have "sorted_wrt (\<lambda>a b. original_end a \<le> original_start b) (verbatim segs)"
    using w(2) by (simp add: in_order_def sorted_wrt_append)
  moreover have "length out \<le> SOURCE_PRETTY_OUTPUT_LIMIT" "length segs \<le> SOURCE_PRETTY_SEGMENT_LIMIT"
    using prefix_length_le [OF f(3)] prefix_length_le [OF f(4)] w(3,4) by simp_all
  moreover have "ink out = ink (written w)" using ink_payload [OF f(1)] f(2) by simp
  ultimately show ?thesis using f by (simp add: finish_def fl formatted_ok_def)
qed

end
