(* ===== verification/PrettyPrint.thy ===== *)
theory PrettyPrint
  imports PrettyWriter
begin

text \<open>
  \<open>prettyPrintStructuredSource\<close> and \<open>prettyPrintCssSource\<close> of
  \<open>apps/research-ui/source_syntax.js\<close>: for each token a plan of writer operations and the
  new nesting state. The printers rely on the writer only through the contract of a locale: one
  emission per token, everything else layout.
\<close>

section \<open>Printers over a token writer\<close>

text \<open>The operations of one step, in order.\<close>

fun run_ops :: "('w \<Rightarrow> string + 'w) list \<Rightarrow> 'w \<Rightarrow> string + 'w" where
  "run_ops [] w = Inr w"
| "run_ops (f # ops) w = bindE (f w) (run_ops ops)"

text \<open>One emission of the token, surrounded by layout.\<close>

definition emits :: "(('w \<Rightarrow> string + 'w) \<Rightarrow> bool) \<Rightarrow> ('w \<Rightarrow> string + 'w) \<Rightarrow> ('w \<Rightarrow> string + 'w) list \<Rightarrow> bool" where
  "emits lay f ops \<longleftrightarrow> (\<exists>pre post. ops = pre @ f # post \<and> (\<forall>g \<in> set pre \<union> set post. lay g))"

text \<open>\<open>tokens[index + 1] ?? null\<close> and the loop over the tokens.\<close>

definition next_token :: "token list \<Rightarrow> token option" where
  "next_token ts = (case ts of [] \<Rightarrow> None | t # _ \<Rightarrow> Some t)"

fun print_loop :: "(token \<Rightarrow> token option \<Rightarrow> 's \<Rightarrow> string + 's) \<Rightarrow> token list \<Rightarrow> 's \<Rightarrow> string + 's" where
  "print_loop step [] s = Inr s"
| "print_loop step (t # ts) s = bindE (step t (next_token ts) s) (print_loop step ts)"

text \<open>Tokens in the order of the text, from \<open>n\<close> on.\<close>

fun ordered_tokens :: "(token \<Rightarrow> bool) \<Rightarrow> nat \<Rightarrow> token list \<Rightarrow> bool" where
  "ordered_tokens fits n [] = True"
| "ordered_tokens fits n (t # ts) = (fits t \<and> n \<le> t_start t \<and> ordered_tokens fits (t_end t) ts)"

locale token_writer =
  fixes ok :: "nat \<Rightarrow> 'w \<Rightarrow> bool"
    and out :: "'w \<Rightarrow> cus"
    and emit :: "token \<Rightarrow> 'w \<Rightarrow> string + 'w"
    and lay :: "('w \<Rightarrow> string + 'w) \<Rightarrow> bool"
    and fits :: "token \<Rightarrow> bool"
  assumes emit_ok: "\<And>t w w' n. emit t w = Inr w' \<Longrightarrow> ok n w \<Longrightarrow> fits t \<Longrightarrow> n \<le> t_start t \<Longrightarrow>
      ok (t_end t) w' \<and> out w' = out w @ t_text t"
    and lay_ok: "\<And>f w w' n. lay f \<Longrightarrow> f w = Inr w' \<Longrightarrow> ok n w \<Longrightarrow> ok n w' \<and> out w' = out w"
begin

lemma run_layout: "\<forall>f \<in> set ops. lay f \<Longrightarrow> run_ops ops w = Inr w' \<Longrightarrow> ok n w \<Longrightarrow> ok n w' \<and> out w' = out w"
proof (induction ops arbitrary: w)
  case (Cons f ops)
  then obtain u where u: "f w = Inr u" "run_ops ops u = Inr w'" by (auto simp: bindE_Inr_iff)
  have "lay f" using Cons(2) by simp
  then have "ok n u \<and> out u = out w" using u(1) Cons(4) by (rule lay_ok)
  then show ?case using Cons(1) [OF _ u(2)] Cons(2) by simp
qed simp

lemma run_ops_append: "run_ops (a @ b) w = bindE (run_ops a w) (run_ops b)"
  by (induction a arbitrary: w) (simp_all add: bindE_assoc cong: bindE_cong)

lemma run_emits:
  assumes "emits lay (emit t) ops" "run_ops ops w = Inr w'" "ok n w" "fits t" "n \<le> t_start t"
  shows "ok (t_end t) w' \<and> out w' = out w @ t_text t"
proof -
  obtain pre post where ops: "ops = pre @ emit t # post" "\<forall>g \<in> set pre. lay g" "\<forall>g \<in> set post. lay g"
    using assms(1) by (auto simp: emits_def)
  obtain w1 w2 where w: "run_ops pre w = Inr w1" "emit t w1 = Inr w2" "run_ops post w2 = Inr w'"
    using assms(2) unfolding ops(1) run_ops_append by (auto simp: bindE_Inr_iff)
  have 1: "ok n w1 \<and> out w1 = out w" by (rule run_layout [OF ops(2) w(1) assms(3)])
  have 2: "ok (t_end t) w2 \<and> out w2 = out w1 @ t_text t" using emit_ok [OF w(2) _ assms(4,5)] 1 by blast
  show ?thesis using run_layout [OF ops(3) w(3)] 1 2 by metis
qed

end

text \<open>A printer: a step that runs such a plan on the writer it carries.\<close>

locale printer = token_writer ok out emit lay fits
  for ok :: "nat \<Rightarrow> 'w \<Rightarrow> bool" and out emit lay fits +
  fixes step :: "token \<Rightarrow> token option \<Rightarrow> 's \<Rightarrow> string + 's"
    and writer_of :: "'s \<Rightarrow> 'w"
  assumes step_emits: "\<And>t nx s s'. step t nx s = Inr s' \<Longrightarrow>
      \<exists>ops. emits lay (emit t) ops \<and> run_ops ops (writer_of s) = Inr (writer_of s')"
begin

lemma print_loop_ok:
  "print_loop step ts s = Inr s' \<Longrightarrow> ok n (writer_of s) \<Longrightarrow> ordered_tokens fits n ts \<Longrightarrow>
     (\<exists>m. ok m (writer_of s')) \<and> out (writer_of s') = out (writer_of s) @ concat (map t_text ts)"
proof (induction ts arbitrary: s n)
  case (Cons t ts)
  then obtain u where u: "step t (next_token ts) s = Inr u" "print_loop step ts u = Inr s'"
    by (auto simp: bindE_Inr_iff)
  obtain ops where ops: "emits lay (emit t) ops" "run_ops ops (writer_of s) = Inr (writer_of u)"
    using step_emits [OF u(1)] by blast
  have "ok (t_end t) (writer_of u) \<and> out (writer_of u) = out (writer_of s) @ t_text t"
    by (rule run_emits [OF ops Cons(3)]) (use Cons(4) in auto)
  then show ?case using Cons(1) [OF u(2), of "t_end t"] Cons(4) by simp
qed auto

end

interpretation src_writer: token_writer "writer_ok xs" written original layout "token_ok xs" for xs
  by unfold_locales (rule original_ok layout_ok; assumption)+

section \<open>JavaScript and JSON\<close>

definition SOURCE_PRETTY_CONTROL_WORDS :: "string list" where
  "SOURCE_PRETTY_CONTROL_WORDS = [''catch'', ''for'', ''if'', ''switch'', ''while'', ''with'']"

record nesting =
  wr :: writer
  parens :: nat
  brackets :: nat
  braces :: nat
  multilineBrackets :: "bool list"
  forDepth :: "nat option"
  prev :: "token option"
  pendingFor :: bool

text \<open>\<open>x?.text\<close> is one of the names, and \<open>x?.kind\<close> one of the kinds.\<close>

definition opt_text :: "token option \<Rightarrow> string list \<Rightarrow> bool" where
  "opt_text x names = (case x of None \<Rightarrow> False | Some t \<Rightarrow> text_is t names)"

definition opt_kind :: "token option \<Rightarrow> token_kind list \<Rightarrow> bool" where
  "opt_kind x kinds = (case x of None \<Rightarrow> False | Some t \<Rightarrow> kind t \<in> set kinds)"

definition ops_if :: "bool \<Rightarrow> 'a list \<Rightarrow> 'a list" where
  "ops_if b xs = (if b then xs else [])"

text \<open>The operator branches: the operations, and the counters they change.\<close>

definition operator_plan :: "language \<Rightarrow> token \<Rightarrow> token option \<Rightarrow> nesting \<Rightarrow> (writer \<Rightarrow> string + writer) list \<times> nesting" where
  "operator_plan lang t nx s =
     (let sp = space (t_start t); nl = write_newline (t_start t); put = original t;
          sp_after = space (t_end t); nl_after = write_newline (t_end t); previous = prev s
      in
      if text_is t [''{''] then
        (sp # put # ops_if (\<not> opt_text nx [''}'']) [indent_more, nl_after], s\<lparr>braces := braces s + 1\<rparr>)
      else if text_is t [''}''] then
        (ops_if (\<not> opt_text previous [''{'']) [outdent] @
         ops_if (\<not> lineStart (wr s) \<and> \<not> opt_text previous [''{'']) [nl] @
         put #
         (if nx \<noteq> None \<and> \<not> opt_text nx ['';'', '','', '')'', '']'', ''.'', ''?.''] \<and>
             \<not> opt_text nx [''else'', ''catch'', ''finally'', ''while''] then [nl_after]
          else ops_if (opt_text nx [''else'', ''catch'', ''finally'']) [sp_after]),
         s\<lparr>braces := braces s - 1\<rparr>)
      else if text_is t [''(''] then
        (ops_if (opt_kind previous [Word] \<and> opt_text previous SOURCE_PRETTY_CONTROL_WORDS) [sp] @ [put],
         s\<lparr>parens := parens s + 1,
           forDepth := (if pendingFor s then Some (parens s + 1) else forDepth s),
           pendingFor := False\<rparr>)
      else if text_is t ['')''] then
        ([put],
         s\<lparr>forDepth := (if forDepth s = Some (parens s) then None else forDepth s), parens := parens s - 1\<rparr>)
      else if text_is t [''[''] then
        (let multiline = (lang = Json \<or> previous = None \<or> opt_kind previous [Operator] \<and> \<not> opt_text previous ['')'', '']''])
         in (put # ops_if (multiline \<and> \<not> opt_text nx ['']'']) [indent_more, nl_after],
             s\<lparr>brackets := brackets s + 1, multilineBrackets := multiline # multilineBrackets s\<rparr>))
      else if text_is t ['']''] then
        (let multiline = (case multilineBrackets s of [] \<Rightarrow> False | b # _ \<Rightarrow> b)
         in (ops_if (multiline \<and> \<not> opt_text previous [''['']) [outdent, nl] @ [put],
             s\<lparr>brackets := brackets s - 1, multilineBrackets := List.tl (multilineBrackets s)\<rparr>))
      else if text_is t ['';''] then ([put, if forDepth s = None then nl_after else sp_after], s)
      else if text_is t ['',''] then
        ([put, if lang = Json \<or> lang = JavaScript \<and> parens s = 0 \<and> (0 < braces s \<or> 0 < brackets s)
               then nl_after else sp_after], s)
      else if text_is t ['':''] then ([put, sp_after], s)
      else if text_is t [''.''] then ([put], s)
      else if text_is t [''?.''] then ([put], s)
      else if text_is t [''++'', ''--'', ''!'', ''~''] then ([put], s)
      else if text_is t [''?''] then ([sp, put, sp_after], s)
      else ([sp, put, sp_after], s))"

text \<open>The body of the loop: comments, words, numbers and literals, operators.\<close>

definition structured_plan :: "language \<Rightarrow> token \<Rightarrow> token option \<Rightarrow> nesting \<Rightarrow> (writer \<Rightarrow> string + writer) list \<times> nesting" where
  "structured_plan lang t nx s =
     (let sp = space (t_start t); put = original t; nl_after = write_newline (t_end t); previous = prev s in
      if kind t = LineComment then ([sp, put, nl_after], s)
      else if kind t = Comment then
        (sp # put # ops_if (newline \<in> set (t_text t) \<or> nx \<noteq> None) [nl_after], s)
      else if kind t = Word then
        (ops_if (opt_kind previous [Word, Number, Literal]) [sp] @
         ops_if (opt_text previous ['')''] \<or> opt_text previous ['']'']) [sp] @ [put],
         s\<lparr>pendingFor := (text_is t [''for''] \<or> pendingFor s)\<rparr>)
      else if kind t = Number \<or> kind t = Literal then
        (ops_if (opt_kind previous [Word, Number, Literal]) [sp] @ [put], s)
      else operator_plan lang t nx s)"

definition structured_step :: "language \<Rightarrow> token \<Rightarrow> token option \<Rightarrow> nesting \<Rightarrow> string + nesting" where
  "structured_step lang t nx s =
     (let (ops, s') = structured_plan lang t nx s in
      bindE (run_ops ops (wr s)) (\<lambda>w. Inr (s'\<lparr>wr := w, prev := Some t\<rparr>)))"

definition prettyPrintStructuredSource :: "cus \<Rightarrow> language \<Rightarrow> string + formatted" where
  "prettyPrintStructuredSource xs lang =
     bindE (sourcePrettyTokens xs lang) (\<lambda>tokens.
       bindE (print_loop (structured_step lang) (filter (\<lambda>t. kind t \<noteq> Whitespace) tokens)
               \<lparr>wr = createSourcePrettyWriter, parens = 0, brackets = 0, braces = 0, multilineBrackets = [],
                forDepth = None, prev = None, pendingFor = False\<rparr>)
         (\<lambda>s. Inr (finish (wr s))))"

lemma emits_around: "\<forall>g \<in> set pre \<union> set post. layout g \<Longrightarrow> emits layout (original t) (pre @ original t # post)"
  unfolding emits_def by blast

lemma layout_ops_if: "\<forall>g \<in> set gs. layout g \<Longrightarrow> g \<in> set (ops_if b gs) \<Longrightarrow> layout g"
  by (simp add: ops_if_def split: if_splits)

lemma emits_Cons: "layout g \<Longrightarrow> emits layout (original t) ops \<Longrightarrow> emits layout (original t) (g # ops)"
  unfolding emits_def by (elim exE) (metis Un_iff append_Cons set_ConsD)

lemma emits_put: "\<forall>g \<in> set post. layout g \<Longrightarrow> emits layout (original t) (original t # post)"
  using emits_around [of "[]" post t] by simp

lemma emits_append: "\<forall>g \<in> set pre. layout g \<Longrightarrow> emits layout (original t) ops \<Longrightarrow> emits layout (original t) (pre @ ops)"
  by (induction pre) (auto intro: emits_Cons)

lemma emits_if: "(b \<Longrightarrow> emits layout f (fst x)) \<Longrightarrow> (\<not> b \<Longrightarrow> emits layout f (fst y)) \<Longrightarrow> emits layout f (fst (if b then x else y))"
  by simp

lemmas emits_intros = emits_put emits_Cons emits_append

lemma structured_emits: "emits layout (original t) (fst (structured_plan lang t nx s))"
  unfolding structured_plan_def operator_plan_def Let_def
  by (intro emits_if) (auto intro!: emits_intros split: list.splits simp: ops_if_def)

interpretation structured_printer:
  printer "writer_ok xs" written original layout "token_ok xs" "structured_step lang" wr for xs lang
proof unfold_locales
  fix t nx s s'
  assume "structured_step lang t nx s = Inr s'"
  then have "run_ops (fst (structured_plan lang t nx s)) (wr s) = Inr (wr s')"
    by (auto simp: structured_step_def bindE_Inr_iff split: prod.splits)
  with structured_emits show "\<exists>ops. emits layout (original t) ops \<and> run_ops ops (wr s) = Inr (wr s')" by blast
qed

section \<open>CSS\<close>

record css_state =
  css_writer :: writer
  depth :: nat
  css_prev :: "token option"

definition css_plan :: "token \<Rightarrow> token option \<Rightarrow> css_state \<Rightarrow> (writer \<Rightarrow> string + writer) list \<times> nat" where
  "css_plan t nx s =
     (let sp = space (t_start t); put = original t; nl_after = write_newline (t_end t); previous = css_prev s in
      if kind t = Comment then ([put, nl_after], depth s)
      else if kind t \<noteq> Operator then
        (ops_if (previous \<noteq> None \<and> \<not> opt_text previous ['':'', ''('', ''['', ''.'', ''#'', ''-'', ''@'']) [sp] @ [put], depth s)
      else if text_is t [''{''] then
        (sp # put # ops_if (\<not> opt_text nx [''}'']) [indent_more, nl_after], depth s + 1)
      else if text_is t [''}''] then
        (ops_if (\<not> opt_text previous [''{'']) [outdent] @ write_newline (t_start t) # put # ops_if (nx \<noteq> None) [nl_after],
         depth s - 1)
      else if text_is t ['';''] then ([put, nl_after], depth s)
      else if text_is t ['':''] then ([put, space (t_end t)], depth s)
      else if text_is t ['',''] \<and> depth s = 0 then ([put, nl_after], depth s)
      else ([put], depth s))"

definition css_step :: "token \<Rightarrow> token option \<Rightarrow> css_state \<Rightarrow> string + css_state" where
  "css_step t nx s =
     (let (ops, d) = css_plan t nx s in
      bindE (run_ops ops (css_writer s)) (\<lambda>w. Inr \<lparr>css_writer = w, depth = d, css_prev = Some t\<rparr>))"

definition prettyPrintCssSource :: "cus \<Rightarrow> string + formatted" where
  "prettyPrintCssSource xs =
     bindE (sourcePrettyTokens xs Css) (\<lambda>tokens.
       bindE (print_loop css_step (filter (\<lambda>t. kind t \<noteq> Whitespace) tokens)
               \<lparr>css_writer = createSourcePrettyWriter, depth = 0, css_prev = None\<rparr>)
         (\<lambda>s. Inr (finish (css_writer s))))"

lemma css_emits: "emits layout (original t) (fst (css_plan t nx s))"
  unfolding css_plan_def Let_def
  by (intro emits_if) (auto intro!: emits_intros simp: ops_if_def)

interpretation css_printer:
  printer "writer_ok xs" written original layout "token_ok xs" css_step css_writer for xs
proof unfold_locales
  fix t nx s s'
  assume "css_step t nx s = Inr s'"
  then have "run_ops (fst (css_plan t nx s)) (css_writer s) = Inr (css_writer s')"
    by (auto simp: css_step_def bindE_Inr_iff split: prod.splits)
  with css_emits show "\<exists>ops. emits layout (original t) ops \<and> run_ops ops (css_writer s) = Inr (css_writer s')" by blast
qed

section \<open>What the printers write\<close>

abbreviation significant :: "token list \<Rightarrow> token list" where
  "significant tokens \<equiv> filter (\<lambda>t. kind t \<noteq> Whitespace) tokens"

abbreviation tokens_text :: "token list \<Rightarrow> cus" where
  "tokens_text tokens \<equiv> concat (map t_text tokens)"

lemma tiles_ordered: "tiles xs i ts \<Longrightarrow> n \<le> i \<Longrightarrow> ordered_tokens (token_ok xs) n (filter P ts)"
  by (induction ts arbitrary: i n) (auto simp: token_ok_def)

lemma significant_ink:
  assumes "sourcePrettyTokens xs lang = Inr ts"
  shows "ink (tokens_text (significant ts)) = ink xs"
proof -
  have ws: "ink (t_text t) = []" if "t \<in> set ts" "kind t = Whitespace" for t
    using whitespace_is_space [of lang xs 0 None 0 ts t] assms that by (intro ink_spaces) (simp add: sourcePrettyTokens_def)
  have "ink (tokens_text (significant ss)) = ink (tokens_text ss)" if "set ss \<subseteq> set ts" for ss
    using that ws by (induction ss) auto
  moreover have "tokens_text ts = xs"
    using tiles_concat [of xs 0 ts] pretty_tokens_tile [OF assms] by simp
  ultimately show ?thesis by auto
qed

lemma structured_output:
  assumes "prettyPrintStructuredSource xs lang = Inr f"
  shows "\<exists>ts. sourcePrettyTokens xs lang = Inr ts \<and> formatted_ok xs (tokens_text (significant ts)) f"
proof -
  obtain ts s where ts: "sourcePrettyTokens xs lang = Inr ts" "f = finish (wr s)"
    "print_loop (structured_step lang) (significant ts)
      \<lparr>wr = createSourcePrettyWriter, parens = 0, brackets = 0, braces = 0, multilineBrackets = [],
       forDepth = None, prev = None, pendingFor = False\<rparr> = Inr s"
    using assms unfolding prettyPrintStructuredSource_def bindE_Inr_iff by blast
  have "ordered_tokens (token_ok xs) 0 (significant ts)"
    by (rule tiles_ordered) (use pretty_tokens_tile [OF ts(1)] in auto)
  then have "(\<exists>m. writer_ok xs m (wr s)) \<and> written (wr s) = tokens_text (significant ts)"
    using structured_printer.print_loop_ok [OF ts(3), of xs 0] create_ok by simp
  then show ?thesis using finish_ok ts by metis
qed

lemma css_output:
  assumes "prettyPrintCssSource xs = Inr f"
  shows "\<exists>ts. sourcePrettyTokens xs Css = Inr ts \<and> formatted_ok xs (tokens_text (significant ts)) f"
proof -
  obtain ts s where ts: "sourcePrettyTokens xs Css = Inr ts" "f = finish (css_writer s)"
    "print_loop css_step (significant ts) \<lparr>css_writer = createSourcePrettyWriter, depth = 0, css_prev = None\<rparr> = Inr s"
    using assms unfolding prettyPrintCssSource_def bindE_Inr_iff by blast
  have "ordered_tokens (token_ok xs) 0 (significant ts)"
    by (rule tiles_ordered) (use pretty_tokens_tile [OF ts(1)] in auto)
  then have "(\<exists>m. writer_ok xs m (css_writer s)) \<and> written (css_writer s) = tokens_text (significant ts)"
    using css_printer.print_loop_ok [OF ts(3), of xs 0] create_ok by simp
  then show ?thesis using finish_ok ts by metis
qed

end
