(* ===== verification/PrettyMarkup.thy ===== *)
theory PrettyMarkup
  imports PrettyPrint
begin

text \<open>
  \<open>sourcePrettyMarkupTokens\<close>, \<open>prettyPrintMarkupSource\<close> and the entry point
  \<open>prettyPrintSource\<close> of \<open>apps/research-ui/source_syntax.js\<close>.
\<close>

section \<open>Patterns of tags\<close>

definition to_lower :: "cu \<Rightarrow> cu" where
  "to_lower c = (if in_range 65 90 c then c + 32 else c)"

text \<open>
  \<open>value.toLowerCase()\<close> as far as a search for ASCII letters sees it: the capital letters,
  and U+0130, which becomes two units. No other unit changes the length of the text, and none
  becomes a letter of the searched names.
\<close>

definition lower_units :: "cu \<Rightarrow> cus" where
  "lower_units c = (if c = 0x130 then [0x69, 0x307] else [to_lower c])"

definition toLowerCase :: "cus \<Rightarrow> cus" where
  "toLowerCase xs = concat (map lower_units xs)"

text \<open>A literal under the flag \<open>i\<close>, and \<open>pattern.test(value)\<close> without an anchor.\<close>

definition lit_i :: "string \<Rightarrow> re" where
  "lit_i s = seqs (map (\<lambda>c. Cls (\<lambda>x. to_lower x = cu_of c)) s)"

definition matches_at :: "re \<Rightarrow> cus \<Rightarrow> nat \<Rightarrow> bool" where
  "matches_at r xs i = (match_end r xs i \<noteq> None)"

definition test_anywhere :: "re \<Rightarrow> cus \<Rightarrow> bool" where
  "test_anywhere r xs = list_ex (matches_at r xs) [0..<Suc (length xs)]"

abbreviation blanks :: re where "blanks \<equiv> Star (Cls is_space)"

definition raw_tag_pattern :: "string \<Rightarrow> re" where
  "raw_tag_pattern name = seqs [chr CHR ''<'', blanks, lit_i name, word_boundary]"

definition raw_tag :: "cus \<Rightarrow> string option" where
  "raw_tag tag =
     (if matches_at (raw_tag_pattern ''script'') tag 0 then Some ''script''
      else if matches_at (raw_tag_pattern ''style'') tag 0 then Some ''style''
      else None)"

definition ends_with_slash :: "cus \<Rightarrow> bool" where
  "ends_with_slash tag = test_anywhere (seqs [chr CHR ''/'', blanks, chr CHR ''>'', end_of_text]) tag"

definition void_tag :: re where
  "void_tag =
     seqs [chr CHR ''<'', blanks,
           alts (map lit_i [''area'', ''base'', ''br'', ''col'', ''embed'', ''hr'', ''img'', ''input'', ''link'', ''meta'',
                            ''param'', ''source'', ''track'', ''wbr'']),
           word_boundary]"

section \<open>Tokens\<close>

text \<open>
  The text between two offsets without the white space at its ends, when anything is left:
  \<open>search(/\S/)\<close> and \<open>match(/\s*$/)\<close> on slices.
\<close>

definition trimmed_piece :: "token_kind \<Rightarrow> cus \<Rightarrow> nat \<Rightarrow> nat \<Rightarrow> token list" where
  "trimmed_piece k xs a b =
     (let leading = length (takeWhile is_space (slice a b xs)) in
      if leading = length (slice a b xs) then []
      else
        let start = a + leading;
            trailing = length (takeWhile is_space (rev (slice start b xs)))
        in [\<lparr>kind = k, t_start = start, t_end = b - trailing, t_text = slice start (b - trailing) xs\<rparr>])"

text \<open>The \<open>for\<close> loop over a tag, with the open quote.\<close>

function tag_loop :: "cus \<Rightarrow> cu option \<Rightarrow> nat \<Rightarrow> nat" where
  "tag_loop xs quote i =
     (if i < length xs
      then case quote of
          Some q \<Rightarrow>
            if here xs i CHR 0x5C then tag_loop xs quote (i + 2)
            else if xs ! i = q then tag_loop xs None (i + 1)
            else tag_loop xs quote (i + 1)
        | None \<Rightarrow>
            if here xs i CHR 0x22 \<or> here xs i CHR 0x27 then tag_loop xs (Some (xs ! i)) (i + 1)
            else if here xs i CHR ''>'' then i + 1
            else tag_loop xs quote (i + 1)
      else i)"
  by pat_completeness auto
termination by (relation "measure (\<lambda>(xs, quote, i). length xs - i)") auto

declare tag_loop.simps [simp del]

definition tag_end :: "cus \<Rightarrow> nat \<Rightarrow> nat" where
  "tag_end xs i =
     (if starts_at (us ''<!--'') xs i then close_after ''-->'' xs (i + 4) else tag_loop xs None (i + 1))"

text \<open>The script or style text after a tag that ends at \<open>j\<close>, and the index after it.\<close>

definition raw_part :: "cus \<Rightarrow> cus \<Rightarrow> nat \<Rightarrow> token list \<times> nat" where
  "raw_part xs tag j =
     (case raw_tag tag of
        Some name \<Rightarrow>
          if ends_with_slash tag then ([], j)
          else (case index_of (us (''</'' @ name)) (toLowerCase xs) j of
                  None \<Rightarrow> ([], j)
                | Some close \<Rightarrow> (trimmed_piece RawText xs j close, close))
      | None \<Rightarrow> ([], j))"

text \<open>One iteration: the tokens pushed and the index reached.\<close>

definition markup_item :: "cus \<Rightarrow> nat \<Rightarrow> token list \<times> nat" where
  "markup_item xs i =
     (if \<not> here xs i CHR ''<''
      then let boundary = (case index_of (us ''<'') xs i of None \<Rightarrow> length xs | Some e \<Rightarrow> e)
        in (trimmed_piece TextRun xs i boundary, boundary)
      else
        let j = tag_end xs i;
            tag = slice i j xs;
            (raw, k) = raw_part xs tag j
        in (\<lparr>kind = Tag, t_start = i, t_end = j, t_text = tag\<rparr> # raw, k))"

lemma trimmed_piece_end: "a \<le> b \<Longrightarrow> t \<in> set (trimmed_piece k xs a b) \<Longrightarrow> t_end t \<le> b"
  by (auto simp: trimmed_piece_def Let_def split: if_splits)

lemma tag_loop_ge: "i \<le> tag_loop xs quote i"
proof (induction xs quote i rule: tag_loop.induct)
  case (1 xs quote i)
  then show ?case by (cases quote) (auto simp: tag_loop.simps [of xs _ i] intro: order_trans [OF le_add1])
qed

lemma index_of_less: "i < length xs \<Longrightarrow> \<not> here xs i c \<Longrightarrow> index_of (us [c]) xs i = Some e \<Longrightarrow> i < e"
proof (rule ccontr)
  assume i: "i < length xs" "\<not> here xs i c" "index_of (us [c]) xs i = Some e" "\<not> i < e"
  then have "starts_at (us [c]) xs i" using index_of_Some [OF i(3)] by (simp add: le_antisym)
  then show False using i(1,2) by (auto simp: starts_at_def us_def here_def at_is_def Cons_nth_drop_Suc [symmetric])
qed

lemma tag_end_greater: "i < length xs \<Longrightarrow> i < tag_end xs i"
proof (cases "starts_at (us ''<!--'') xs i")
  case True
  then have "4 \<le> length xs - i" using prefix_length_le [of "us ''<!--''" "drop i xs"] by (simp add: starts_at_def)
  then have "i + 4 \<le> length xs" by linarith
  from close_after_bounds [OF this, of "''-->''"] have "i < close_after ''-->'' xs (i + 4)" by linarith
  then show ?thesis using True by (simp add: tag_end_def)
next
  case False
  then show ?thesis using tag_loop_ge [of "i + 1" xs None] by (simp add: tag_end_def)
qed

lemma raw_part_ge: "j \<le> snd (raw_part xs tag j)"
  by (auto simp: raw_part_def split: option.splits dest: index_of_Some)

lemma markup_item_greater: "i < length xs \<Longrightarrow> i < snd (markup_item xs i)"
proof (cases "here xs i CHR ''<''")
  case True
  assume "i < length xs"
  then show ?thesis using tag_end_greater [of i xs] raw_part_ge [of "tag_end xs i" xs "slice i (tag_end xs i) xs"] True
    by (simp add: markup_item_def Let_def split: prod.splits) (metis less_le_trans snd_conv)
next
  case False
  assume "i < length xs"
  then show ?thesis using index_of_less [of i xs "CHR ''<''"] False
    by (auto simp: markup_item_def Let_def split: option.splits)
qed

function markup_loop :: "cus \<Rightarrow> nat \<Rightarrow> nat \<Rightarrow> string + token list" where
  "markup_loop xs count i =
     (if i < length xs
      then let (ts, j) = markup_item xs i in
        if SOURCE_PRETTY_TOKEN_LIMIT < count + length ts then Inl ''Pretty print token limit reached''
        else bindE (markup_loop xs (count + length ts) j) (\<lambda>us. Inr (ts @ us))
      else Inr [])"
  by pat_completeness auto
termination
  by (relation "measure (\<lambda>(xs, count, i). length xs - i)")
    (auto dest!: arg_cong [where f = snd] simp: markup_item_greater intro: diff_less_mono2)

declare markup_loop.simps [simp del]

definition sourcePrettyMarkupTokens :: "cus \<Rightarrow> string + token list" where
  "sourcePrettyMarkupTokens xs = markup_loop xs 0 0"

section \<open>Printing\<close>

definition closing_tag :: "cus \<Rightarrow> bool" where
  "closing_tag tag = matches_at (seqs [chr CHR ''<'', blanks, chr CHR ''/'']) tag 0"

definition declaration_tag :: "cus \<Rightarrow> bool" where
  "declaration_tag tag = matches_at (seqs [chr CHR ''<'', blanks, Cls (one_of_cu ''!?'')]) tag 0"

definition markup_ops :: "token \<Rightarrow> (writer \<Rightarrow> string + writer) list" where
  "markup_ops t =
     (if kind t \<noteq> Tag then [original t, write_newline (t_end t)]
      else
        let closing = closing_tag (t_text t);
            declaration = declaration_tag (t_text t);
            selfClosing = (ends_with_slash (t_text t) \<or> matches_at void_tag (t_text t) 0 \<or> declaration)
        in ops_if closing [outdent] @ original t # write_newline (t_end t) #
           ops_if (\<not> closing \<and> \<not> selfClosing) [indent_more])"

definition markup_step :: "token \<Rightarrow> token option \<Rightarrow> writer \<Rightarrow> string + writer" where
  "markup_step t nx w = run_ops (markup_ops t) w"

definition prettyPrintMarkupSource :: "cus \<Rightarrow> string + formatted" where
  "prettyPrintMarkupSource xs =
     bindE (sourcePrettyMarkupTokens xs) (\<lambda>tokens.
       bindE (print_loop markup_step tokens createSourcePrettyWriter) (\<lambda>w. Inr (finish w)))"

lemma markup_emits: "emits layout (original t) (markup_ops t)"
  unfolding markup_ops_def Let_def by (auto intro!: emits_intros simp: ops_if_def)

interpretation markup_printer:
  printer "writer_ok xs" written original layout "token_ok xs" markup_step "\<lambda>w. w" for xs
proof unfold_locales
  fix t nx s s'
  assume "markup_step t nx s = Inr s'"
  with markup_emits show "\<exists>ops. emits layout (original t) ops \<and> run_ops ops s = Inr s'"
    unfolding markup_step_def by blast
qed

section \<open>Tokens of a plain text\<close>

text \<open>
  Two inputs make an index leave the text: a backslash as the last unit, inside a quoted
  attribute, and the capital letter U+0130 that lower case makes longer.
\<close>

definition markup_plain :: "cus \<Rightarrow> bool" where
  "markup_plain xs \<longleftrightarrow> 0x130 \<notin> set xs \<and> \<not> (xs \<noteq> [] \<and> here xs (length xs - 1) CHR 0x5C)"

lemma tag_loop_le: "markup_plain xs \<Longrightarrow> i \<le> length xs \<Longrightarrow> tag_loop xs quote i \<le> length xs"
proof (induction "length xs - i" arbitrary: quote i rule: less_induct)
  case less
  show ?case
  proof (cases "i < length xs")
    case i: True
    have esc: "i + 2 \<le> length xs" if "here xs i CHR 0x5C"
    proof (rule ccontr)
      assume "\<not> i + 2 \<le> length xs"
      then have "i = length xs - 1" "xs \<noteq> []" using i by auto
      then show False using less(2) that by (simp add: markup_plain_def)
    qed
    have "tag_loop xs q (i + 1) \<le> length xs" for q by (rule less(1)) (use less i in auto)
    moreover have "tag_loop xs q (i + 2) \<le> length xs" if "here xs i CHR 0x5C" for q
      by (rule less(1)) (use less i esc [OF that] in auto)
    ultimately show ?thesis using i by (cases quote) (auto simp: tag_loop.simps [of xs _ i])
  next
    case False
    then show ?thesis using less(3) tag_loop.simps [of xs quote i] by simp
  qed
qed

lemma tag_end_le: "markup_plain xs \<Longrightarrow> i < length xs \<Longrightarrow> tag_end xs i \<le> length xs"
proof (cases "starts_at (us ''<!--'') xs i")
  case True
  assume i: "i < length xs"
  have "4 \<le> length xs - i" using prefix_length_le [of "us ''<!--''" "drop i xs"] True by (simp add: starts_at_def)
  then have "i + 4 \<le> length xs" using i by linarith
  then show ?thesis using close_after_bounds [of "i + 4" xs "''-->''"] True by (simp add: tag_end_def)
next
  case False
  assume "markup_plain xs" "i < length xs"
  then show ?thesis using tag_loop_le [of xs "i + 1" None] False by (simp add: tag_end_def)
qed

lemma length_toLowerCase: "0x130 \<notin> set xs \<Longrightarrow> length (toLowerCase xs) = length xs"
  by (induction xs) (auto simp: toLowerCase_def lower_units_def)

lemma takeWhile_rev_drop:
  "drop (length s - length (takeWhile P (rev s))) s = rev (takeWhile P (rev s))"
proof -
  have "s = rev (dropWhile P (rev s)) @ rev (takeWhile P (rev s))" by (metis rev_append rev_rev_ident takeWhile_dropWhile_id)
  moreover have "length s - length (takeWhile P (rev s)) = length (rev (dropWhile P (rev s)))"
    by (metis calculation diff_add_inverse2 length_append length_rev)
  ultimately show ?thesis by (metis append_eq_conv_conj)
qed

text \<open>Tokens between two offsets that keep all that is not white space.\<close>

definition cover_ink :: "cus \<Rightarrow> nat \<Rightarrow> nat \<Rightarrow> token list \<Rightarrow> bool" where
  "cover_ink xs a b ts \<longleftrightarrow>
     ordered_tokens (token_ok xs) a ts \<and> (\<forall>t \<in> set ts. t_end t \<le> b) \<and> ink (tokens_text ts) = ink (slice a b xs)"

lemma ordered_tokens_append:
  "ordered_tokens fits a ts \<Longrightarrow> \<forall>t \<in> set ts. t_end t \<le> b \<Longrightarrow> a \<le> b \<Longrightarrow> ordered_tokens fits b vs \<Longrightarrow> ordered_tokens fits a (ts @ vs)"
proof (induction ts arbitrary: a)
  case Nil
  then show ?case by (cases vs) auto
qed auto

lemma ordered_tokens_start: "ordered_tokens (token_ok xs) a ts \<Longrightarrow> t \<in> set ts \<Longrightarrow> a \<le> t_end t"
  by (induction ts arbitrary: a) (fastforce simp: token_ok_def)+

lemma cover_ink_append:
  assumes "cover_ink xs a b ts" "cover_ink xs b c vs" "a \<le> b" "b \<le> c"
  shows "cover_ink xs a c (ts @ vs)"
proof -
  have "slice a c xs = slice a b xs @ slice b c xs" using assms by (simp add: slice_append_slice)
  then show ?thesis using assms ordered_tokens_append unfolding cover_ink_def by fastforce
qed

lemma trimmed_piece_cover:
  assumes "a \<le> b" "b \<le> length xs"
  shows "cover_ink xs a b (trimmed_piece k xs a b)"
proof -
  define s where "s = slice a b xs"
  define st where "st = a + length (takeWhile is_space s)"
  define s' where "s' = slice st b xs"
  define tr where "tr = length (takeWhile is_space (rev s'))"
  have len: "length s = b - a" using assms by (simp add: s_def)
  show ?thesis
  proof (cases "length (takeWhile is_space s) = length s")
    case True
    then have "takeWhile is_space s = s" by (metis takeWhile_dropWhile_id append_Nil2 length_append add_left_cancel length_0_conv add_0_right)
    then have "\<forall>c \<in> set s. is_space c" by (metis set_takeWhileD)
    then show ?thesis using True by (simp add: trimmed_piece_def s_def [symmetric] cover_ink_def ink_spaces)
  next
    case False
    then have "length (takeWhile is_space s) < length s" using length_takeWhile_le [of is_space s] by linarith
    then have st: "a \<le> st" "st < b" using len by (auto simp: st_def)
    have s': "s' = drop (length (takeWhile is_space s)) s" "s' = dropWhile is_space s"
      using assms by (simp_all add: s'_def st_def s_def slice_def drop_take add.commute dropWhile_eq_drop)
    have "s' \<noteq> []" using st assms by (simp add: s'_def flip: length_0_conv)
    then have "\<not> is_space (hd s')" using s'(2) hd_dropWhile by metis
    then have "\<not> (\<forall>c \<in> set (rev s'). is_space c)" using \<open>s' \<noteq> []\<close> by auto
    then have "takeWhile is_space (rev s') \<noteq> rev s'" by (metis set_takeWhileD)
    then have tr: "tr < length s'"
      unfolding tr_def by (metis length_rev length_takeWhile_le nat_less_le takeWhile_eq_take take_all_iff)
    have len': "length s' = b - st" using assms by (simp add: s'_def)
    have e: "st < b - tr" "b - tr \<le> b" using tr len' by linarith+
    have "slice (b - tr) b xs = drop (length s' - tr) s'"
      using e tr len' assms by (simp add: s'_def slice_def drop_take)
    then have sp2: "\<forall>c \<in> set (slice (b - tr) b xs). is_space c"
      unfolding tr_def takeWhile_rev_drop by (auto dest: set_takeWhileD)
    have "slice a st xs = take (length (takeWhile is_space s)) s"
      using st len by (simp add: st_def s_def slice_def min_def)
    then have "slice a st xs = takeWhile is_space s" by (simp add: takeWhile_eq_take [symmetric])
    then have sp1: "\<forall>c \<in> set (slice a st xs). is_space c" by (auto dest: set_takeWhileD)
    have "slice a b xs = slice a st xs @ slice st (b - tr) xs @ slice (b - tr) b xs"
      using st e by (simp add: slice_append_slice)
    then have "ink (slice a b xs) = ink (slice st (b - tr) xs)" using sp1 sp2 by (simp add: ink_spaces)
    then show ?thesis using False st e assms
      by (simp add: trimmed_piece_def s_def [symmetric] st_def [symmetric] s'_def [symmetric] tr_def [symmetric]
          cover_ink_def token_ok_def Let_def)
  qed
qed

lemma raw_part_cover:
  assumes "markup_plain xs" "j \<le> length xs" "raw_part xs tag j = (ts, k)"
  shows "j \<le> k \<and> k \<le> length xs \<and> cover_ink xs j k ts"
proof -
  show ?thesis
  proof (cases "\<exists>name close. raw_tag tag = Some name \<and> \<not> ends_with_slash tag \<and>
      index_of (us (''</'' @ name)) (toLowerCase xs) j = Some close")
    case True
    then obtain name close where c: "raw_tag tag = Some name" "\<not> ends_with_slash tag"
      "index_of (us (''</'' @ name)) (toLowerCase xs) j = Some close" by blast
    have "j \<le> close" "close \<le> length xs"
      using index_of_Some [OF c(3)] length_toLowerCase [of xs] assms(1) by (auto simp: markup_plain_def)
    then show ?thesis using assms(3) c trimmed_piece_cover [of j close xs RawText] by (auto simp: raw_part_def)
  next
    case False
    then have "raw_part xs tag j = ([], j)" by (auto simp: raw_part_def split: option.splits)
    then show ?thesis using assms(2,3) by (simp add: cover_ink_def)
  qed
qed

lemma markup_item_cover:
  assumes "markup_plain xs" "i < length xs" "markup_item xs i = (ts, j)"
  shows "i < j \<and> j \<le> length xs \<and> cover_ink xs i j ts"
proof (cases "here xs i CHR ''<''")
  case True
  define m where "m = tag_end xs i"
  define t where "t = \<lparr>kind = Tag, t_start = i, t_end = m, t_text = slice i m xs\<rparr>"
  have m: "i < m" "m \<le> length xs" using tag_end_greater tag_end_le assms(1,2) by (auto simp: m_def)
  obtain raw k where r: "raw_part xs (slice i m xs) m = (raw, k)" by (cases "raw_part xs (slice i m xs) m")
  have j: "ts = t # raw" "j = k" using assms(3) True r by (auto simp: markup_item_def Let_def m_def t_def)
  have "cover_ink xs i m [t]" using m by (simp add: cover_ink_def t_def token_ok_def)
  then show ?thesis using raw_part_cover [OF assms(1) m(2) r] cover_ink_append [of xs i m "[t]" k raw] m j by auto
next
  case False
  define b where "b = (case index_of (us ''<'') xs i of None \<Rightarrow> length xs | Some e \<Rightarrow> e)"
  have "i < j" using markup_item_greater [OF assms(2)] assms(3) by (metis snd_conv)
  moreover have "ts = trimmed_piece TextRun xs i b" "j = b" using assms(3) False by (auto simp: markup_item_def Let_def b_def)
  moreover have "b \<le> length xs" by (auto simp: b_def split: option.splits dest: index_of_Some)
  ultimately show ?thesis using trimmed_piece_cover [of i b xs TextRun] by simp
qed

lemma markup_loop_cover:
  "markup_plain xs \<Longrightarrow> markup_loop xs count i = Inr ts \<Longrightarrow> i \<le> length xs \<Longrightarrow> cover_ink xs i (length xs) ts"
proof (induction "length xs - i" arbitrary: i count ts rule: less_induct)
  case less
  show ?case
  proof (cases "i < length xs")
    case i: True
    obtain hd j where item: "markup_item xs i = (hd, j)" by (cases "markup_item xs i")
    obtain vs where vs: "markup_loop xs (count + length hd) j = Inr vs" "ts = hd @ vs"
      using less(3) i item by (auto simp: markup_loop.simps [of xs count i] bindE_Inr_iff split: if_splits)
    have c: "i < j" "j \<le> length xs" "cover_ink xs i j hd" using markup_item_cover [OF less(2) i item] by auto
    have "cover_ink xs j (length xs) vs" by (rule less(1) [OF _ less(2) vs(1) c(2)]) (use c i in simp)
    then show ?thesis using cover_ink_append [OF c(3) _ _ c(2)] c(1) vs(2) by simp
  next
    case False
    then show ?thesis using less(3,4) markup_loop.simps [of xs count i] by (simp add: cover_ink_def)
  qed
qed

lemma markup_output:
  assumes "markup_plain xs" "prettyPrintMarkupSource xs = Inr f"
  shows "\<exists>ts. sourcePrettyMarkupTokens xs = Inr ts \<and> formatted_ok xs (tokens_text ts) f \<and> ink (tokens_text ts) = ink xs"
proof -
  obtain ts w where ts: "sourcePrettyMarkupTokens xs = Inr ts" "f = finish w"
    "print_loop markup_step ts createSourcePrettyWriter = Inr w"
    using assms(2) unfolding prettyPrintMarkupSource_def bindE_Inr_iff by blast
  have c: "cover_ink xs 0 (length xs) ts"
    using markup_loop_cover [OF assms(1), of 0 0 ts] ts(1) by (simp add: sourcePrettyMarkupTokens_def)
  then have "(\<exists>m. writer_ok xs m w) \<and> written w = tokens_text ts"
    using markup_printer.print_loop_ok [OF ts(3), of xs 0] create_ok by (simp add: cover_ink_def)
  then show ?thesis using finish_ok ts c by (metis cover_ink_def slice_all order_refl)
qed

lemma segments_tile_sorted:
  "segments_tile xs out d ss e \<Longrightarrow> sorted_wrt (\<lambda>a b. derived_end a \<le> derived_start b) ss"
proof (induction ss arbitrary: d)
  case (Cons s ss)
  have "d \<le> derived_start a" if "segments_tile xs out d ss e" "a \<in> set ss" for d a
    using that by (induction ss arbitrary: d) fastforce+
  then show ?case using Cons by auto
qed simp

lemma segment_ok_at:
  assumes "segment_ok xs out s" "derived_end s \<le> length out" "derived_start s \<le> p" "p < derived_end s"
  shows "case s_kind s of
      Verbatim \<Rightarrow> original_start s + (p - derived_start s) < original_end s \<and> original_end s \<le> length xs \<and>
        out ! p = xs ! (original_start s + (p - derived_start s))
    | Synthetic \<Rightarrow> is_space (out ! p)"
proof -
  have p: "slice (derived_start s) (derived_end s) out ! (p - derived_start s) = out ! p"
    using slice_nth [of "derived_start s" "p - derived_start s" "derived_end s" out] assms(2-4) by simp
  show ?thesis
  proof (cases "s_kind s")
    case Verbatim
    then have o: "original_start s + (p - derived_start s) < original_end s"
      using assms(1,3,4) by (simp add: segment_ok_def) linarith
    then have "slice (original_start s) (original_end s) xs ! (p - derived_start s) = xs ! (original_start s + (p - derived_start s))"
      using assms(1) Verbatim by (intro slice_nth) (simp_all add: segment_ok_def)
    then show ?thesis using p o Verbatim assms(1) by (simp add: segment_ok_def)
  next
    case Synthetic
    have "out ! p \<in> set (slice (derived_start s) (derived_end s) out)"
      using p assms(2-4) nth_mem [of "p - derived_start s" "slice (derived_start s) (derived_end s) out"] by simp
    then show ?thesis using Synthetic assms(1) by (simp add: segment_ok_def)
  qed
qed

lemma segments_tile_find:
  "segments_tile xs out d ss e \<Longrightarrow> d \<le> p \<Longrightarrow> p < e \<Longrightarrow>
     \<exists>s \<in> set ss. derived_start s \<le> p \<and> p < derived_end s \<and>
       (case s_kind s of
          Verbatim \<Rightarrow> original_start s + (p - derived_start s) < original_end s \<and> original_end s \<le> length xs \<and>
            out ! p = xs ! (original_start s + (p - derived_start s))
        | Synthetic \<Rightarrow> is_space (out ! p))"
proof (induction ss arbitrary: d)
  case (Cons s ss)
  show ?case
  proof (cases "p < derived_end s")
    case True
    have s: "segment_ok xs out s" "derived_end s \<le> length out" "derived_start s \<le> p" using Cons(2,3) by auto
    show ?thesis by (rule bexI [of _ s]) (use segment_ok_at [OF s True] s True in simp_all)
  next
    case False
    then show ?thesis using Cons(1) [of "derived_end s"] Cons(2,4) by auto
  qed
qed simp

section \<open>The entry point\<close>

definition SOURCE_PRETTY_INPUT_LIMIT :: nat where "SOURCE_PRETTY_INPUT_LIMIT = 2 * 1024 * 1024"

definition SOURCE_PRETTY_LANGUAGES :: "language list" where
  "SOURCE_PRETTY_LANGUAGES = [JavaScript, Json, Css, Markup]"

fun sourceSyntaxLabel :: "language \<Rightarrow> string" where
  "sourceSyntaxLabel JavaScript = ''JavaScript''"
| "sourceSyntaxLabel Json = ''JSON''"
| "sourceSyntaxLabel Css = ''CSS''"
| "sourceSyntaxLabel Markup = ''HTML''"
| "sourceSyntaxLabel Wasm = ''WebAssembly hex''"
| "sourceSyntaxLabel Bytes = ''Guest bytecode hex''"
| "sourceSyntaxLabel PlainText = ''Plain text''"

text \<open>The result carries the formatted text and the flag \<open>changed\<close>.\<close>

definition prettyPrintSource :: "language \<Rightarrow> cus \<Rightarrow> string + (formatted \<times> bool)" where
  "prettyPrintSource lang xs =
     (if lang \<notin> set SOURCE_PRETTY_LANGUAGES then Inl (''Pretty print does not support '' @ sourceSyntaxLabel lang @ ''.'')
      else if SOURCE_PRETTY_INPUT_LIMIT < length xs then Inl ''Pretty print is limited to the first 2 MB.''
      else bindE
        (if lang = Markup then prettyPrintMarkupSource xs
         else if lang = Css then prettyPrintCssSource xs
         else prettyPrintStructuredSource xs lang)
        (\<lambda>f. Inr (f, f_text f \<noteq> xs)))"

lemma pretty_output:
  assumes "prettyPrintSource lang xs = Inr (f, changed)" "lang = Markup \<longrightarrow> markup_plain xs"
  obtains written_text where "formatted_ok xs written_text f" "ink written_text = ink xs"
proof -
  have r: "(if lang = Markup then prettyPrintMarkupSource xs
         else if lang = Css then prettyPrintCssSource xs
         else prettyPrintStructuredSource xs lang) = Inr f"
    using assms(1) by (auto simp: prettyPrintSource_def bindE_Inr_iff split: if_splits)
  consider "lang = Markup" | "lang = Css" | "lang \<noteq> Markup" "lang \<noteq> Css" by blast
  then show thesis
  proof cases
    case 1
    then show thesis using markup_output [of xs f] r assms(2) that by auto
  next
    case 2
    then show thesis using css_output [of xs f] significant_ink [of xs Css] r that by auto
  next
    case 3
    then show thesis using structured_output [of xs lang f] significant_ink [of xs lang] r that by auto
  qed
qed

section \<open>An empty array, printed\<close>

definition brackets_printed :: formatted where
  "brackets_printed = \<lparr>f_text = [91, 93], f_segments =
     [\<lparr>s_kind = Verbatim, original_start = 0, original_end = 1, derived_start = 0, derived_end = 1\<rparr>,
      \<lparr>s_kind = Verbatim, original_start = 2, original_end = 3, derived_start = 1, derived_end = 2\<rparr>]\<rparr>"

lemma brackets_token:
  "pretty_token Json [91, 32, 93] p 0 = (Operator, 1)"
  "pretty_token Json [91, 32, 93] p (Suc 0) = (Whitespace, 2)"
  "pretty_token Json [91, 32, 93] p 2 = (Operator, 3)"
  by (simp_all add: pretty_token_def text_evals word_start_def SOURCE_PRETTY_OPERATORS_def)

lemma brackets_tokens:
  "sourcePrettyTokens [91, 32, 93] Json =
     Inr [\<lparr>kind = Operator, t_start = 0, t_end = 1, t_text = [91]\<rparr>,
          \<lparr>kind = Whitespace, t_start = 1, t_end = 2, t_text = [32]\<rparr>,
          \<lparr>kind = Operator, t_start = 2, t_end = 3, t_text = [93]\<rparr>]"
  unfolding sourcePrettyTokens_def
  by (simp add: brackets_token [THEN pretty_loop_step [rotated]] pretty_loop_end SOURCE_PRETTY_TOKEN_LIMIT_def
      Let_def slice_def)

lemmas pattern_evals = matches_at_def match_end_def chr_def lit_i_def ends.simps text_evals to_lower_def

lemmas plan_evals = structured_step_def structured_plan_def operator_plan_def text_is_def us_def cu_of_def ops_if_def
  opt_text_def opt_kind_def next_token_def

lemmas writer_evals = createSourcePrettyWriter_def original_def append_chunk_def ends_line_def synthetic_def
  SOURCE_PRETTY_OUTPUT_LIMIT_def SOURCE_PRETTY_SEGMENT_LIMIT_def finish_def finish_loop.simps

lemma brackets_print: "prettyPrintSource Json [91, 32, 93] = Inr (brackets_printed, True)"
  by (simp add: brackets_printed_def prettyPrintSource_def SOURCE_PRETTY_LANGUAGES_def SOURCE_PRETTY_INPUT_LIMIT_def
      prettyPrintStructuredSource_def brackets_tokens plan_evals writer_evals Let_def)

section \<open>Properties\<close>

text \<open>
  C17. Pretty printing changes white space only. Whenever it succeeds, the output without white
  space is the input without white space, and \<open>changed\<close> says whether the texts differ. For
  markup this is shown for texts without U+0130 that do not end in a backslash (\<open>markup_plain\<close>).
\<close>

theorem pretty_keeps_ink:
  assumes "prettyPrintSource lang xs = Inr (f, changed)" "lang = Markup \<longrightarrow> markup_plain xs"
  shows "filter (\<lambda>c. \<not> is_space c) (f_text f) = filter (\<lambda>c. \<not> is_space c) xs \<and> (changed \<longleftrightarrow> f_text f \<noteq> xs)"
proof -
  obtain v where "formatted_ok xs v f" "ink v = ink xs" using pretty_output [OF assms] .
  then have "ink (f_text f) = ink xs" by (simp add: formatted_ok_def)
  then show ?thesis using assms(1) by (auto simp: prettyPrintSource_def bindE_Inr_iff ink_def split: if_splits)
qed

theorem pretty_keeps_ink_witness:
  "filter (\<lambda>c. \<not> is_space c) (f_text brackets_printed) = filter (\<lambda>c. \<not> is_space c) [91, 32, 93] \<and>
   (True \<longleftrightarrow> f_text brackets_printed \<noteq> [91, 32, 93])"
  by (rule pretty_keeps_ink [OF brackets_print]) simp

lemma list_all_upt: "list_all P [0..<n] \<longleftrightarrow> (\<forall>d < n. P d)"
  by (auto simp: list_all_iff)

text \<open>
  C18. The segments of a successful pretty print, for markup of a text without U+0130 that does not
  end in a backslash, map the output exactly: they cover it without gap or overlap, every offset of a verbatim segment is the unit of the original at the mapped
  offset, every offset of a synthetic segment is white space, verbatim segments take the
  original from left to right, and the text and segment bounds hold.
\<close>

theorem pretty_segments_map:
  assumes "prettyPrintSource lang xs = Inr (f, changed)" "lang = Markup \<longrightarrow> markup_plain xs"
  shows "length (f_text f) \<le> 4 * 1024 * 1024 \<and> length (f_segments f) \<le> 500000 \<and>
    sorted_wrt (\<lambda>a b. derived_end a \<le> derived_start b) (f_segments f) \<and>
    sorted_wrt (\<lambda>a b. original_end a \<le> original_start b) (filter (\<lambda>s. s_kind s = Verbatim) (f_segments f)) \<and>
    (\<forall>d < length (f_text f). \<exists>s \<in> set (f_segments f). derived_start s \<le> d \<and> d < derived_end s \<and>
       (case s_kind s of
          Verbatim \<Rightarrow> original_start s + (d - derived_start s) < original_end s \<and> original_end s \<le> length xs \<and>
            f_text f ! d = xs ! (original_start s + (d - derived_start s))
        | Synthetic \<Rightarrow> is_space (f_text f ! d)))"
proof -
  obtain v where v: "formatted_ok xs v f" "ink v = ink xs" using pretty_output [OF assms] .
  then have t: "segments_tile xs (f_text f) 0 (f_segments f) (length (f_text f))" by (simp add: formatted_ok_def)
  show ?thesis
    using v segments_tile_sorted [OF t] segments_tile_find [OF t]
    by (auto simp: formatted_ok_def verbatim_def SOURCE_PRETTY_OUTPUT_LIMIT_def SOURCE_PRETTY_SEGMENT_LIMIT_def)
qed

theorem pretty_segments_map_witness:
  "length (f_text brackets_printed) \<le> 4 * 1024 * 1024 \<and> length (f_segments brackets_printed) \<le> 500000 \<and>
    sorted_wrt (\<lambda>a b. derived_end a \<le> derived_start b) (f_segments brackets_printed) \<and>
    sorted_wrt (\<lambda>a b. original_end a \<le> original_start b) (filter (\<lambda>s. s_kind s = Verbatim) (f_segments brackets_printed)) \<and>
    list_all (\<lambda>d. \<exists>s \<in> set (f_segments brackets_printed). derived_start s \<le> d \<and> d < derived_end s \<and>
       (case s_kind s of
          Verbatim \<Rightarrow> original_start s + (d - derived_start s) < original_end s \<and> original_end s \<le> length [91, 32, 93 :: cu] \<and>
            f_text brackets_printed ! d = [91, 32, 93] ! (original_start s + (d - derived_start s))
        | Synthetic \<Rightarrow> is_space (f_text brackets_printed ! d))) [0..<length (f_text brackets_printed)]"
  unfolding list_all_upt by (rule pretty_segments_map [OF brackets_print]) simp

text \<open>
  The excluded backslash matters: for an unclosed quoted attribute that ends in a backslash
  the scanner steps over the end, so the printed text has one segment that claims four units of
  an original of three.
\<close>

theorem markup_escape_overrun:
  "prettyPrintSource Markup (us ''<'' @ us [CHR 0x22] @ us [CHR 0x5C]) =
     Inr (\<lparr>f_text = us ''<'' @ us [CHR 0x22] @ us [CHR 0x5C], f_segments =
       [\<lparr>s_kind = Verbatim, original_start = 0, original_end = 4, derived_start = 0, derived_end = 3\<rparr>]\<rparr>, False)"
proof -
  have xs: "us ''<'' @ us [CHR 0x22] @ us [CHR 0x5C] = [60, 34, 92]" by (simp add: us_def cu_of_def)
  have "tag_loop [60, 34, 92] None (Suc 0) = 4"
    by (simp add: tag_loop.simps [of "[60, 34, 92]"] text_evals)
  then have e: "tag_end [60, 34, 92] 0 = 4" by (simp add: tag_end_def text_evals)
  have no_raw: "raw_tag [60, 34, 92] = None"
    by (simp add: raw_tag_def raw_tag_pattern_def pattern_evals)
  have tokens: "sourcePrettyMarkupTokens [60, 34, 92] =
      Inr [\<lparr>kind = Tag, t_start = 0, t_end = 4, t_text = [60, 34, 92]\<rparr>]"
    by (simp add: sourcePrettyMarkupTokens_def markup_loop.simps [of "[60, 34, 92]"] markup_item_def e raw_part_def no_raw
        text_evals SOURCE_PRETTY_TOKEN_LIMIT_def)
  have plain: "\<not> closing_tag [60, 34, 92]" "\<not> declaration_tag [60, 34, 92]"
    by (simp_all add: closing_tag_def declaration_tag_def pattern_evals)
  show ?thesis unfolding xs
    by (simp add: prettyPrintSource_def SOURCE_PRETTY_LANGUAGES_def SOURCE_PRETTY_INPUT_LIMIT_def
        prettyPrintMarkupSource_def tokens markup_step_def markup_ops_def plain ops_if_def Let_def write_newline_def
        indent_more_def trim_end_def newline_def is_space_def in_range_def slice_def writer_evals)
qed

end
