(* ===== verification/SourceMapping.thy ===== *)
theory SourceMapping
  imports TextPatterns SourceDocument PrettyMarkup
begin

text \<open>
  From offsets of a derived text back to the original: \<open>sourceLineStarts\<close> to
  \<open>sourceRepresentationLineMap\<close> and \<open>sourceWindowMapping\<close> of
  \<open>apps/research-ui/source_syntax.js\<close>. Segments arrive from other programs, so an offset
  may be missing: \<open>None\<close> is \<open>undefined\<close>, and the \<open>NaN\<close> it becomes in arithmetic;
  a comparison with it is false. A result \<open>None\<close> is \<open>null\<close>.
\<close>

section \<open>Offsets that may be missing\<close>

type_synonym off = "nat option"

definition less_off :: "off \<Rightarrow> off \<Rightarrow> bool" where
  "less_off a b = (case (a, b) of (Some x, Some y) \<Rightarrow> x < y | _ \<Rightarrow> False)"

definition le_off :: "off \<Rightarrow> off \<Rightarrow> bool" where
  "le_off a b = (case (a, b) of (Some x, Some y) \<Rightarrow> x \<le> y | _ \<Rightarrow> False)"

definition max_off :: "off \<Rightarrow> off \<Rightarrow> off" where
  "max_off a b = (case (a, b) of (Some x, Some y) \<Rightarrow> Some (max x y) | _ \<Rightarrow> None)"

lemma off_simps [simp]:
  "less_off (Some x) (Some y) = (x < y)" "le_off (Some x) (Some y) = (x \<le> y)"
  "max_off (Some x) (Some y) = Some (max x y)" "\<not> less_off None b" "\<not> less_off a None" "\<not> le_off None b" "\<not> le_off a None"
  by (simp_all add: less_off_def le_off_def max_off_def split: option.splits)

record map_segment =
  m_kind :: string
  m_original_start :: off
  m_original_end :: off
  m_derived_start :: off
  m_derived_end :: off

section \<open>Lines of the original\<close>

definition sourceLineStarts :: "cus \<Rightarrow> nat list" where
  "sourceLineStarts xs = 0 # map Suc (filter (\<lambda>i. xs ! i = newline) [0..<length xs])"

record location =
  l_line :: nat
  l_column :: off

definition sourceLocationForOffset :: "nat list \<Rightarrow> off \<Rightarrow> location" where
  "sourceLocationForOffset starts offset =
     (let low = search_last (\<lambda>m. le_off (Some (starts ! m)) offset) 0 (length starts - 1)
      in \<lparr>l_line = low, l_column = map_option (\<lambda>z. z - starts ! low) offset\<rparr>)"

section \<open>Segments\<close>

text \<open>The loop of \<open>derivedSegmentAt\<close>; \<open>high\<close> is exclusive here, one more than in the code.\<close>

function segment_search :: "map_segment list \<Rightarrow> off \<Rightarrow> nat \<Rightarrow> nat \<Rightarrow> map_segment option" where
  "segment_search segs d low high =
     (if low < high
      then let middle = (low + (high - 1)) div 2; s = segs ! middle in
        if less_off d (m_derived_start s) then segment_search segs d low middle
        else if le_off (m_derived_end s) d then segment_search segs d (middle + 1) high
        else Some s
      else None)"
  by pat_completeness auto
termination by (relation "measure (\<lambda>(segs, d, low, high). high - low)") auto

declare segment_search.simps [simp del]

definition derivedSegmentAt :: "map_segment list \<Rightarrow> off \<Rightarrow> map_segment option" where
  "derivedSegmentAt segs d = segment_search segs d 0 (length segs)"

text \<open>The outer option is \<open>null\<close>, the inner one \<open>NaN\<close>.\<close>

definition derivedOriginalOffset :: "map_segment list \<Rightarrow> off \<Rightarrow> off option" where
  "derivedOriginalOffset segs d =
     (case derivedSegmentAt segs d of
        None \<Rightarrow> None
      | Some s \<Rightarrow>
          (case m_original_start s of
             None \<Rightarrow> None
           | Some start \<Rightarrow>
               if m_kind s = ''synthetic'' \<or> m_kind s = ''replacement'' then Some (Some start)
               else (case (d, m_derived_start s) of
                       (Some x, Some y) \<Rightarrow> Some (Some (start + (x - y)))
                     | _ \<Rightarrow> Some None)))"

section \<open>Units of wire offsets\<close>

text \<open>\<open>for (const character of text)\<close>: code points, and unpaired surrogates as they stand.\<close>

fun characters :: "cus \<Rightarrow> cus list" where
  "characters [] = []"
| "characters [a] = [[a]]"
| "characters (a # b # xs) =
     (if high_surrogate a \<and> low_surrogate b then [a, b] # characters xs else [a] # characters (b # xs))"

definition wire_length :: "string \<Rightarrow> cus \<Rightarrow> nat" where
  "wire_length unit ch =
     (if unit = ''unicode-code-point'' then 1
      else if length ch = 2 then 4
      else let point = unat (ch ! 0) in if point \<le> 0x7F then 1 else if point \<le> 0x7FF then 2 else 3)"

fun boundaries_loop :: "string \<Rightarrow> nat set \<Rightarrow> cus list \<Rightarrow> nat \<Rightarrow> nat \<Rightarrow> (nat \<times> nat) list \<Rightarrow> (nat \<times> nat) list" where
  "boundaries_loop unit wanted [] wire utf16 result =
     (if wire \<in> wanted then map_put wire utf16 result else result)"
| "boundaries_loop unit wanted (ch # chs) wire utf16 result =
     boundaries_loop unit wanted chs (wire + wire_length unit ch) (utf16 + length ch)
       (if wire \<in> wanted then map_put wire utf16 result else result)"

definition sourceOffsetBoundaries :: "cus \<Rightarrow> off list \<Rightarrow> string \<Rightarrow> (nat \<times> nat) list" where
  "sourceOffsetBoundaries xs offsets unit =
     boundaries_loop unit {z. Some z \<in> set offsets} (characters xs) 0 0 []"

definition convert_segment :: "(nat \<times> nat) list \<Rightarrow> (nat \<times> nat) list \<Rightarrow> map_segment \<Rightarrow> map_segment" where
  "convert_segment originals deriveds s =
     s\<lparr>m_original_start := Option.bind (m_original_start s) (map_of originals),
       m_original_end := Option.bind (m_original_end s) (map_of originals),
       m_derived_start := Option.bind (m_derived_start s) (map_of deriveds),
       m_derived_end := Option.bind (m_derived_end s) (map_of deriveds)\<rparr>"

definition sourceSegmentsUTF16 :: "cus \<Rightarrow> cus \<Rightarrow> map_segment list \<Rightarrow> string option \<Rightarrow> map_segment list" where
  "sourceSegmentsUTF16 orig derived segs unit =
     (if unit = Some ''utf-16-code-unit'' then segs
      else
        let unit = (case unit of None \<Rightarrow> ''unicode-code-point'' | Some u \<Rightarrow> u) in
        if unit \<notin> {''unicode-code-point'', ''utf-8-byte''} then []
        else
          let originals = sourceOffsetBoundaries orig (concat (map (\<lambda>s. [m_original_start s, m_original_end s]) segs)) unit;
              deriveds = sourceOffsetBoundaries derived (concat (map (\<lambda>s. [m_derived_start s, m_derived_end s]) segs)) unit
          in map (convert_segment originals deriveds) segs)"

section \<open>Line maps\<close>

record line_entry =
  n_line :: nat
  n_synthetic :: bool
  originalOffset :: "off option"
  originalLine :: "nat option"
  originalColumn :: "off option"

text \<open>The inner loop over the candidate segments of one line.\<close>

fun first_candidate :: "map_segment list \<Rightarrow> map_segment list \<Rightarrow> nat \<Rightarrow> nat \<Rightarrow> (off \<times> map_segment) option" where
  "first_candidate segs [] offset lineEnd = None"
| "first_candidate segs (c # cs) offset lineEnd =
     (if less_off (Some lineEnd) (m_derived_start c) then None
      else (case derivedOriginalOffset segs (max_off (Some offset) (m_derived_start c)) of
              Some orig \<Rightarrow> Some (orig, c)
            | None \<Rightarrow> first_candidate segs cs offset lineEnd))"

definition line_entry_of :: "nat list \<Rightarrow> nat \<Rightarrow> (off \<times> map_segment) option \<Rightarrow> line_entry" where
  "line_entry_of starts line found =
     (let offset = map_option fst found; loc = map_option (sourceLocationForOffset starts) offset in
      \<lparr>n_line = line,
       n_synthetic = (case found of None \<Rightarrow> True | Some (_, s) \<Rightarrow> m_kind s = ''synthetic''),
       originalOffset = offset, originalLine = map_option l_line loc, originalColumn = map_option l_column loc\<rparr>)"

text \<open>The loop over the lines; \<open>todo\<close> are the segments from \<open>segmentIndex\<close> on.\<close>

fun line_map_loop :: "nat list \<Rightarrow> map_segment list \<Rightarrow> map_segment list \<Rightarrow> nat \<Rightarrow> nat \<Rightarrow> cus list \<Rightarrow> line_entry list" where
  "line_map_loop starts segs todo offset line [] = []"
| "line_map_loop starts segs todo offset line (l # ls) =
     (let todo = dropWhile (\<lambda>s. le_off (m_derived_end s) (Some offset)) todo
      in line_entry_of starts line (first_candidate segs todo offset (offset + length l)) #
         line_map_loop starts segs todo (offset + length l + 1) (line + 1) ls)"

definition derivedLineMap :: "cus \<Rightarrow> cus \<Rightarrow> map_segment list \<Rightarrow> string option \<Rightarrow> line_entry list" where
  "derivedLineMap orig derived segs unit =
     (let segs = sourceSegmentsUTF16 orig derived segs unit
      in line_map_loop (sourceLineStarts orig) segs segs 0 0 (split_on newline derived))"

text \<open>A derived document: its text, its segments (\<open>?? []\<close>) and their unit.\<close>

record document =
  d_text :: cus
  d_segments :: "map_segment list"
  d_unit :: "string option"

definition sourceRepresentationLineMap :: "cus \<Rightarrow> cus \<Rightarrow> document option \<Rightarrow> document option \<Rightarrow> line_entry list option" where
  "sourceRepresentationLineMap orig active derived formatted =
     (case (formatted, derived) of
        (None, None) \<Rightarrow> None
      | (Some f, None) \<Rightarrow> Some (derivedLineMap active (d_text f) (d_segments f) (d_unit f))
      | (None, Some d) \<Rightarrow> Some (derivedLineMap orig active (d_segments d) (d_unit d))
      | (Some f, Some d) \<Rightarrow>
          let activeMap = derivedLineMap active (d_text f) (d_segments f) (d_unit f);
              segs = sourceSegmentsUTF16 orig active (d_segments d) (d_unit d);
              starts = sourceLineStarts orig
          in Some (map (\<lambda>e.
               let offset = Option.bind (originalOffset e) (derivedOriginalOffset segs);
                   loc = map_option (sourceLocationForOffset starts) offset
               in e\<lparr>originalOffset := offset, originalLine := map_option l_line loc,
                    originalColumn := map_option l_column loc\<rparr>) activeMap))"

section \<open>Windows\<close>

text \<open>\<open>firstMapped\<close>: from the first segment that ends after \<open>start\<close> on.\<close>

fun first_value :: "map_segment list \<Rightarrow> map_segment list \<Rightarrow> nat \<Rightarrow> nat \<Rightarrow> off option" where
  "first_value segs [] start stop = None"
| "first_value segs (c # cs) start stop =
     (if le_off (m_derived_start c) (Some stop)
      then (case derivedOriginalOffset segs (max_off (Some start) (m_derived_start c)) of
              Some v \<Rightarrow> Some v
            | None \<Rightarrow> first_value segs cs start stop)
      else None)"

definition firstMapped :: "map_segment list \<Rightarrow> nat \<Rightarrow> nat \<Rightarrow> off option" where
  "firstMapped segs start stop =
     (let low = search_first (\<lambda>m. le_off (m_derived_end (segs ! m)) (Some start)) 0 (length segs)
      in first_value segs (drop low segs) start stop)"

definition map_row :: "source_index \<Rightarrow> map_segment list option \<Rightarrow> map_segment list option \<Rightarrow> excerpt \<Rightarrow> position option" where
  "map_row ix derivedSegments formattedSegments row =
     (let stop = e_offset row + fullLength row;
          offset = (case formattedSegments of
                      Some f \<Rightarrow> firstMapped f (e_offset row) stop
                    | None \<Rightarrow> (case derivedSegments of Some d \<Rightarrow> firstMapped d (e_offset row) stop | None \<Rightarrow> None));
          offset = (case (formattedSegments, derivedSegments, offset) of
                      (Some f, Some d, Some z) \<Rightarrow> derivedOriginalOffset d z
                    | _ \<Rightarrow> offset)
      in (case offset of None \<Rightarrow> None | Some z \<Rightarrow> sourceDocumentPosition ix (map_option int z)))"

text \<open>The result is the map over rows, or \<open>null\<close> when neither document is given.\<close>

definition sourceWindowMapping ::
  "cus \<Rightarrow> cus \<Rightarrow> document option \<Rightarrow> document option \<Rightarrow> (excerpt list \<Rightarrow> position option list) option" where
  "sourceWindowMapping orig active derived formatted =
     (if derived = None \<and> formatted = None then None
      else
        let derivedSegments = map_option (\<lambda>d. sourceSegmentsUTF16 orig active (d_segments d) (d_unit d)) derived;
            formattedSegments = map_option (\<lambda>f. sourceSegmentsUTF16 active (d_text f) (d_segments f) (d_unit f)) formatted;
            ix = (if derived \<noteq> None then sourceDocumentIndex orig else sourceDocumentIndex active)
        in Some (map (map_row ix derivedSegments formattedSegments)))"

section \<open>Ordered segments\<close>

text \<open>Segments with all derived offsets, nonempty and in order; the originals may be missing.\<close>

definition ordered_segments :: "map_segment list \<Rightarrow> bool" where
  "ordered_segments segs \<longleftrightarrow>
     (\<forall>s \<in> set segs. \<exists>a b. m_derived_start s = Some a \<and> m_derived_end s = Some b \<and> a < b) \<and>
     sorted_wrt (\<lambda>s t. le_off (m_derived_end s) (m_derived_start t)) segs"

definition holds_offset :: "nat \<Rightarrow> map_segment \<Rightarrow> bool" where
  "holds_offset d s \<longleftrightarrow> le_off (m_derived_start s) (Some d) \<and> less_off (Some d) (m_derived_end s)"

lemma ordered_nth:
  assumes "ordered_segments segs" "i < length segs"
  obtains a b where "m_derived_start (segs ! i) = Some a" "m_derived_end (segs ! i) = Some b" "a < b"
  using assms nth_mem [of i segs] unfolding ordered_segments_def by blast

lemma ordered_less:
  assumes "ordered_segments segs" "i < j" "j < length segs"
  shows "le_off (m_derived_end (segs ! i)) (m_derived_start (segs ! j))"
  using assms by (auto simp: ordered_segments_def sorted_wrt_iff_nth_less)

lemma ordered_Cons: "ordered_segments (s # ss) \<Longrightarrow> ordered_segments ss"
  by (simp add: ordered_segments_def)

lemma holds_unique:
  assumes "ordered_segments segs" "i < length segs" "j < length segs" "holds_offset d (segs ! i)" "holds_offset d (segs ! j)"
  shows "i = j"
proof (rule ccontr)
  assume "i \<noteq> j"
  then consider "i < j" | "j < i" by linarith
  then show False
  proof cases
    case 1
    then show False using ordered_less [OF assms(1) 1 assms(3)] assms(4,5)
      by (auto simp: holds_offset_def less_off_def le_off_def split: option.splits)
  next
    case 2
    then show False using ordered_less [OF assms(1) 2 assms(2)] assms(4,5)
      by (auto simp: holds_offset_def less_off_def le_off_def split: option.splits)
  qed
qed

text \<open>The binary search finds the segment that holds the offset, if one does.\<close>

lemma find_unique:
  assumes "i < length xs" "P (xs ! i)" "\<And>j. j < length xs \<Longrightarrow> P (xs ! j) \<Longrightarrow> j = i"
  shows "find P xs = Some (xs ! i)"
proof -
  have "\<not> P (xs ! j)" if "j < i" for j using assms(1) assms(3) [of j] that by auto
  then show ?thesis using assms(1,2) by (auto simp: find_Some_iff)
qed

lemma segment_search_spec:
  assumes ord: "ordered_segments segs" and "high \<le> length segs"
    "\<forall>i < length segs. holds_offset d (segs ! i) \<longrightarrow> low \<le> i \<and> i < high"
  shows "segment_search segs (Some d) low high = find (holds_offset d) segs"
  using assms(2,3)
proof (induction "high - low" arbitrary: low high rule: less_induct)
  case less
  show ?case
  proof (cases "low < high")
    case False
    then have "\<forall>i < length segs. \<not> holds_offset d (segs ! i)" using less(3) by auto
    then have "find (holds_offset d) segs = None" by (auto simp: find_None_iff in_set_conv_nth)
    then show ?thesis using False by (simp add: segment_search.simps [of segs _ low high])
  next
    case True
    define m where "m = (low + (high - 1)) div 2"
    have m: "low \<le> m" "m < high" "m < length segs" using True less(2) unfolding m_def by auto
    obtain a b where ab: "m_derived_start (segs ! m) = Some a" "m_derived_end (segs ! m) = Some b" "a < b"
      using ordered_nth [OF ord m(3)] .
    have step: "segment_search segs (Some d) low high =
        (if d < a then segment_search segs (Some d) low m
         else if b \<le> d then segment_search segs (Some d) (m + 1) high else Some (segs ! m))"
      using True ab by (simp add: segment_search.simps [of segs "Some d" low high, folded m_def] Let_def)
    have side: "(d < a \<longrightarrow> i < m) \<and> (b \<le> d \<longrightarrow> m < i)" if i: "i < length segs" "holds_offset d (segs ! i)" for i
    proof -
      obtain a' b' where i': "m_derived_start (segs ! i) = Some a'" "m_derived_end (segs ! i) = Some b'"
        using ordered_nth [OF ord i(1)] by blast
      then show ?thesis using i ab ordered_less [OF ord, of i m] ordered_less [OF ord, of m i] m(3)
        by (cases i m rule: linorder_cases) (auto simp: holds_offset_def)
    qed
    consider "d < a" | "b \<le> d" "\<not> d < a" | "a \<le> d" "d < b" using not_le by auto
    then show ?thesis
    proof cases
      case 1
      then have "segment_search segs (Some d) low m = find (holds_offset d) segs"
        using side less(3) m by (intro less(1)) auto
      then show ?thesis using step 1 by simp
    next
      case 2
      then have "segment_search segs (Some d) (m + 1) high = find (holds_offset d) segs"
        using side less(2,3) m by (intro less(1)) (auto simp: Suc_le_eq)
      then show ?thesis using step 2 by simp
    next
      case 3
      then have h: "holds_offset d (segs ! m)" using ab by (simp add: holds_offset_def)
      have "find (holds_offset d) segs = Some (segs ! m)"
        by (rule find_unique [OF m(3)]) (use h holds_unique [OF ord _ m(3) _ h] in auto)
      then show ?thesis using step 3 by simp
    qed
  qed
qed

lemma derivedSegmentAt_find:
  "ordered_segments segs \<Longrightarrow> derivedSegmentAt segs (Some d) = find (holds_offset d) segs"
  unfolding derivedSegmentAt_def by (rule segment_search_spec) auto

text \<open>The original offset through a linear search.\<close>

definition original_at :: "map_segment \<Rightarrow> nat \<Rightarrow> nat option" where
  "original_at s d =
     map_option (\<lambda>start. if m_kind s = ''synthetic'' \<or> m_kind s = ''replacement'' then start
                        else start + (d - the (m_derived_start s))) (m_original_start s)"

lemma derivedOriginalOffset_find:
  assumes "ordered_segments segs"
  shows "derivedOriginalOffset segs (Some d) =
    map_option Some (Option.bind (find (holds_offset d) segs) (\<lambda>s. original_at s d))"
proof (cases "find (holds_offset d) segs")
  case (Some s)
  then have "s \<in> set segs" by (auto simp: find_Some_iff)
  then obtain a where "m_derived_start s = Some a" using assms unfolding ordered_segments_def by blast
  then show ?thesis
    by (simp add: derivedOriginalOffset_def derivedSegmentAt_find [OF assms] Some original_at_def split: option.split)
qed (simp add: derivedOriginalOffset_def derivedSegmentAt_find [OF assms])

section \<open>The window search and the line loop\<close>

text \<open>Both searches of a line look at the same segments.\<close>

lemma first_value_candidate:
  "\<forall>s \<in> set cs. m_derived_start s \<noteq> None \<Longrightarrow>
     first_value segs cs start stop = map_option fst (first_candidate segs cs start stop)"
  by (induction cs) (auto split: option.split)

lemma skip_segments:
  assumes "ordered_segments segs"
  shows "drop (search_first (\<lambda>m. le_off (m_derived_end (segs ! m)) (Some p)) 0 (length segs)) segs =
    dropWhile (\<lambda>s. le_off (m_derived_end s) (Some p)) segs"
proof -
  let ?P = "\<lambda>m. le_off (m_derived_end (segs ! m)) (Some p)"
  have mono: "\<forall>i j. i \<le> j \<and> j < length segs \<and> ?P j \<longrightarrow> ?P i"
  proof (intro allI impI)
    fix i j assume ij: "i \<le> j \<and> j < length segs \<and> ?P j"
    show "?P i"
    proof (cases "i = j")
      case False
      obtain a b a' b' where "m_derived_start (segs ! i) = Some a" "m_derived_end (segs ! i) = Some b"
        "m_derived_start (segs ! j) = Some a'" "m_derived_end (segs ! j) = Some b'" "a' < b'"
        using ij ordered_nth [OF assms] by (metis order_le_less_trans)
      then show ?thesis using ordered_less [OF assms, of i j] ij False by auto
    qed (use ij in simp)
  qed
  define k where "k = search_first ?P 0 (length segs)"
  have k: "k \<le> length segs" "\<forall>i<k. ?P i" "\<forall>i. k \<le> i \<and> i < length segs \<longrightarrow> \<not> ?P i"
    using search_first_spec [of 0 "length segs" ?P] mono unfolding k_def by blast+
  have "dropWhile (\<lambda>s. le_off (m_derived_end s) (Some p)) segs =
      dropWhile (\<lambda>s. le_off (m_derived_end s) (Some p)) (take k segs @ drop k segs)" by simp
  also have "\<dots> = dropWhile (\<lambda>s. le_off (m_derived_end s) (Some p)) (drop k segs)"
    using k(1,2) by (intro dropWhile_append2) (auto simp: in_set_conv_nth)
  also have "\<dots> = drop k segs"
    using k(3) by (cases "k < length segs") (simp_all add: Cons_nth_drop_Suc [symmetric])
  finally show ?thesis by (simp add: k_def)
qed

lemma firstMapped_candidate:
  assumes "ordered_segments segs"
  shows "firstMapped segs start stop =
    map_option fst (first_candidate segs (dropWhile (\<lambda>s. le_off (m_derived_end s) (Some start)) segs) start stop)"
proof -
  have "\<forall>s \<in> set (dropWhile (\<lambda>s. le_off (m_derived_end s) (Some start)) segs). m_derived_start s \<noteq> None"
    using assms by (auto simp: ordered_segments_def dest!: set_dropWhileD)
  then show ?thesis by (simp add: firstMapped_def Let_def skip_segments [OF assms] first_value_candidate)
qed

section \<open>Split lines and line starts\<close>

fun line_offsets :: "nat \<Rightarrow> 'a list list \<Rightarrow> nat list" where
  "line_offsets o' [] = []"
| "line_offsets o' (l # ls) = o' # line_offsets (o' + length l + 1) ls"

lemma newlines_Cons:
  "newlines (c # xs) (Suc n) = (if c = newline then [0] else []) @ map Suc (newlines xs n)"
proof -
  have "[0..<Suc n] = 0 # map Suc [0..<n]" by (simp add: map_Suc_upt upt_conv_Cons)
  then show ?thesis by (simp add: newlines_def filter_map comp_def)
qed

lemma line_offsets_split:
  "line_offsets o' (split_on newline xs) = map ((+) o') (line_starts xs (length xs))"
proof (induction xs arbitrary: o')
  case Nil
  then show ?case by (simp add: line_starts_def newlines_def)
next
  case (Cons c xs)
  obtain l ls where s: "split_on newline xs = l # ls" by (cases "split_on newline xs") auto
  have "line_offsets (Suc o') (split_on newline xs) = map ((+) (Suc o')) (line_starts xs (length xs))" by (rule Cons)
  then show ?case by (auto simp: s line_starts_def newlines_Cons)
qed

lemma length_line_offsets [simp]: "length (line_offsets o' ls) = length ls"
  by (induction ls arbitrary: o') auto

lemma length_split_lines: "length (split_on newline xs) = length (line_starts xs (length xs))"
  using arg_cong [OF line_offsets_split [of 0 xs], of length] by simp

lemma line_offsets_Suc: "Suc i < length ls \<Longrightarrow> line_offsets o' ls ! Suc i = line_offsets o' ls ! i + length (ls ! i) + 1"
proof (induction ls arbitrary: o' i)
  case (Cons l ls)
  show ?case
  proof (cases i)
    case 0
    then show ?thesis using Cons(2) by (cases ls) auto
  next
    case (Suc n)
    then show ?thesis using Cons(1) [of n "o' + length l + 1"] Cons(2) by simp
  qed
qed simp

lemma line_offsets_last:
  "ls \<noteq> [] \<Longrightarrow> line_offsets o' ls ! (length ls - 1) + length (last ls) + 1 = o' + (\<Sum>l\<leftarrow>ls. length l + 1)"
proof (induction ls arbitrary: o')
  case (Cons l ls)
  show ?case
  proof (cases "ls = []")
    case False
    then have "line_offsets o' (l # ls) ! (length (l # ls) - 1) = line_offsets (o' + length l + 1) ls ! (length ls - 1)"
      by (cases ls) auto
    then show ?thesis using Cons(1) [OF False, of "o' + length l + 1"] False by simp
  qed simp
qed simp

lemma split_total: "(\<Sum>l\<leftarrow>split_on newline xs. length l + 1) = length xs + 1"
  by (induction xs) (auto split: list.splits)

text \<open>The bounds the index gives for a line are those of the split.\<close>

lemma line_length_split:
  assumes "length xs \<le> SOURCE_DOCUMENT_LIMIT"
    and b: "sourceDocumentLine (sourceDocumentIndex xs) (Some (int l)) = Some b"
  shows "l < length (split_on newline xs) \<and> b_start b = line_offsets 0 (split_on newline xs) ! l \<and>
    b_length b = length (split_on newline xs ! l)"
proof -
  have doc: "doc_length xs = length xs" using assms(1) by simp
  have l: "l < length (doc_starts xs)"
    using b offset_None [of xs "Some (int l)"] by (cases "l < length (doc_starts xs)") (auto simp: sourceDocumentLine_def)
  then have ls: "l < length (split_on newline xs)" by (simp add: length_split_lines assms(1))
  have start: "line_offsets 0 (split_on newline xs) ! k = line_starts xs (length xs) ! k"
    if "k < length (split_on newline xs)" for k
    using that by (simp add: line_offsets_split length_split_lines)
  define s where "s = line_starts xs (length xs) ! l"
  have b_eq: "b = (let stop = (case next_newline xs s of None \<Rightarrow> length xs | Some p \<Rightarrow> min p (length xs))
      in \<lparr>b_start = s, b_end = stop, b_length = stop - s\<rparr>)"
    using b offset_line [OF l] assms(1)
    by (cases "next_newline xs s") (simp_all add: sourceDocumentLine_def index_fields Let_def s_def)
  have "(case next_newline xs s of None \<Rightarrow> length xs | Some p \<Rightarrow> min p (length xs)) = s + length (split_on newline xs ! l)"
  proof (cases "l < length (newlines xs (length xs))")
    case True
    have "Suc l < length (split_on newline xs)" using True by (simp add: length_split_lines length_line_starts)
    then have "Suc (newlines xs (length xs) ! l) = s + length (split_on newline xs ! l) + 1"
      using line_offsets_Suc [of l "split_on newline xs" 0] start [of l] start [of "Suc l"]
      by (simp add: line_starts_Suc [OF True] s_def)
    moreover have "next_newline xs s = Some (newlines xs (length xs) ! l)"
      using next_newline_line [OF order_refl True] by (simp add: s_def)
    ultimately show ?thesis using newlines_nth [OF True] by simp
  next
    case False
    then have last: "l = length (newlines xs (length xs))" using l by (simp add: assms(1) length_line_starts)
    have "next_newline xs s = None"
      using next_newline_last [of xs "length xs"] last by (cases "next_newline xs s") (auto simp: s_def next_newline_Some)
    moreover have "s + length (split_on newline xs ! l) + 1 = length xs + 1"
      using line_offsets_last [of "split_on newline xs" 0] split_total [of xs] start [OF ls] last ls
      by (simp add: last_conv_nth length_split_lines length_line_starts s_def)
    ultimately show ?thesis by simp
  qed
  then show ?thesis using ls start [OF ls] by (simp add: b_eq Let_def s_def)
qed

lemma dropWhile_subset: "set (dropWhile P xs) \<subseteq> set xs"
  using set_dropWhileD by fast

lemma dropWhile_dropWhile: "(\<And>x. P x \<Longrightarrow> Q x) \<Longrightarrow> dropWhile Q (dropWhile P xs) = dropWhile Q xs"
  by (induction xs) auto

lemma line_map_nth:
  "i < length ls \<Longrightarrow> line_map_loop starts segs todo o' n ls ! i =
     line_entry_of starts (n + i)
       (first_candidate segs (dropWhile (\<lambda>s. le_off (m_derived_end s) (Some (line_offsets o' ls ! i))) todo)
         (line_offsets o' ls ! i) (line_offsets o' ls ! i + length (ls ! i)))"
proof (induction ls arbitrary: todo o' n i)
  case (Cons l ls)
  show ?case
  proof (cases i)
    case 0
    then show ?thesis by (simp add: Let_def)
  next
    case (Suc k)
    let ?o = "line_offsets (o' + length l + 1) ls ! k"
    have k: "k < length ls" using Cons(2) Suc by simp
    have le: "a \<le> line_offsets a ls ! k" for a using k
    proof (induction ls arbitrary: a k)
      case (Cons m ms)
      then show ?case using Cons(1) [of "k - 1" "a + length m + 1"] by (cases k) (auto intro: order_trans [of _ "Suc (a + length m)"])
    qed simp
    have "dropWhile (\<lambda>s. le_off (m_derived_end s) (Some ?o)) (dropWhile (\<lambda>s. le_off (m_derived_end s) (Some o')) todo) =
        dropWhile (\<lambda>s. le_off (m_derived_end s) (Some ?o)) todo"
      using le [of "o' + length l + 1"]
      by (intro dropWhile_dropWhile) (auto simp: le_off_def split: option.splits)
    then show ?thesis
      using Cons(1) [OF k, of "dropWhile (\<lambda>s. le_off (m_derived_end s) (Some o')) todo" "o' + length l + 1" "n + 1"] Suc
      by (simp add: Let_def)
  qed
qed simp

lemma line_map_length: "length (line_map_loop starts segs todo o' n ls) = length ls"
  by (induction ls arbitrary: todo o' n) (simp_all add: Let_def)

lemma location_count:
  assumes "p \<le> length xs"
  shows "sourceLocationForOffset (sourceLineStarts xs) (Some p) =
    \<lparr>l_line = count_list (take p xs) newline,
     l_column = Some (length (takeWhile (\<lambda>c. c \<noteq> newline) (rev (take p xs))))\<rparr>"
proof -
  define starts where "starts = line_starts xs (length xs)"
  have st: "sourceLineStarts xs = starts" by (simp add: sourceLineStarts_def starts_def line_starts_def newlines_def)
  have ne: "0 < length starts" by (simp add: starts_def length_line_starts)
  define P where "P = (\<lambda>m. starts ! m \<le> p)"
  have "\<forall>i j. i \<le> j \<and> j \<le> length starts - 1 \<and> P j \<longrightarrow> P i"
  proof (intro allI impI)
    fix i j assume ij: "i \<le> j \<and> j \<le> length starts - 1 \<and> P j"
    then have "starts ! i \<le> starts ! j"
      using sorted_wrt_nth_less [OF line_starts_sorted, of i j xs "length xs"] ne
      unfolding starts_def by (cases "i = j") (simp, linarith)
    then show "P i" using ij by (simp add: P_def)
  qed
  moreover have "P 0" by (simp add: P_def starts_def line_starts_0)
  ultimately have low: "search_last P 0 (length starts - 1) \<le> length starts - 1" "P (search_last P 0 (length starts - 1))"
    "\<forall>k. search_last P 0 (length starts - 1) < k \<and> k \<le> length starts - 1 \<longrightarrow> \<not> P k"
    using search_last_spec [of 0 "length starts - 1" P] by blast+
  define r where "r = search_last P 0 (length starts - 1)"
  have "r < length starts" using low(1) ne unfolding r_def by linarith
  moreover have "Suc r < length starts \<Longrightarrow> p < starts ! Suc r" using low(3) unfolding r_def P_def by (simp add: not_le)
  moreover have "starts ! r \<le> p" using low(2) unfolding r_def P_def by simp
  ultimately have "line_at xs (length xs) p = r"
    unfolding starts_def by (intro line_at_unique)
  then show ?thesis
    using line_at_count [OF assms order_refl] line_at_column [OF assms order_refl]
    by (simp add: sourceLocationForOffset_def st P_def [symmetric] starts_def [symmetric] r_def Let_def)
qed

lemma first_candidate_number:
  assumes "ordered_segments segs"
  shows "first_candidate segs cs p stop = Some (offset, s) \<Longrightarrow> set cs \<subseteq> set segs \<Longrightarrow> offset \<noteq> None"
proof (induction cs)
  case (Cons c cs)
  obtain a where a: "m_derived_start c = Some a" using assms Cons(3) unfolding ordered_segments_def by auto
  show ?case
  proof (cases "derivedOriginalOffset segs (Some (max p a))")
    case None
    then show ?thesis using Cons a by (auto split: if_splits)
  next
    case (Some v)
    then have "v \<noteq> None" by (auto simp: derivedOriginalOffset_find [OF assms])
    then show ?thesis using Cons(2) a Some by (auto split: if_splits)
  qed
qed simp

section \<open>Unit boundaries\<close>








section \<open>Properties\<close>

text \<open>
  The two line searches of the editor agree: for every offset of a text within the
  document limit, the binary search over all line starts gives the line and column that the
  sparse document index gives.
\<close>

theorem locations_agree:
  assumes "p \<le> length xs" "length xs \<le> SOURCE_DOCUMENT_LIMIT"
  shows "sourceDocumentPosition (sourceDocumentIndex xs) (Some (int p)) =
    (let loc = sourceLocationForOffset (sourceLineStarts xs) (Some p) in
     Some \<lparr>p_line = l_line loc, p_column = the (l_column loc)\<rparr>)"
  using location_count [OF assms(1)] position_count [of p xs] assms by (simp add: Let_def)

theorem locations_agree_witness:
  "sourceDocumentPosition (sourceDocumentIndex [97, 10, 98]) (Some (int 3)) =
    (let loc = sourceLocationForOffset (sourceLineStarts [97, 10, 98]) (Some 3) in
     Some \<lparr>p_line = l_line loc, p_column = the (l_column loc)\<rparr>)"
  by (rule locations_agree) (simp_all add: SOURCE_DOCUMENT_LIMIT_def)


text \<open>
  C21. The binary searches over segments are linear searches. On ordered segments the original
  offset of a derived offset is the one of the segment that holds it, counted from the start of
  the segment (its start alone for a synthetic or replaced one), and null where no segment
  holds it.
\<close>

theorem derived_offset_linear:
  assumes "ordered_segments segs"
  shows "derivedOriginalOffset segs (Some d) =
    (case find (\<lambda>s. le_off (m_derived_start s) (Some d) \<and> less_off (Some d) (m_derived_end s)) segs of
       None \<Rightarrow> None
     | Some s \<Rightarrow> map_option (\<lambda>start. Some (if m_kind s = ''synthetic'' \<or> m_kind s = ''replacement'' then start
                                        else start + (d - the (m_derived_start s)))) (m_original_start s))"
  using derivedOriginalOffset_find [OF assms, of d] unfolding holds_offset_def original_at_def
  by (simp add: option.map_comp comp_def split: option.split)

definition two_segments :: "map_segment list" where
  "two_segments =
     [\<lparr>m_kind = ''verbatim'', m_original_start = Some 4, m_original_end = Some 6, m_derived_start = Some 0, m_derived_end = Some 2\<rparr>,
      \<lparr>m_kind = ''synthetic'', m_original_start = Some 6, m_original_end = Some 6, m_derived_start = Some 2, m_derived_end = Some 3\<rparr>]"

lemma two_ordered: "ordered_segments two_segments"
  by (simp add: ordered_segments_def two_segments_def)

theorem derived_offset_linear_witness:
  "derivedOriginalOffset two_segments (Some 1) = Some (Some 5)"
  using derived_offset_linear [OF two_ordered, of 1] by (simp add: two_segments_def)

text \<open>
  The mounted text is the formatted one, or the active one when nothing was formatted; it is
  mapped into the original, or into the active text when that is not derived.
\<close>

definition mounted_text :: "cus \<Rightarrow> document option \<Rightarrow> cus" where
  "mounted_text active formatted = (case formatted of Some f \<Rightarrow> d_text f | None \<Rightarrow> active)"

definition target_text :: "cus \<Rightarrow> cus \<Rightarrow> document option \<Rightarrow> cus" where
  "target_text orig active derived = (if derived = None then active else orig)"

definition document_segments :: "cus \<Rightarrow> cus \<Rightarrow> document \<Rightarrow> map_segment list" where
  "document_segments source derived d = sourceSegmentsUTF16 source derived (d_segments d) (d_unit d)"

definition segments_ordered :: "cus \<Rightarrow> cus \<Rightarrow> document option \<Rightarrow> document option \<Rightarrow> bool" where
  "segments_ordered orig active derived formatted \<longleftrightarrow>
     pred_option (\<lambda>d. ordered_segments (document_segments orig active d)) derived \<and>
     pred_option (\<lambda>f. ordered_segments (document_segments active (d_text f) f)) formatted"

text \<open>A line of one map, and what the window search finds for its row.\<close>

lemma row_stage:
  assumes "length shown \<le> SOURCE_DOCUMENT_LIMIT" "ordered_segments (sourceSegmentsUTF16 source shown segs unit)"
    "sourceDocumentExcerpt (sourceDocumentIndex shown) l column maximum = Some row"
  obtains found where "l < length (derivedLineMap source shown segs unit)"
    "derivedLineMap source shown segs unit ! l = line_entry_of (sourceLineStarts source) l found"
    "firstMapped (sourceSegmentsUTF16 source shown segs unit) (e_offset row) (e_offset row + fullLength row) = map_option fst found"
    "found = None \<or> (\<exists>z s. found = Some (Some z, s))"
proof -
  define us where "us = sourceSegmentsUTF16 source shown segs unit"
  define ls where "ls = split_on newline shown"
  obtain b where b: "sourceDocumentLine (sourceDocumentIndex shown) (Some (int l)) = Some b" "e_offset row = b_start b" "fullLength row = b_length b"
    using excerpt_fields [OF assms(3)] by blast
  have l: "l < length ls" "e_offset row = line_offsets 0 ls ! l" "fullLength row = length (ls ! l)"
    using line_length_split [OF assms(1) b(1)] b(2,3) by (auto simp: ls_def)
  have ord: "ordered_segments us" using assms(2) by (simp add: us_def)
  define found where "found = first_candidate us
      (dropWhile (\<lambda>s. le_off (m_derived_end s) (Some (e_offset row))) us) (e_offset row) (e_offset row + fullLength row)"
  have "found = None \<or> (\<exists>z s. found = Some (Some z, s))"
    using first_candidate_number [OF ord _ dropWhile_subset] unfolding found_def by (metis not_None_eq surj_pair)
  moreover have "l < length (derivedLineMap source shown segs unit)" using l(1) by (simp add: derivedLineMap_def line_map_length ls_def Let_def)
  moreover have "derivedLineMap source shown segs unit ! l = line_entry_of (sourceLineStarts source) l found"
    using line_map_nth [OF l(1)] l(2,3) by (simp add: derivedLineMap_def Let_def us_def found_def ls_def)
  ultimately show thesis using that [of found] firstMapped_candidate [OF ord] by (simp add: found_def us_def)
qed

lemma derived_offset_number:
  "ordered_segments segs \<Longrightarrow> derivedOriginalOffset segs (Some d) = None \<or> (\<exists>z. derivedOriginalOffset segs (Some d) = Some (Some z))"
  by (simp add: derivedOriginalOffset_find split: option.split) auto

text \<open>
  C22. The editor window shows what the full line map shows. Whether the text is derived,
  formatted or both, when the segments are ordered and the texts lie within the index limit of
  8 MiB, the position that the windowed mapping gives to a mounted row is the original line and
  column of that line in the full map, whenever that line maps inside the target text.
\<close>

theorem window_matches_line_map:
  assumes limits: "length (mounted_text active formatted) \<le> SOURCE_DOCUMENT_LIMIT"
      "length (target_text orig active derived) \<le> SOURCE_DOCUMENT_LIMIT"
    and ord: "segments_ordered orig active derived formatted"
    and row: "sourceDocumentExcerpt (sourceDocumentIndex (mounted_text active formatted)) l column maximum = Some row"
    and mapping: "sourceWindowMapping orig active derived formatted = Some mapped"
    and full: "sourceRepresentationLineMap orig active derived formatted = Some entries"
  shows "l < length entries \<and> n_line (entries ! l) = l \<and>
    (case originalOffset (entries ! l) of
       None \<Rightarrow> mapped [row] = [None] \<and> originalLine (entries ! l) = None
     | Some None \<Rightarrow> False
     | Some (Some z) \<Rightarrow> z \<le> length (target_text orig active derived) \<longrightarrow>
         (\<exists>pos. mapped [row] = [Some pos] \<and> originalLine (entries ! l) = Some (p_line pos) \<and>
            originalColumn (entries ! l) = Some (Some (p_column pos))))"
proof -
  let ?t = "target_text orig active derived"
  have pos: "\<exists>pos. sourceDocumentPosition (sourceDocumentIndex ?t) (Some (int z)) = Some pos \<and>
      l_line (sourceLocationForOffset (sourceLineStarts ?t) (Some z)) = p_line pos \<and>
      l_column (sourceLocationForOffset (sourceLineStarts ?t) (Some z)) = Some (p_column pos)" if "z \<le> length ?t" for z
    using location_count [OF that] position_count [of z ?t] that limits(2) by simp
  have finish: ?thesis
    if "l < length entries" "n_line (entries ! l) = l" "originalOffset (entries ! l) = offset"
      "offset = None \<or> (\<exists>z. offset = Some (Some z))"
      "originalLine (entries ! l) = map_option (l_line \<circ> sourceLocationForOffset (sourceLineStarts ?t)) offset"
      "originalColumn (entries ! l) = map_option (l_column \<circ> sourceLocationForOffset (sourceLineStarts ?t)) offset"
      "mapped [row] = [case offset of None \<Rightarrow> None | Some z \<Rightarrow> sourceDocumentPosition (sourceDocumentIndex ?t) (map_option int z)]"
    for offset
    using that pos by auto
  show ?thesis
  proof (cases formatted)
    case None
    then obtain d where d: "derived = Some d" using mapping by (cases derived) (auto simp: sourceWindowMapping_def)
    obtain found where f: "l < length (derivedLineMap orig active (d_segments d) (d_unit d))"
      "derivedLineMap orig active (d_segments d) (d_unit d) ! l = line_entry_of (sourceLineStarts orig) l found"
      "firstMapped (document_segments orig active d) (e_offset row) (e_offset row + fullLength row) = map_option fst found"
      "found = None \<or> (\<exists>z s. found = Some (Some z, s))"
      using row_stage [of active orig "d_segments d" "d_unit d" l column maximum row] limits(1) ord row
      by (auto simp: None d mounted_text_def segments_ordered_def document_segments_def)
    show ?thesis
      by (rule finish [of "map_option fst found"])
        (use f mapping full in \<open>auto simp: None d sourceRepresentationLineMap_def sourceWindowMapping_def map_row_def Let_def
          line_entry_of_def target_text_def document_segments_def option.map_comp comp_def\<close>)
  next
    case (Some fd)
    obtain found where f: "l < length (derivedLineMap active (d_text fd) (d_segments fd) (d_unit fd))"
      "derivedLineMap active (d_text fd) (d_segments fd) (d_unit fd) ! l = line_entry_of (sourceLineStarts active) l found"
      "firstMapped (document_segments active (d_text fd) fd) (e_offset row) (e_offset row + fullLength row) = map_option fst found"
      "found = None \<or> (\<exists>z s. found = Some (Some z, s))"
      using row_stage [of "d_text fd" active "d_segments fd" "d_unit fd" l column maximum row] limits(1) ord row
      by (auto simp: Some mounted_text_def segments_ordered_def document_segments_def)
    show ?thesis
    proof (cases derived)
      case None
      show ?thesis
        by (rule finish [of "map_option fst found"])
          (use f mapping full in \<open>auto simp: None Some sourceRepresentationLineMap_def sourceWindowMapping_def map_row_def Let_def
            line_entry_of_def target_text_def document_segments_def option.map_comp comp_def\<close>)
    next
      case d: (Some d)
      have dord: "ordered_segments (document_segments orig active d)" using ord by (simp add: d segments_ordered_def)
      define offset where "offset = Option.bind (map_option fst found) (derivedOriginalOffset (document_segments orig active d))"
      have n: "offset = None \<or> (\<exists>z. offset = Some (Some z))"
        unfolding offset_def using f(4) derived_offset_number [OF dord] by (elim disjE exE) simp_all
      have e: "entries ! l = (line_entry_of (sourceLineStarts active) l found)\<lparr>originalOffset := offset,
          originalLine := map_option (l_line \<circ> sourceLocationForOffset (sourceLineStarts orig)) offset,
          originalColumn := map_option (l_column \<circ> sourceLocationForOffset (sourceLineStarts orig)) offset\<rparr>" "l < length entries"
        using full f(1,2) by (auto simp: d Some sourceRepresentationLineMap_def Let_def document_segments_def offset_def line_entry_of_def
          option.map_comp)
      have m: "mapped [row] = [case offset of None \<Rightarrow> None | Some z \<Rightarrow> sourceDocumentPosition (sourceDocumentIndex ?t) (map_option int z)]"
        using mapping f(3) by (auto simp: d Some sourceWindowMapping_def map_row_def Let_def target_text_def document_segments_def
          offset_def split: option.split)
      show ?thesis by (rule finish [OF e(2) _ _ n _ _ m]) (simp_all add: e(1) line_entry_of_def Let_def target_text_def d)
    qed
  qed
qed

definition two_document :: document where
  "two_document = \<lparr>d_text = [97, 98, 10], d_segments = two_segments, d_unit = Some ''utf-16-code-unit''\<rparr>"

text \<open>The two segments of a formatted text over a derived one, which starts at offset 4 of its original.\<close>

theorem window_matches_line_map_witness:
  "\<exists>row mapped entries. sourceDocumentExcerpt (sourceDocumentIndex [97, 98, 10]) 0 (Some 0) 512 = Some row \<and>
    sourceWindowMapping [32, 32, 32, 32, 97, 98] [32, 32, 32, 32, 97, 98] (Some two_document) (Some two_document) = Some mapped \<and>
    sourceRepresentationLineMap [32, 32, 32, 32, 97, 98] [32, 32, 32, 32, 97, 98] (Some two_document) (Some two_document) = Some entries \<and>
    0 < length entries \<and> n_line (entries ! 0) = 0"
proof -
  let ?o = "[32, 32, 32, 32, 97, 98] :: cus" and ?d = "Some two_document"
  obtain row where row: "sourceDocumentExcerpt (sourceDocumentIndex (mounted_text ?o ?d)) 0 (Some 0) 512 = Some row"
    using line_start_excerpt [of 0 "[97, 98, 10]" 512] by (auto simp: two_document_def length_line_starts mounted_text_def)
  obtain mapped where mapped: "sourceWindowMapping ?o ?o ?d ?d = Some mapped" by (auto simp: sourceWindowMapping_def)
  obtain entries where entries: "sourceRepresentationLineMap ?o ?o ?d ?d = Some entries" by (auto simp: sourceRepresentationLineMap_def Let_def)
  have ord: "segments_ordered ?o ?o ?d ?d"
    using two_ordered by (simp add: segments_ordered_def document_segments_def two_document_def sourceSegmentsUTF16_def)
  have limits: "length (mounted_text ?o ?d) \<le> SOURCE_DOCUMENT_LIMIT" "length (target_text ?o ?o ?d) \<le> SOURCE_DOCUMENT_LIMIT"
    by (simp_all add: mounted_text_def target_text_def two_document_def SOURCE_DOCUMENT_LIMIT_def)
  show ?thesis using window_matches_line_map [OF limits ord row mapped entries] row mapped entries
    by (auto simp: two_document_def mounted_text_def)
qed

end
