(* ===== verification/SourceHighlight.thy ===== *)
theory SourceHighlight
  imports SourceLexer
begin

text \<open>
  The line by line highlighter of \<open>apps/research-ui/source_syntax.js\<close>:
  \<open>createSourceTokenizer\<close>, \<open>pushSourceToken\<close>, the line tokenizers and
  \<open>sourceSyntaxTokens\<close>. The tokenizer carries its state and the count of coloured tokens
  from line to line. A branch that pushes the rest of the line and breaks is an item that ends
  at the end of the line.
\<close>

section \<open>Words and patterns\<close>

definition SOURCE_HIGHLIGHT_TOKEN_LIMIT :: nat where "SOURCE_HIGHLIGHT_TOKEN_LIMIT = 50000"

definition SOURCE_CONTROL_WORDS :: "string list" where
  "SOURCE_CONTROL_WORDS =
     [''break'', ''case'', ''catch'', ''continue'', ''debugger'', ''default'', ''do'', ''else'',
      ''finally'', ''for'', ''if'', ''return'', ''switch'', ''throw'', ''try'', ''while'', ''with'',
      ''yield'', ''await'']"

definition SOURCE_KEYWORDS :: "string list" where
  "SOURCE_KEYWORDS =
     [''as'', ''async'', ''class'', ''const'', ''delete'', ''enum'', ''export'', ''extends'',
      ''from'', ''function'', ''get'', ''implements'', ''import'', ''in'', ''instanceof'',
      ''interface'', ''let'', ''new'', ''of'', ''package'', ''private'', ''protected'', ''public'',
      ''set'', ''static'', ''super'', ''this'', ''typeof'', ''var'', ''void'']"

definition SOURCE_LITERALS :: "string list" where
  "SOURCE_LITERALS = [''false'', ''Infinity'', ''NaN'', ''null'', ''true'', ''undefined'']"

abbreviation digits :: re where "digits \<equiv> plus (Cls cu_digit)"
abbreviation dot :: re where "dot \<equiv> chr CHR ''.''"

text \<open>\<open>\d+\.?\d*\<close> or \<open>\.\d+\<close>.\<close>

definition decimal :: re where
  "decimal = alts [seqs [digits, opt dot, Star (Cls cu_digit)], Seq dot digits]"

definition SOURCE_NUMBER_PATTERN :: re where
  "SOURCE_NUMBER_PATTERN =
     alts
       [seqs [chr CHR ''0'', Cls (one_of_cu ''xX''), plus (Cls cu_hex)],
        seqs [chr CHR ''0'', Cls (one_of_cu ''bB''), plus (Cls (one_of_cu ''01''))],
        seqs [chr CHR ''0'', Cls (one_of_cu ''oO''), plus (Cls (one_of_cu ''01234567''))],
        seqs [decimal, opt (seqs [Cls (one_of_cu ''eE''), opt (Cls (one_of_cu ''+-'')), digits]), opt (chr CHR ''n'')]]"

definition SOURCE_IDENTIFIER_PATTERN :: re where
  "SOURCE_IDENTIFIER_PATTERN = Seq (Cls word_start) (Star (Cls word_part))"

definition SOURCE_CSS_COLOR_PATTERN :: re where
  "SOURCE_CSS_COLOR_PATTERN = seqs [chr CHR ''#'', rep_exact 3 (Cls cu_hex), up_to 5 (Cls cu_hex), word_boundary]"

definition SOURCE_CSS_NUMBER_PATTERN :: re where
  "SOURCE_CSS_NUMBER_PATTERN = Seq decimal (opt (plus (Cls (\<lambda>c. cu_letter c \<or> one_of_cu ''%'' c))))"

definition letter_or_underscore :: "cu \<Rightarrow> bool" where
  "letter_or_underscore c = (cu_letter c \<or> one_of_cu ''_'' c)"

definition SOURCE_CSS_IDENTIFIER_PATTERN :: re where
  "SOURCE_CSS_IDENTIFIER_PATTERN =
     seqs [opt (chr CHR ''@''), up_to 2 (chr CHR ''-''), Cls letter_or_underscore,
           Star (Cls (\<lambda>c. cu_word c \<or> one_of_cu ''-'' c))]"

definition SOURCE_MARKUP_IDENTIFIER_PATTERN :: re where
  "SOURCE_MARKUP_IDENTIFIER_PATTERN =
     Seq (Cls (\<lambda>c. letter_or_underscore c \<or> one_of_cu '':'' c)) (Star (Cls (\<lambda>c. cu_word c \<or> one_of_cu '':.-'' c)))"

definition SOURCE_WASM_VALUE_PATTERN :: re where
  "SOURCE_WASM_VALUE_PATTERN =
     Seq (alts [rep_exact 8 (Cls cu_hex), rep_exact 2 (Cls cu_hex)]) (followed_by (alts [Cls is_space, end_of_text]))"

definition SOURCE_WASM_IDENTIFIER_PATTERN :: re where
  "SOURCE_WASM_IDENTIFIER_PATTERN =
     seqs [opt (chr CHR ''$''), Cls letter_or_underscore, Star (Cls (\<lambda>c. cu_word c \<or> one_of_cu ''.$-'' c))]"

section \<open>Helpers\<close>

text \<open>\<open>sourceMatchAt\<close>: the end of a nonempty match, as the callers test it.\<close>

definition sourceMatchAt :: "re \<Rightarrow> cus \<Rightarrow> nat \<Rightarrow> nat option" where
  "sourceMatchAt r xs i =
     (case match_end r xs i of None \<Rightarrow> None | Some j \<Rightarrow> if i < j then Some j else None)"

definition sourceNextSignificant :: "cus \<Rightarrow> nat \<Rightarrow> cu option" where
  "sourceNextSignificant xs i = unit_at xs (scan_while is_space xs i)"

definition sourcePreviousSignificant :: "cus \<Rightarrow> nat \<Rightarrow> cu option" where
  "sourcePreviousSignificant xs i = find (\<lambda>c. \<not> is_space c) (rev (take i xs))"

definition sourceIdentifierStart :: "cu \<Rightarrow> bool" where
  "sourceIdentifierStart c = (one_of_cu ''$_'' c \<or> in_range 65 90 c \<or> in_range 97 122 c)"

definition sourceDigit :: "cu \<Rightarrow> bool" where "sourceDigit c = in_range 48 57 c"

definition sourceCodeTokenStart :: "cus \<Rightarrow> nat \<Rightarrow> bool \<Rightarrow> bool" where
  "sourceCodeTokenStart xs i json =
     (at_is xs i sourceIdentifierStart \<or> at_is xs i sourceDigit \<or>
      here xs i CHR ''.'' \<and> at_is xs (i + 1) sourceDigit \<or> here xs i CHR ''/'' \<or>
      here xs i CHR 0x22 \<or> here xs i CHR 0x27 \<or> \<not> json \<and> here xs i CHR 0x60)"

definition sourceCssTokenStart :: "cus \<Rightarrow> nat \<Rightarrow> bool" where
  "sourceCssTokenStart xs i =
     (at_is xs i sourceIdentifierStart \<or> at_is xs i sourceDigit \<or>
      here xs i CHR ''.'' \<and> at_is xs (i + 1) sourceDigit \<or>
      at_is xs i (one_of_cu [CHR ''#'', CHR ''/'', CHR 0x22, CHR 0x27, CHR ''@'', CHR ''-'']))"

text \<open>\<open>do index += 1 while (index < line.length && !start(line, index))\<close>.\<close>

definition run_until :: "(nat \<Rightarrow> bool) \<Rightarrow> cus \<Rightarrow> nat \<Rightarrow> nat" where
  "run_until start xs i = (case find start [i + 1..<length xs] of None \<Rightarrow> max (i + 1) (length xs) | Some j \<Rightarrow> j)"

definition quotedSourceEnd :: "cus \<Rightarrow> nat \<Rightarrow> cu \<Rightarrow> nat" where
  "quotedSourceEnd xs first q = quoted_loop xs q first False"

function regexp_loop :: "cus \<Rightarrow> nat \<Rightarrow> bool \<Rightarrow> bool \<Rightarrow> nat option" where
  "regexp_loop xs i escaped characterClass =
     (if i < length xs
      then if escaped then regexp_loop xs (Suc i) False characterClass
           else if xs ! i = cu_of CHR 0x5C then regexp_loop xs (Suc i) True characterClass
           else if xs ! i = cu_of CHR ''['' then regexp_loop xs (Suc i) False True
           else if xs ! i = cu_of CHR '']'' then regexp_loop xs (Suc i) False False
           else if xs ! i = cu_of CHR ''/'' \<and> \<not> characterClass then Some (scan_while cu_letter xs (Suc i))
           else regexp_loop xs (Suc i) False characterClass
      else None)"
  by pat_completeness auto
termination by (relation "measure (\<lambda>(xs, i, escaped, characterClass). length xs - i)") auto

declare regexp_loop.simps [simp del]

definition regexpSourceEnd :: "cus \<Rightarrow> nat \<Rightarrow> nat" where
  "regexpSourceEnd xs start =
     (case regexp_loop xs (Suc start) False False of None \<Rightarrow> start + 1 | Some j \<Rightarrow> j)"

section \<open>The tokenizer\<close>

datatype scan_state = Code | BlockComment | Template | MarkupComment

datatype highlight =
    Plain | CommentH | StringH | PropertyH | NumberH | Control | Keyword | FunctionH | TypeH | Regexp | Attribute | TagH

record htoken =
  h_type :: highlight
  h_text :: cus

record tokenizer =
  lang :: language
  st :: scan_state
  coloredTokens :: nat
  truncated :: bool

definition createSourceTokenizer :: "language \<Rightarrow> tokenizer" where
  "createSourceTokenizer l = \<lparr>lang = l, st = Code, coloredTokens = 0, truncated = False\<rparr>"

text \<open>The bounded type and the tokenizer after \<open>pushSourceToken\<close>, and the token list.\<close>

definition bounded_type :: "tokenizer \<Rightarrow> highlight \<Rightarrow> highlight \<times> tokenizer" where
  "bounded_type tk ty =
     (if ty = Plain then (Plain, tk)
      else if SOURCE_HIGHLIGHT_TOKEN_LIMIT \<le> coloredTokens tk then (Plain, tk\<lparr>truncated := True\<rparr>)
      else (ty, tk\<lparr>coloredTokens := coloredTokens tk + 1\<rparr>))"

definition add_token :: "highlight \<Rightarrow> cus \<Rightarrow> htoken list \<Rightarrow> htoken list" where
  "add_token ty xs ts =
     (if ts \<noteq> [] \<and> h_type (last ts) = ty
      then butlast ts @ [(last ts)\<lparr>h_text := h_text (last ts) @ xs\<rparr>]
      else ts @ [\<lparr>h_type = ty, h_text = xs\<rparr>])"

definition pushSourceToken :: "highlight \<Rightarrow> cus \<Rightarrow> htoken list \<times> tokenizer \<Rightarrow> htoken list \<times> tokenizer" where
  "pushSourceToken ty xs s =
     (if xs = [] then s
      else let (bt, tk) = bounded_type (snd s) ty in (add_token bt xs (fst s), tk))"

definition with_state :: "scan_state \<Rightarrow> htoken list \<times> tokenizer \<Rightarrow> htoken list \<times> tokenizer" where
  "with_state x s = (fst s, (snd s)\<lparr>st := x\<rparr>)"

text \<open>The check at the top of every loop: the limit is reached, the rest is plain.\<close>

definition stop_colouring :: "cus \<Rightarrow> nat \<Rightarrow> htoken list \<times> tokenizer \<Rightarrow> htoken list \<times> tokenizer" where
  "stop_colouring line i s = pushSourceToken Plain (drop i line) (fst s, (snd s)\<lparr>truncated := True\<rparr>)"

abbreviation colour_full :: "htoken list \<times> tokenizer \<Rightarrow> bool" where
  "colour_full s \<equiv> SOURCE_HIGHLIGHT_TOKEN_LIMIT \<le> coloredTokens (snd s)"

section \<open>JavaScript and JSON\<close>

definition find_close :: "string \<Rightarrow> cus \<Rightarrow> nat \<Rightarrow> (nat \<times> bool)" where
  "find_close pat xs i =
     (case index_of (us pat) xs i of None \<Rightarrow> (length xs, False) | Some p \<Rightarrow> (p + length pat, True))"

definition word_type :: "cus \<Rightarrow> nat \<Rightarrow> nat \<Rightarrow> highlight" where
  "word_type line i j =
     (let word = slice i j line in
      if word \<in> set (map us SOURCE_CONTROL_WORDS) then Control
      else if word \<in> set (map us SOURCE_KEYWORDS) then Keyword
      else if word \<in> set (map us SOURCE_LITERALS) then NumberH
      else if sourceNextSignificant line j = Some (cu_of CHR ''('') then FunctionH
      else if at_is line i (in_range 65 90) then TypeH
      else PropertyH)"

definition regexp_allowed :: "cus \<Rightarrow> nat \<Rightarrow> bool" where
  "regexp_allowed line i =
     (i + 1 < length line \<and> \<not> here line (i + 1) CHR ''/'' \<and> \<not> at_is line (i + 1) is_space \<and>
      (case sourcePreviousSignificant line i of
         None \<Rightarrow> True
       | Some c \<Rightarrow> one_of_cu ''([{=,:;!&|?+-*%^~<>'' c))"

text \<open>The type pushed, the index reached and the state after it.\<close>

definition code_item :: "bool \<Rightarrow> scan_state \<Rightarrow> cus \<Rightarrow> nat \<Rightarrow> highlight \<times> nat \<times> scan_state" where
  "code_item json state line i =
     (if state = BlockComment then
        (let (j, closed) = find_close ''*/'' line i in (CommentH, j, if closed then Code else BlockComment))
      else if state = Template then
        (let j = quotedSourceEnd line i (cu_of CHR 0x60)
         in (StringH, j, if j < length line \<or> here line (j - 1) CHR 0x60 then Code else Template))
      else if here line i CHR ''/'' \<and> here line (i + 1) CHR ''/'' then (CommentH, length line, state)
      else if here line i CHR ''/'' \<and> here line (i + 1) CHR ''*'' then
        (let (j, closed) = find_close ''*/'' line (i + 2) in (CommentH, j, if closed then state else BlockComment))
      else if here line i CHR 0x22 \<or> here line i CHR 0x27 \<or> \<not> json \<and> here line i CHR 0x60 then
        (let j = quotedSourceEnd line (i + 1) (line ! i) in
         (if json \<and> sourceNextSignificant line j = Some (cu_of CHR '':'') then PropertyH else StringH, j,
          if here line i CHR 0x60 \<and> \<not> here line (j - 1) CHR 0x60 then Template else state))
      else if \<not> sourceCodeTokenStart line i json then
        (Plain, run_until (\<lambda>j. sourceCodeTokenStart line j json) line i, state)
      else
        (case sourceMatchAt SOURCE_NUMBER_PATTERN line i of
           Some j \<Rightarrow> (NumberH, j, state)
         | None \<Rightarrow>
             (case sourceMatchAt SOURCE_IDENTIFIER_PATTERN line i of
                Some j \<Rightarrow> (word_type line i j, j, state)
              | None \<Rightarrow>
                  if \<not> json \<and> here line i CHR ''/'' \<and> regexp_allowed line i \<and> i + 1 < regexpSourceEnd line i
                  then (Regexp, regexpSourceEnd line i, state)
                  else (Plain, i + 1, state))))"

lemma find_close_bounds: "i \<le> length xs \<Longrightarrow> i \<le> fst (find_close pat xs i) \<and> fst (find_close pat xs i) \<le> length xs"
  by (auto simp: find_close_def split: option.splits dest: index_of_Some)

lemma sourceMatchAt_bounds: "sourceMatchAt r xs i = Some j \<Longrightarrow> i \<le> length xs \<Longrightarrow> i < j \<and> j \<le> length xs"
  using match_end_bounds [of r xs i] by (auto simp: sourceMatchAt_def split: option.splits if_splits)

lemma run_until_bounds: "i < length xs \<Longrightarrow> i < run_until p xs i \<and> run_until p xs i \<le> length xs"
proof -
  assume "i < length xs"
  moreover have "j \<in> set [i + 1..<length xs]" if "find p [i + 1..<length xs] = Some j" for j
    using that by (metis find_Some_iff nth_mem)
  ultimately show ?thesis unfolding run_until_def by (cases "find p [i + 1..<length xs]") auto
qed

lemma quotedSourceEnd_bounds: "i \<le> length xs \<Longrightarrow> i \<le> quotedSourceEnd xs i q \<and> quotedSourceEnd xs i q \<le> length xs"
  unfolding quotedSourceEnd_def by (rule quoted_loop_bounds)

lemma quotedSourceEnd_greater: "i < length xs \<Longrightarrow> i < quotedSourceEnd xs i q \<and> quotedSourceEnd xs i q \<le> length xs"
proof -
  assume i: "i < length xs"
  then have "Suc i \<le> quoted_loop xs q (Suc i) b \<and> quoted_loop xs q (Suc i) b \<le> length xs" for b
    by (intro quoted_loop_bounds) simp
  from this [of True] this [of False] show ?thesis
    using i by (simp add: quotedSourceEnd_def quoted_loop.simps [of xs q i False])
qed

lemma regexp_loop_bounds: "regexp_loop xs i escaped cls = Some j \<Longrightarrow> i < j \<and> j \<le> length xs"
proof (induction "length xs - i" arbitrary: i escaped cls)
  case 0
  then show ?case by (simp add: regexp_loop.simps [of xs i])
next
  case (Suc n)
  have ih: "i < j \<and> j \<le> length xs" if "regexp_loop xs (Suc i) b c = Some j" for b c
    using Suc(1) [of "Suc i" b c] Suc(2) that by (simp add: Suc_diff_Suc [symmetric]) linarith
  have "i < scan_while cu_letter xs (Suc i)" "scan_while cu_letter xs (Suc i) \<le> length xs"
    using scan_while_ge [of "Suc i" cu_letter xs] scan_while_le [of "Suc i" xs cu_letter] Suc(2) by simp_all
  then show ?case using Suc(3) ih
    by (simp add: regexp_loop.simps [of xs i escaped cls] split: if_splits)
qed

lemma regexpSourceEnd_bounds: "i < length xs \<Longrightarrow> regexpSourceEnd xs i \<le> length xs"
  using regexp_loop_bounds [of xs "Suc i" False False]
  by (auto simp: regexpSourceEnd_def Suc_le_eq split: option.splits)

text \<open>An item that makes progress inside the line.\<close>

definition item_ok :: "cus \<Rightarrow> nat \<Rightarrow> highlight \<times> nat \<times> scan_state \<Rightarrow> bool" where
  "item_ok line i x \<longleftrightarrow> i < fst (snd x) \<and> fst (snd x) \<le> length line"

lemma item_pair: "item_ok line i x \<Longrightarrow> (ty, j, s) = x \<Longrightarrow> i < j \<and> j \<le> length line"
  by (auto simp: item_ok_def)

lemma item_if: "(b \<Longrightarrow> item_ok line i x) \<Longrightarrow> (\<not> b \<Longrightarrow> item_ok line i y) \<Longrightarrow> item_ok line i (if b then x else y)"
  by simp

lemma item_match:
  assumes "i \<le> length line" "\<And>j. item_ok line i (f j) \<longleftrightarrow> i < j \<and> j \<le> length line" "item_ok line i y"
  shows "item_ok line i (case sourceMatchAt r line i of None \<Rightarrow> y | Some j \<Rightarrow> f j)"
  using assms sourceMatchAt_bounds [of r line i] by (auto split: option.split)

lemma item_close:
  assumes "i \<le> k" "k \<le> length line" "i < length line"
  shows "item_ok line i (let (j, closed) = find_close ''*/'' line k in (CommentH, j, g closed))"
  using assms by (auto simp: item_ok_def find_close_def split: option.splits dest: index_of_Some)

lemma code_item_bounds:
  assumes i: "i < length line"
  shows "item_ok line i (code_item json state line i)"
proof -
  have two: "i + 2 \<le> length line" if "here line (i + 1) CHR ''*''" using that by (simp add: here_def at_is_def)
  have quoted: "i < quotedSourceEnd line (i + 1) q" "quotedSourceEnd line (i + 1) q \<le> length line" for q
    using quotedSourceEnd_bounds [of "i + 1" line q] i by linarith+
  show ?thesis
    unfolding code_item_def
    apply (intro item_if item_match item_close)
    using i two quoted quotedSourceEnd_greater [OF i] run_until_bounds [OF i] regexpSourceEnd_bounds [OF i]
    by (simp_all add: item_ok_def Let_def)
qed

text \<open>The body of the loop: the index reached and the tokens and tokenizer after it.\<close>

definition code_step :: "bool \<Rightarrow> cus \<Rightarrow> nat \<Rightarrow> htoken list \<times> tokenizer \<Rightarrow> nat \<times> htoken list \<times> tokenizer" where
  "code_step json line i s =
     (if colour_full s then (length line, stop_colouring line i s)
      else let (ty, j, x) = code_item json (st (snd s)) line i
        in (j, with_state x (pushSourceToken ty (slice i j line) s)))"

lemma code_step_bounds: "(j, s') = code_step json line i s \<Longrightarrow> i < length line \<Longrightarrow> i < j \<and> j \<le> length line"
  using code_item_bounds [of i line json "st (snd s)"]
  by (auto simp: code_step_def Let_def item_ok_def split: if_splits prod.splits)

lemma code_step_greater: "i < length line \<Longrightarrow> i < fst (code_step json line i s)"
  using code_step_bounds by (metis prod.collapse)

function code_loop :: "bool \<Rightarrow> cus \<Rightarrow> nat \<Rightarrow> htoken list \<times> tokenizer \<Rightarrow> htoken list \<times> tokenizer" where
  "code_loop json line i s =
     (if i < length line then let (j, s') = code_step json line i s in code_loop json line j s' else s)"
  by pat_completeness auto
termination
  by (relation "measure (\<lambda>(json, line, i, s). length line - i)")
    (auto simp: case_prod_beta code_step_greater intro!: diff_less_mono2)

declare code_loop.simps [simp del]

definition tokenizeCodeSourceLine :: "cus \<Rightarrow> tokenizer \<Rightarrow> htoken list \<times> tokenizer" where
  "tokenizeCodeSourceLine line tk = code_loop (lang tk = Json) line 0 ([], tk)"

section \<open>CSS\<close>

definition css_item :: "scan_state \<Rightarrow> cus \<Rightarrow> nat \<Rightarrow> highlight \<times> nat \<times> scan_state" where
  "css_item state line i =
     (if state = BlockComment then
        (let (j, closed) = find_close ''*/'' line i in (CommentH, j, if closed then Code else BlockComment))
      else if starts_at (us ''/*'') line i then
        (let (j, closed) = find_close ''*/'' line (i + 2) in (CommentH, j, if closed then state else BlockComment))
      else if here line i CHR 0x22 \<or> here line i CHR 0x27 then (StringH, quotedSourceEnd line (i + 1) (line ! i), state)
      else if \<not> sourceCssTokenStart line i then (Plain, run_until (sourceCssTokenStart line) line i, state)
      else
        (case (sourceMatchAt SOURCE_CSS_COLOR_PATTERN line i, sourceMatchAt SOURCE_CSS_NUMBER_PATTERN line i) of
           (Some j, _) \<Rightarrow> (NumberH, j, state)
         | (None, Some j) \<Rightarrow> (NumberH, j, state)
         | (None, None) \<Rightarrow>
             (case sourceMatchAt SOURCE_CSS_IDENTIFIER_PATTERN line i of
                Some j \<Rightarrow>
                  (if here line i CHR ''@'' then Keyword
                   else if sourceNextSignificant line j = Some (cu_of CHR '':'') then PropertyH else TypeH, j, state)
              | None \<Rightarrow> (Plain, i + 1, state))))"

lemma css_item_bounds:
  assumes i: "i < length line"
  shows "item_ok line i (css_item state line i)"
proof -
  have two: "i + 2 \<le> length line" if "starts_at (us ''/*'') line i"
    using that prefix_length_le [of "us ''/*''" "drop i line"] i by (simp add: starts_at_def)
  have quoted: "i < quotedSourceEnd line (i + 1) q" "quotedSourceEnd line (i + 1) q \<le> length line" for q
    using quotedSourceEnd_bounds [of "i + 1" line q] i by linarith+
  have "item_ok line i (case (sourceMatchAt r line i, sourceMatchAt q line i) of
      (Some j, _) \<Rightarrow> (NumberH, j, state) | (None, Some j) \<Rightarrow> (NumberH, j, state) | (None, None) \<Rightarrow> y)"
    if "item_ok line i y" for r q y
    using that i sourceMatchAt_bounds [of r line i] sourceMatchAt_bounds [of q line i]
    by (auto simp: item_ok_def split: option.split)
  note color = this
  show ?thesis
    unfolding css_item_def
    apply (intro item_if color item_match item_close)
    using i two quoted run_until_bounds [OF i] by (simp_all add: item_ok_def Let_def)
qed

definition css_line_step :: "cus \<Rightarrow> nat \<Rightarrow> htoken list \<times> tokenizer \<Rightarrow> nat \<times> htoken list \<times> tokenizer" where
  "css_line_step line i s =
     (if colour_full s then (length line, stop_colouring line i s)
      else let (ty, j, x) = css_item (st (snd s)) line i
        in (j, with_state x (pushSourceToken ty (slice i j line) s)))"

lemma css_step_bounds: "(j, s') = css_line_step line i s \<Longrightarrow> i < length line \<Longrightarrow> i < j \<and> j \<le> length line"
  using css_item_bounds [of i line "st (snd s)"]
  by (auto simp: css_line_step_def Let_def item_ok_def split: if_splits prod.splits)

lemma css_step_greater: "i < length line \<Longrightarrow> i < fst (css_line_step line i s)"
  using css_step_bounds by (metis prod.collapse)

function css_loop :: "cus \<Rightarrow> nat \<Rightarrow> htoken list \<times> tokenizer \<Rightarrow> htoken list \<times> tokenizer" where
  "css_loop line i s =
     (if i < length line then let (j, s') = css_line_step line i s in css_loop line j s' else s)"
  by pat_completeness auto
termination
  by (relation "measure (\<lambda>(line, i, s). length line - i)")
    (auto simp: case_prod_beta css_step_greater intro!: diff_less_mono2)

declare css_loop.simps [simp del]

definition tokenizeCssSourceLine :: "cus \<Rightarrow> tokenizer \<Rightarrow> htoken list \<times> tokenizer" where
  "tokenizeCssSourceLine line tk = css_loop line 0 ([], tk)"

section \<open>Markup\<close>

text \<open>One iteration of \<open>tokenizeMarkupTag\<close>; the flag is \<open>tagSeen\<close>.\<close>

definition tag_step :: "cus \<Rightarrow> nat \<Rightarrow> bool \<times> htoken list \<times> tokenizer \<Rightarrow> nat \<times> bool \<times> htoken list \<times> tokenizer" where
  "tag_step tag i x =
     (let (seen, s) = x in
      if colour_full s then (length tag, seen, stop_colouring tag i s)
      else if here tag i CHR 0x22 \<or> here tag i CHR 0x27 then
        (let j = quotedSourceEnd tag (i + 1) (tag ! i) in (j, seen, pushSourceToken StringH (slice i j tag) s))
      else
        (case sourceMatchAt SOURCE_MARKUP_IDENTIFIER_PATTERN tag i of
           Some j \<Rightarrow> (j, True, pushSourceToken (if seen then Attribute else TagH) (slice i j tag) s)
         | None \<Rightarrow> (i + 1, seen, pushSourceToken Plain (slice i (i + 1) tag) s)))"

lemma tag_step_bounds: "(j, x') = tag_step tag i x \<Longrightarrow> i < length tag \<Longrightarrow> i < j \<and> j \<le> length tag"
  using quotedSourceEnd_bounds [of "i + 1" tag] sourceMatchAt_bounds [of SOURCE_MARKUP_IDENTIFIER_PATTERN tag i]
  by (auto simp: tag_step_def Let_def Suc_le_eq split: if_splits prod.splits option.splits)

lemma tag_step_greater: "i < length tag \<Longrightarrow> i < fst (tag_step tag i x)"
  using tag_step_bounds by (metis prod.collapse)

function tag_tokens :: "cus \<Rightarrow> nat \<Rightarrow> bool \<times> htoken list \<times> tokenizer \<Rightarrow> bool \<times> htoken list \<times> tokenizer" where
  "tag_tokens tag i x =
     (if i < length tag then let (j, x') = tag_step tag i x in tag_tokens tag j x' else x)"
  by pat_completeness auto
termination
  by (relation "measure (\<lambda>(tag, i, x). length tag - i)") (auto simp: case_prod_beta tag_step_greater intro!: diff_less_mono2)

declare tag_tokens.simps [simp del]

definition tokenizeMarkupTag :: "cus \<Rightarrow> htoken list \<times> tokenizer \<Rightarrow> htoken list \<times> tokenizer" where
  "tokenizeMarkupTag tag s = snd (tag_tokens tag 0 (False, s))"

definition markup_line_step :: "cus \<Rightarrow> nat \<Rightarrow> htoken list \<times> tokenizer \<Rightarrow> nat \<times> htoken list \<times> tokenizer" where
  "markup_line_step line i s =
     (if colour_full s then (length line, stop_colouring line i s)
      else if st (snd s) = MarkupComment then
        (let (j, closed) = find_close ''-->'' line i
         in (j, with_state (if closed then Code else MarkupComment) (pushSourceToken CommentH (slice i j line) s)))
      else
        (case index_of (us ''<'') line i of
           None \<Rightarrow> (length line, pushSourceToken Plain (drop i line) s)
         | Some tag \<Rightarrow>
             let s = pushSourceToken Plain (slice i tag line) s in
             if starts_at (us ''<!--'') line tag then
               (let (j, closed) = find_close ''-->'' line (tag + 4); s = pushSourceToken CommentH (slice tag j line) s
                in (j, if closed then s else with_state MarkupComment s))
             else
               (let j = fst (find_close ''>'' line (tag + 1)) in (j, tokenizeMarkupTag (slice tag j line) s))))"

lemma starts_length: "starts_at pat xs i \<Longrightarrow> i \<le> length xs \<Longrightarrow> i + length pat \<le> length xs"
  using prefix_length_le [of pat "drop i xs"] by (simp add: starts_at_def)

lemma markup_step_bounds: "(j, s') = markup_line_step line i s \<Longrightarrow> i < length line \<Longrightarrow> i < j \<and> j \<le> length line"
proof -
  assume j: "(j, s') = markup_line_step line i s" and i: "i < length line"
  have close: "i < fst (find_close p line k) \<and> fst (find_close p line k) \<le> length line"
    if "i \<le> k" "k \<le> length line" "p \<noteq> []" for p k
    using that i by (cases p) (auto simp: find_close_def split: option.splits dest!: index_of_Some)
  have tag: "i \<le> t \<and> t + 1 \<le> length line \<and> (starts_at (us ''<!--'') line t \<longrightarrow> t + 4 \<le> length line)"
    if "index_of (us ''<'') line i = Some t" for t
    using index_of_Some [OF that] starts_length [of "us ''<!--''" line t] by (simp add: eval_nat_numeral)
  show ?thesis
  proof (cases "index_of (us ''<'') line i")
    case None
    then show ?thesis using j i close [of i "''-->''"]
      by (auto simp: markup_line_step_def Let_def split: if_splits prod.splits)
  next
    case (Some t)
    then show ?thesis
      using j i tag [OF Some] close [of i "''-->''"] close [of "t + 4" "''-->''"] close [of "t + 1" "''>''"]
      by (auto simp: markup_line_step_def Let_def split: if_splits prod.splits)
  qed
qed

lemma markup_step_greater: "i < length line \<Longrightarrow> i < fst (markup_line_step line i s)"
  using markup_step_bounds by (metis prod.collapse)

function markup_line_loop :: "cus \<Rightarrow> nat \<Rightarrow> htoken list \<times> tokenizer \<Rightarrow> htoken list \<times> tokenizer" where
  "markup_line_loop line i s =
     (if i < length line then let (j, s') = markup_line_step line i s in markup_line_loop line j s' else s)"
  by pat_completeness auto
termination
  by (relation "measure (\<lambda>(line, i, s). length line - i)") (auto simp: case_prod_beta markup_step_greater intro!: diff_less_mono2)

declare markup_line_loop.simps [simp del]

definition tokenizeMarkupSourceLine :: "cus \<Rightarrow> tokenizer \<Rightarrow> htoken list \<times> tokenizer" where
  "tokenizeMarkupSourceLine line tk = markup_line_loop line 0 ([], tk)"

section \<open>Hex views and the dispatch\<close>

definition wasm_item :: "cus \<Rightarrow> nat \<Rightarrow> highlight \<times> nat" where
  "wasm_item line i =
     (if starts_at (us '';;'') line i then (CommentH, length line)
      else if here line i CHR ''|'' then (StringH, length line)
      else
        (case sourceMatchAt SOURCE_WASM_VALUE_PATTERN line i of
           Some j \<Rightarrow> (NumberH, j)
         | None \<Rightarrow>
             (case sourceMatchAt SOURCE_WASM_IDENTIFIER_PATTERN line i of
                Some j \<Rightarrow>
                  (if slice i j line \<in> set (map us [''i32'', ''i64'', ''f32'', ''f64'', ''v128'', ''funcref'', ''externref''])
                   then TypeH else Keyword, j)
              | None \<Rightarrow> (Plain, i + 1))))"

definition wasm_step :: "cus \<Rightarrow> nat \<Rightarrow> htoken list \<times> tokenizer \<Rightarrow> nat \<times> htoken list \<times> tokenizer" where
  "wasm_step line i s =
     (if colour_full s then (length line, stop_colouring line i s)
      else let (ty, j) = wasm_item line i in (j, pushSourceToken ty (slice i j line) s))"

lemma wasm_step_bounds: "(j, s') = wasm_step line i s \<Longrightarrow> i < length line \<Longrightarrow> i < j \<and> j \<le> length line"
  using sourceMatchAt_bounds [of _ line i]
  by (auto simp: wasm_step_def wasm_item_def Let_def split: if_splits prod.splits option.splits)

lemma wasm_step_greater: "i < length line \<Longrightarrow> i < fst (wasm_step line i s)"
  using wasm_step_bounds by (metis prod.collapse)

function wasm_loop :: "cus \<Rightarrow> nat \<Rightarrow> htoken list \<times> tokenizer \<Rightarrow> htoken list \<times> tokenizer" where
  "wasm_loop line i s =
     (if i < length line then let (j, s') = wasm_step line i s in wasm_loop line j s' else s)"
  by pat_completeness auto
termination
  by (relation "measure (\<lambda>(line, i, s). length line - i)") (auto simp: case_prod_beta wasm_step_greater intro!: diff_less_mono2)

declare wasm_loop.simps [simp del]

definition tokenizeWasmSourceLine :: "cus \<Rightarrow> tokenizer \<Rightarrow> htoken list \<times> tokenizer" where
  "tokenizeWasmSourceLine line tk = wasm_loop line 0 ([], tk)"

definition sourceSyntaxTokens :: "cus \<Rightarrow> tokenizer \<Rightarrow> htoken list \<times> tokenizer" where
  "sourceSyntaxTokens line tk =
     (if line = [] then ([\<lparr>h_type = Plain, h_text = us '' ''\<rparr>], tk)
      else if truncated tk then ([\<lparr>h_type = Plain, h_text = line\<rparr>], tk)
      else if lang tk = JavaScript \<or> lang tk = Json then tokenizeCodeSourceLine line tk
      else if lang tk = Css then tokenizeCssSourceLine line tk
      else if lang tk = Markup then tokenizeMarkupSourceLine line tk
      else if lang tk = Wasm \<or> lang tk = Bytes then tokenizeWasmSourceLine line tk
      else ([\<lparr>h_type = Plain, h_text = line\<rparr>], tk))"

section \<open>What a scanner emits\<close>

definition texts :: "htoken list \<Rightarrow> cus" where
  "texts ts = concat (map h_text ts)"

definition coloured :: "htoken list \<Rightarrow> nat" where
  "coloured ts = length (filter (\<lambda>t. h_type t \<noteq> Plain) ts)"

text \<open>No empty token, and neighbours of different types.\<close>

definition tidy :: "htoken list \<Rightarrow> bool" where
  "tidy ts \<longleftrightarrow> (\<forall>t \<in> set ts. h_text t \<noteq> []) \<and> distinct_adj (map h_type ts)"

text \<open>
  The effect of scanning the units \<open>xs\<close>: they are appended to the tokens; every coloured token
  is counted; the count only grows, up to the limit.
\<close>

definition emits_text :: "htoken list \<times> tokenizer \<Rightarrow> cus \<Rightarrow> htoken list \<times> tokenizer \<Rightarrow> bool" where
  "emits_text s xs t \<longleftrightarrow>
     texts (fst t) = texts (fst s) @ xs \<and>
     (tidy (fst s) \<longrightarrow> tidy (fst t)) \<and>
     coloured (fst t) + coloredTokens (snd s) \<le> coloured (fst s) + coloredTokens (snd t) \<and>
     coloredTokens (snd s) \<le> coloredTokens (snd t) \<and>
     (coloredTokens (snd s) \<le> SOURCE_HIGHLIGHT_TOKEN_LIMIT \<longrightarrow> coloredTokens (snd t) \<le> SOURCE_HIGHLIGHT_TOKEN_LIMIT) \<and>
     lang (snd t) = lang (snd s) \<and> (truncated (snd s) \<longrightarrow> truncated (snd t))"

lemma emits_trans: "emits_text s xs t \<Longrightarrow> emits_text t ys u \<Longrightarrow> emits_text s (xs @ ys) u"
  unfolding emits_text_def by auto

lemma emits_nothing: "emits_text s [] s"
  by (simp add: emits_text_def)

lemma emits_state: "emits_text s xs t \<Longrightarrow> emits_text s xs (with_state x t)"
  by (simp add: emits_text_def with_state_def)

lemma texts_add: "texts (add_token ty xs ts) = texts ts @ xs"
  by (cases ts rule: rev_cases) (auto simp: texts_def add_token_def)

lemma tidy_add: "tidy ts \<Longrightarrow> xs \<noteq> [] \<Longrightarrow> tidy (add_token ty xs ts)"
  by (cases ts rule: rev_cases) (auto simp: tidy_def add_token_def distinct_adj_append_iff)

lemma coloured_add: "coloured (add_token ty xs ts) \<le> coloured ts + (if ty = Plain then 0 else 1)"
  by (cases ts rule: rev_cases) (auto simp: coloured_def add_token_def)

lemma emits_push: "emits_text s xs (pushSourceToken ty xs s)"
proof (cases "xs = []")
  case True
  then show ?thesis by (simp add: pushSourceToken_def emits_nothing)
next
  case False
  then show ?thesis
    using tidy_add [of "fst s" xs] coloured_add [of ty xs "fst s"] coloured_add [of Plain xs "fst s"]
    by (auto simp: pushSourceToken_def emits_text_def texts_add bounded_type_def Let_def split: if_splits)
qed

lemma emits_stop: "emits_text s (drop i line) (stop_colouring line i s)"
proof -
  have "emits_text s [] (fst s, (snd s)\<lparr>truncated := True\<rparr>)" by (simp add: emits_text_def)
  then show ?thesis unfolding stop_colouring_def using emits_trans [OF _ emits_push] by fastforce
qed

text \<open>A scanner: a loop whose steps move forward and emit what they pass.\<close>

locale line_scanner =
  fixes step :: "cus \<Rightarrow> nat \<Rightarrow> 's \<Rightarrow> nat \<times> 's"
    and loop :: "cus \<Rightarrow> nat \<Rightarrow> 's \<Rightarrow> 's"
    and get :: "'s \<Rightarrow> htoken list \<times> tokenizer"
  assumes step_emits: "\<And>line i s j s'. i < length line \<Longrightarrow> (j, s') = step line i s \<Longrightarrow>
      i < j \<and> j \<le> length line \<and> emits_text (get s) (slice i j line) (get s')"
    and loop_step: "\<And>line i s. i < length line \<Longrightarrow> loop line i s = (let (j, s') = step line i s in loop line j s')"
    and loop_end: "\<And>line i s. length line \<le> i \<Longrightarrow> loop line i s = s"
begin

lemma loop_emits: "i \<le> length line \<Longrightarrow> emits_text (get s) (drop i line) (get (loop line i s))"
proof (induction "length line - i" arbitrary: i s rule: less_induct)
  case less
  show ?case
  proof (cases "i < length line")
    case True
    obtain j s' where js: "(j, s') = step line i s" by (metis surj_pair)
    then have e: "i < j" "j \<le> length line" "emits_text (get s) (slice i j line) (get s')" using step_emits [OF True js] by auto
    have "emits_text (get s') (drop j line) (get (loop line j s'))" by (rule less(1)) (use e True in auto)
    then have "emits_text (get s) (slice i j line @ drop j line) (get (loop line j s'))" by (rule emits_trans [OF e(3)])
    then show ?thesis using loop_step [OF True, of s] js [symmetric] e(1) by (simp add: slice_append_drop)
  next
    case False
    then show ?thesis using less(2) by (simp add: loop_end emits_nothing)
  qed
qed

end

lemma slice_to_end: "slice i (length xs) xs = drop i xs"
  by (simp add: slice_def)

interpretation code_scanner: line_scanner "code_step json" "code_loop json" "\<lambda>s. s" for json
proof unfold_locales
  fix line i s j s'
  assume i: "i < length line" "(j, s') = code_step json line i s"
  then show "i < j \<and> j \<le> length line \<and> emits_text s (slice i j line) s'"
    using code_step_bounds [OF i(2,1)] emits_stop [of s i line]
    by (auto simp: code_step_def Let_def slice_to_end intro: emits_state emits_push split: if_splits prod.splits)
qed (subst code_loop.simps, simp)+

interpretation css_scanner: line_scanner css_line_step css_loop "\<lambda>s. s"
proof unfold_locales
  fix line i s j s'
  assume i: "i < length line" "(j, s') = css_line_step line i s"
  then show "i < j \<and> j \<le> length line \<and> emits_text s (slice i j line) s'"
    using css_step_bounds [OF i(2,1)] emits_stop [of s i line]
    by (auto simp: css_line_step_def Let_def slice_to_end intro: emits_state emits_push split: if_splits prod.splits)
qed (subst css_loop.simps, simp)+

interpretation wasm_scanner: line_scanner wasm_step wasm_loop "\<lambda>s. s"
proof unfold_locales
  fix line i s j s'
  assume i: "i < length line" "(j, s') = wasm_step line i s"
  then show "i < j \<and> j \<le> length line \<and> emits_text s (slice i j line) s'"
    using wasm_step_bounds [OF i(2,1)] emits_stop [of s i line]
    by (auto simp: wasm_step_def Let_def slice_to_end intro: emits_push split: if_splits prod.splits)
qed (subst wasm_loop.simps, simp)+

interpretation tag_scanner: line_scanner tag_step tag_tokens snd
proof unfold_locales
  fix line i s j s'
  assume i: "i < length line" "(j, s') = tag_step line i s"
  then show "i < j \<and> j \<le> length line \<and> emits_text (snd s) (slice i j line) (snd s')"
    using tag_step_bounds [OF i(2,1)] emits_stop [of "snd s" i line] emits_push
    by (auto simp: tag_step_def Let_def slice_to_end case_prod_beta split: if_splits option.splits)
qed (subst tag_tokens.simps, simp)+

lemma emits_tag: "emits_text s tag (tokenizeMarkupTag tag s)"
  using tag_scanner.loop_emits [of 0 tag "(False, s)"] by (simp add: tokenizeMarkupTag_def)

interpretation markup_scanner: line_scanner markup_line_step markup_line_loop "\<lambda>s. s"
proof unfold_locales
  fix line i s j s'
  assume i: "i < length line" "(j, s') = markup_line_step line i s"
  have b: "i < j" "j \<le> length line" using markup_step_bounds [OF i(2,1)] by auto
  have join: "slice i t line @ slice t j line = slice i j line" if "index_of (us ''<'') line i = Some t" "t \<le> j" for t
    using index_of_Some [OF that(1)] that(2) by (simp add: slice_append_slice)
  have le: "t \<le> fst (find_close p line (t + m))" if "t + m \<le> length line" for t p m
    using find_close_bounds [OF that, of p] by simp
  have "emits_text s (slice i j line) s'"
  proof (cases "colour_full s \<or> st (snd s) = MarkupComment \<or> index_of (us ''<'') line i = None")
    case True
    then show ?thesis using i(2) emits_stop [of s i line]
      by (auto simp: markup_line_step_def Let_def slice_to_end intro: emits_state emits_push split: if_splits prod.splits)
  next
    case False
    then obtain t where t: "index_of (us ''<'') line i = Some t" by blast
    define u where "u = pushSourceToken Plain (slice i t line) s"
    have u: "emits_text s (slice i t line) u" unfolding u_def by (rule emits_push)
    have t1: "t + 1 \<le> length line" "starts_at (us ''<!--'') line t \<Longrightarrow> t + 4 \<le> length line"
      using index_of_Some [OF t] starts_length [of "us ''<!--''" line t] by (simp_all add: eval_nat_numeral)
    have step: "t \<le> j \<and> emits_text u (slice t j line) s'"
      using i(2) False t le [OF t1(1), of "''>''"] le [OF t1(2), of "''-->''"]
      by (auto simp: markup_line_step_def Let_def u_def [symmetric] intro: emits_state emits_push emits_tag
          split: if_splits prod.splits)
    then show ?thesis using emits_trans [OF u, of "slice t j line" s'] join [OF t] by simp
  qed
  with b show "i < j \<and> j \<le> length line \<and> emits_text s (slice i j line) s'" by blast
qed (subst markup_line_loop.simps, simp)+

lemma line_emits:
  assumes "line \<noteq> []"
  shows "emits_text ([], tk) line (sourceSyntaxTokens line tk)"
proof -
  have plain: "emits_text ([], tk) line ([\<lparr>h_type = Plain, h_text = line\<rparr>], tk)"
    using assms by (simp add: emits_text_def texts_def tidy_def coloured_def)
  show ?thesis
    using assms plain code_scanner.loop_emits [of 0 line "([], tk)"] css_scanner.loop_emits [of 0 line "([], tk)"]
      wasm_scanner.loop_emits [of 0 line "([], tk)"] markup_scanner.loop_emits [of 0 line "([], tk)"]
    by (simp add: sourceSyntaxTokens_def tokenizeCodeSourceLine_def tokenizeCssSourceLine_def
        tokenizeMarkupSourceLine_def tokenizeWasmSourceLine_def)
qed

text \<open>The lines of a source, one after the other.\<close>

fun highlight_lines :: "cus list \<Rightarrow> tokenizer \<Rightarrow> htoken list list \<times> tokenizer" where
  "highlight_lines [] tk = ([], tk)"
| "highlight_lines (l # ls) tk =
     (let (ts, tk') = sourceSyntaxTokens l tk; (rest, tk'') = highlight_lines ls tk' in (ts # rest, tk''))"

section \<open>Properties\<close>

text \<open>
  C23. Highlighting shows every line as it is. In every language and state the tokens of a line
  concatenate to the line (one blank for the empty line), none is empty, and neighbours have
  different types.
\<close>

theorem highlight_keeps_line:
  "texts (fst (sourceSyntaxTokens line tk)) = (if line = [] then us '' '' else line) \<and>
   tidy (fst (sourceSyntaxTokens line tk)) \<and> lang (snd (sourceSyntaxTokens line tk)) = lang tk"
proof (cases "line = []")
  case True
  then show ?thesis by (simp add: sourceSyntaxTokens_def texts_def tidy_def us_def)
next
  case False
  then show ?thesis using line_emits [of line tk] by (simp add: emits_text_def texts_def tidy_def)
qed

lemma highlight_lines_bound:
  "coloredTokens tk \<le> SOURCE_HIGHLIGHT_TOKEN_LIMIT \<Longrightarrow>
     (\<Sum>ts\<leftarrow>fst (highlight_lines ls tk). coloured ts) + coloredTokens tk \<le> coloredTokens (snd (highlight_lines ls tk)) \<and>
     coloredTokens (snd (highlight_lines ls tk)) \<le> SOURCE_HIGHLIGHT_TOKEN_LIMIT"
proof (induction ls arbitrary: tk)
  case (Cons l ls)
  obtain ts tk' where t: "sourceSyntaxTokens l tk = (ts, tk')" by (cases "sourceSyntaxTokens l tk")
  have c: "coloured ts + coloredTokens tk \<le> coloredTokens tk'" "coloredTokens tk' \<le> SOURCE_HIGHLIGHT_TOKEN_LIMIT"
  proof -
    have "emits_text ([], tk) l (ts, tk') \<or> l = []" using line_emits [of l tk] t by auto
    moreover have "coloured ts = 0 \<and> tk' = tk" if "l = []"
      using t that by (auto simp: sourceSyntaxTokens_def coloured_def)
    ultimately show "coloured ts + coloredTokens tk \<le> coloredTokens tk'" "coloredTokens tk' \<le> SOURCE_HIGHLIGHT_TOKEN_LIMIT"
      using Cons(2) by (auto simp: emits_text_def coloured_def)
  qed
  then show ?case using Cons(1) [OF c(2)] t by (auto simp: case_prod_beta Let_def)
qed simp

text \<open>
  A source costs at most 50000 coloured tokens: over any sequence of lines from a fresh
  tokenizer the coloured tokens of all lines together stay within the limit.
\<close>

theorem highlight_bounded:
  "(\<Sum>ts\<leftarrow>fst (highlight_lines ls (createSourceTokenizer l)). length (filter (\<lambda>t. h_type t \<noteq> Plain) ts)) \<le> 50000"
  using highlight_lines_bound [of "createSourceTokenizer l" ls]
  by (simp add: coloured_def createSourceTokenizer_def SOURCE_HIGHLIGHT_TOKEN_LIMIT_def)

text \<open>
  A template literal that opens with the last character of a line is not carried over: the
  tokenizer stays in its code state, because the test for a closing quote sees the opening one.
  The next line is read as code.
\<close>

theorem template_open_lost:
  "sourceSyntaxTokens (us [CHR 0x60]) (createSourceTokenizer JavaScript) =
     ([\<lparr>h_type = StringH, h_text = us [CHR 0x60]\<rparr>],
      \<lparr>lang = JavaScript, st = Code, coloredTokens = 1, truncated = False\<rparr>)"
  by (simp add: sourceSyntaxTokens_def tokenizeCodeSourceLine_def createSourceTokenizer_def code_loop.simps
      code_step_def code_item_def text_evals quotedSourceEnd_def quoted_loop.simps pushSourceToken_def bounded_type_def
      add_token_def with_state_def SOURCE_HIGHLIGHT_TOKEN_LIMIT_def Let_def)

end
