(* ===== verification/SourceHex.thy ===== *)
theory SourceHex
  imports SourceDocument TextPatterns Digits
begin

text \<open>
  The hex view of binary artifacts: \<open>wasmHexByteLimit\<close>, \<open>formatByteSize\<close>,
  \<open>sourceHexArtifact\<close> and \<open>formatWasmHex\<close> of \<open>apps/research-ui/source_syntax.js\<close>.
  A buffer is a list of 8-bit words.
\<close>

section \<open>The view\<close>

definition WASM_HEX_ROW_UNITS :: nat where "WASM_HEX_ROW_UNITS = 78"

definition wasmHexByteLimit :: nat where
  "wasmHexByteLimit = (let rows = (SOURCE_DOCUMENT_LIMIT - 160) div WASM_HEX_ROW_UNITS in rows * 16)"

text \<open>\<open>toFixed(1)\<close> of \<open>bytes / unit\<close>: the nearest tenth, the larger one of two.\<close>

definition tenths :: "nat \<Rightarrow> nat \<Rightarrow> string" where
  "tenths bytes unit =
     (let n = (20 * bytes + unit) div (2 * unit) in to_base 10 (n div 10) @ ''.'' @ to_base 10 (n mod 10))"

definition formatByteSize :: "nat \<Rightarrow> string" where
  "formatByteSize bytes =
     (if bytes < 1024 then to_base 10 bytes @ '' bytes''
      else if bytes < 1024 * 1024 then tenths bytes 1024 @ '' KB''
      else tenths bytes (1024 * 1024) @ '' MB'')"

text \<open>\<open>source?.kind\<close>, \<open>None\<close> when there is no source.\<close>

definition sourceHexArtifact :: "string option \<Rightarrow> bool" where
  "sourceHexArtifact kind = (kind = Some ''wasm'' \<or> kind = Some ''bytecode_buffer'')"

definition byte_hex :: "8 word \<Rightarrow> string" where
  "byte_hex b = padStart 2 CHR ''0'' (to_base 16 (unat b))"

definition byte_printable :: "8 word \<Rightarrow> char" where
  "byte_printable b = (if 32 \<le> unat b \<and> unat b < 127 then char_of (unat b) else CHR ''.'')"

definition hex_row :: "nat \<Rightarrow> 8 word list \<Rightarrow> string" where
  "hex_row offset chunk =
     (let address = padStart 8 CHR ''0'' (to_base 16 offset);
          hex = padEnd 47 CHR '' '' (join_with '' '' (map byte_hex chunk));
          printable = map byte_printable chunk
      in address @ ''  '' @ hex @ ''  |'' @ printable @ ''|'')"

text \<open>The loop over \<open>offset = 0, 16, 32, ...\<close>.\<close>

function hex_rows :: "nat \<Rightarrow> 8 word list \<Rightarrow> string list" where
  "hex_rows offset bytes =
     (if offset < length bytes then hex_row offset (slice offset (offset + 16) bytes) # hex_rows (offset + 16) bytes else [])"
  by pat_completeness auto
termination by (relation "measure (\<lambda>(offset, bytes). length bytes - offset)") auto

declare hex_rows.simps [simp del]

definition formatWasmHex :: "8 word list \<Rightarrow> string" where
  "formatWasmHex bytes = join_with [char_of (10 :: nat)] (hex_rows 0 bytes)"

section \<open>Sizes\<close>

lemma unat_byte: "unat b < 256" for b :: "8 word"
  by (rule order_less_le_trans [OF unsigned_less]) simp

lemma length_byte_hex: "length (byte_hex b) = 2"
proof -
  have "unat b < 16 ^ Suc 1" using unat_byte [of b] by simp
  then have "length (to_base 16 (unat b)) \<le> 2" using to_base_length [of 16 "unat b" 1] by simp
  then show ?thesis by (simp add: byte_hex_def padStart_def)
qed

lemma length_join: "xs \<noteq> [] \<Longrightarrow> length (join_with '' '' xs) = (\<Sum>x\<leftarrow>xs. length x) + (length xs - 1)"
proof (induction xs)
  case (Cons x xs)
  then show ?case by (cases xs) (auto simp: join_Cons)
qed simp

lemma sum_byte_hex: "(\<Sum>x\<leftarrow>map byte_hex bs. length x) = 2 * length bs"
  by (induction bs) (simp_all add: length_byte_hex)

lemma length_hex_cells:
  assumes "length bs \<le> 16"
  shows "length (join_with '' '' (map byte_hex bs)) \<le> 47"
proof (cases "bs = []")
  case False
  then have "length (join_with '' '' (map byte_hex bs)) = 2 * length bs + (length bs - 1)"
    by (simp add: length_join sum_byte_hex del: map_map)
  then show ?thesis using assms by linarith
qed simp

lemma length_hex_row:
  assumes "length chunk \<le> 16" "offset < 16 ^ Suc 7"
  shows "length (hex_row offset chunk) = 61 + length chunk"
proof -
  have "length (to_base 16 offset) \<le> Suc 7" using to_base_length [OF _ assms(2)] by simp
  then show ?thesis using length_hex_cells [OF assms(1)] by (simp add: hex_row_def padStart_def padEnd_def Let_def)
qed

lemma hex_rows_step:
  "offset < length bytes \<Longrightarrow>
     hex_rows offset bytes = hex_row offset (slice offset (offset + 16) bytes) # hex_rows (offset + 16) bytes"
  by (simp add: hex_rows.simps [of offset bytes])

lemma hex_rows_end: "length bytes \<le> offset \<Longrightarrow> hex_rows offset bytes = []"
  by (simp add: hex_rows.simps [of offset bytes])

lemma hex_rows_nth:
  "offset + 16 * r < length bytes \<Longrightarrow>
     r < length (hex_rows offset bytes) \<and>
     hex_rows offset bytes ! r = hex_row (offset + 16 * r) (slice (offset + 16 * r) (offset + 16 * r + 16) bytes)"
proof (induction r arbitrary: offset)
  case 0
  then show ?case by (simp add: hex_rows_step)
next
  case (Suc r)
  then show ?case using Suc(1) [of "offset + 16"] by (simp add: hex_rows_step algebra_simps)
qed

lemma hex_rows_length: "16 * length (hex_rows offset bytes) \<le> length bytes - offset + 15"
proof (induction "length bytes - offset" arbitrary: offset rule: less_induct)
  case less
  show ?case
  proof (cases "offset < length bytes")
    case True
    show ?thesis
    proof (cases "offset + 16 < length bytes")
      case more: True
      have "16 * length (hex_rows (offset + 16) bytes) \<le> length bytes - (offset + 16) + 15"
        by (rule less) (use more in simp)
      then show ?thesis using hex_rows_step [OF True] more by simp
    next
      case False
      then show ?thesis using hex_rows_step [OF True] hex_rows_end [of bytes "offset + 16"] True by simp
    qed
  qed (simp add: hex_rows_end)
qed

lemma hex_rows_units:
  assumes "length bytes \<le> 16 ^ Suc 7"
  shows "\<forall>row \<in> set (hex_rows offset bytes). length row \<le> 77"
proof (induction "length bytes - offset" arbitrary: offset rule: less_induct)
  case less
  show ?case
  proof (cases "offset < length bytes")
    case True
    have "length (hex_row offset (slice offset (offset + 16) bytes)) \<le> 77"
      using length_hex_row [of "slice offset (offset + 16) bytes" offset] True assms by simp
    then show ?thesis using less [of "offset + 16"] True by (simp add: hex_rows_step)
  qed (simp add: hex_rows_end)
qed

lemma length_join_le: "\<forall>r \<in> set rs. length r \<le> m \<Longrightarrow> length (join_with [c] rs) \<le> length rs * Suc m"
proof (induction rs)
  case (Cons r rs)
  then show ?case by (cases rs) (auto simp: join_Cons intro: le_trans)
qed simp

section \<open>Reading a byte back\<close>

text \<open>The value of two hexadecimal digits, and the cell of byte \<open>p\<close> in the view.\<close>

definition hex_value :: "string \<Rightarrow> nat" where
  "hex_value cell = foldl (\<lambda>n c. 16 * n + length (takeWhile (\<lambda>d. d \<noteq> c) ''0123456789abcdef'')) 0 cell"

definition read_byte :: "string \<Rightarrow> nat \<Rightarrow> nat" where
  "read_byte view p = hex_value (take 2 (drop (10 + 3 * (p mod 16)) (split_on (char_of (10 :: nat)) view ! (p div 16))))"

lemma digit_value: "d < 16 \<Longrightarrow> length (takeWhile (\<lambda>c. c \<noteq> digit_char d) ''0123456789abcdef'') = d"
proof -
  assume "d < 16"
  then have "d \<in> set [0..<16]" by simp
  moreover have "\<forall>d \<in> set [0..<16]. length (takeWhile (\<lambda>c. c \<noteq> digit_char d) ''0123456789abcdef'') = d"
    by (simp add: upt_rec digit_char_def)
  ultimately show ?thesis by blast
qed

lemma hex_value_byte: "hex_value (byte_hex b) = unat b"
proof (cases "unat b < 16")
  case True
  then have "byte_hex b = [CHR ''0'', digit_char (unat b)]" by (simp add: byte_hex_def to_base.simps [of 16] padStart_def)
  then show ?thesis using digit_value [OF True] by (simp add: hex_value_def)
next
  case False
  have lt: "unat b < 256" using unat_byte [of b] by simp
  then have "unat b div 16 < 16" by simp
  then have "byte_hex b = [digit_char (unat b div 16), digit_char (unat b mod 16)]"
    using False by (simp add: byte_hex_def to_base.simps [of 16] padStart_def)
  then show ?thesis using digit_value [of "unat b div 16"] digit_value [of "unat b mod 16"] lt by (simp add: hex_value_def)
qed

lemma nth_cell:
  "k < length cells \<Longrightarrow> \<forall>cell \<in> set cells. length cell = 2 \<Longrightarrow> take 2 (drop (3 * k) (join_with '' '' cells @ rest)) = cells ! k"
proof (induction cells arbitrary: k)
  case (Cons cell cells)
  show ?case
  proof (cases k)
    case 0
    then show ?thesis using Cons(3) by (cases cells) (auto simp: join_Cons)
  next
    case (Suc j)
    then have ne: "cells \<noteq> []" using Cons(2) by auto
    obtain a b where ab: "cell = [a, b]" using Cons(3) by (auto simp: length_Suc_conv numeral_2_eq_2)
    have "3 * k = Suc (Suc (Suc (3 * j)))" using Suc by simp
    then have "drop (3 * k) (join_with '' '' (cell # cells) @ rest) = drop (3 * j) (join_with '' '' cells @ rest)"
      by (simp only: join_Cons [OF ne] ab append.simps append_assoc drop_Suc_Cons)
    then show ?thesis using Cons(1) [of j] Cons(2,3) Suc by simp
  qed
qed simp

lemma hex_row_cells:
  assumes "length chunk \<le> 16" "offset < 16 ^ Suc 7" "k < length chunk"
  shows "take 2 (drop (10 + 3 * k) (hex_row offset chunk)) = byte_hex (chunk ! k)"
proof -
  have "length (to_base 16 offset) \<le> Suc 7" using to_base_length [OF _ assms(2)] by simp
  then have address: "length (padStart 8 CHR ''0'' (to_base 16 offset) @ ''  '') = 10" by (simp add: padStart_def)
  define pre where "pre = padStart 8 CHR ''0'' (to_base 16 offset) @ ''  ''"
  define cells where "cells = join_with '' '' (map byte_hex chunk)"
  define rest where "rest = replicate (47 - length cells) CHR '' '' @ ''  |'' @ map byte_printable chunk @ ''|''"
  have r: "hex_row offset chunk = pre @ cells @ rest"
    by (simp add: hex_row_def Let_def padEnd_def pre_def cells_def rest_def)
  have "drop (10 + 3 * k) (pre @ cells @ rest) = drop (3 * k) (cells @ rest)"
    using address [folded pre_def] by simp
  then have "take 2 (drop (10 + 3 * k) (hex_row offset chunk)) = take 2 (drop (3 * k) (join_with '' '' (map byte_hex chunk) @ rest))"
    by (simp only: r cells_def)
  also have "\<dots> = map byte_hex chunk ! k"
    by (rule nth_cell) (use assms(3) length_byte_hex in auto)
  finally show ?thesis using assms(3) by simp
qed

lemma digit_no_newline: "d < 16 \<Longrightarrow> digit_char d \<noteq> char_of (10 :: nat)"
proof -
  assume "d < 16"
  then have "d \<in> set [0..<16]" by simp
  moreover have "\<forall>d \<in> set [0..<16]. digit_char d \<noteq> char_of (10 :: nat)"
    by (simp add: upt_rec digit_char_def char_of_def)
  ultimately show ?thesis by blast
qed

lemma to_base_no_newline: "2 \<le> b \<Longrightarrow> b \<le> 16 \<Longrightarrow> char_of (10 :: nat) \<notin> set (to_base b n)"
proof (induction n rule: less_induct)
  case (less n)
  show ?case
  proof (cases "n < b")
    case True
    then show ?thesis using digit_no_newline [of n] less(3) by (simp add: to_base.simps [of b n])
  next
    case False
    then have "n div b < n" using less(2) by simp
    then have "char_of (10 :: nat) \<notin> set (to_base b (n div b))" using less by blast
    moreover have "n mod b < 16" using less(2,3) by (meson less_le_trans mod_less_divisor zero_less_numeral)
    ultimately show ?thesis using digit_no_newline [of "n mod b"] False less(2) by (simp add: to_base.simps [of b n])
  qed
qed

lemma set_join: "set (join_with sep xs) \<subseteq> set sep \<union> \<Union> (set ` set xs)"
proof (induction xs)
  case (Cons x xs)
  then show ?case by (cases xs) (auto simp: join_Cons)
qed simp

lemma hex_row_no_newline: "char_of (10 :: nat) \<notin> set (hex_row offset chunk)"
proof -
  have blank: "char_of (10 :: nat) \<noteq> CHR '' ''" "char_of (10 :: nat) \<noteq> CHR ''0''" "char_of (10 :: nat) \<noteq> CHR ''|''"
    "char_of (10 :: nat) \<noteq> CHR ''.''" by (simp_all add: char_of_def)
  have byte: "char_of (10 :: nat) \<notin> set (byte_hex b)" for b
    using to_base_no_newline [of 16 "unat b"] blank by (auto simp: byte_hex_def padStart_def)
  have print: "char_of (10 :: nat) \<noteq> byte_printable b" for b
  proof (cases "32 \<le> unat b \<and> unat b < 127")
    case True
    have "char_of (unat b) \<noteq> (char_of (10 :: nat) :: char)"
    proof
      assume "char_of (unat b) = (char_of (10 :: nat) :: char)"
      then have "unat b mod 256 = 10 mod 256" by (metis of_char_of)
      then show False using True by simp
    qed
    then show ?thesis using True by (auto simp: byte_printable_def)
  qed (auto simp: byte_printable_def blank)
  have cells: "char_of (10 :: nat) \<notin> set (join_with '' '' (map byte_hex chunk))"
    using set_join [of "'' ''" "map byte_hex chunk"] byte blank by auto
  show ?thesis
    using to_base_no_newline [of 16 offset] cells print blank by (auto simp: hex_row_def padStart_def padEnd_def Let_def)
qed

lemma hex_rows_no_newline: "\<forall>r \<in> set (hex_rows offset bytes). char_of (10 :: nat) \<notin> set r"
proof (induction "length bytes - offset" arbitrary: offset rule: less_induct)
  case less
  show ?case
  proof (cases "offset < length bytes")
    case True
    then show ?thesis using less [of "offset + 16"] by (simp add: hex_rows_step hex_row_no_newline)
  qed (simp add: hex_rows_end)
qed

section \<open>Properties\<close>

text \<open>
  The hex view of a buffer within the byte limit fits the document index, so searching and
  jumping reach every formatted byte.
\<close>

theorem hex_view_fits:
  assumes "length bytes \<le> wasmHexByteLimit"
  shows "length (formatWasmHex bytes) \<le> SOURCE_DOCUMENT_LIMIT"
proof -
  have limit: "wasmHexByteLimit \<le> 16 * 107544" by (simp add: wasmHexByteLimit_def SOURCE_DOCUMENT_LIMIT_def WASM_HEX_ROW_UNITS_def)
  then have "length bytes \<le> 16 ^ Suc 7" using assms by simp
  then have "length (formatWasmHex bytes) \<le> length (hex_rows 0 bytes) * Suc 77"
    unfolding formatWasmHex_def by (intro length_join_le hex_rows_units)
  moreover have "length (hex_rows 0 bytes) \<le> 107544" using hex_rows_length [of 0 bytes] assms limit by simp
  ultimately show ?thesis by (simp add: SOURCE_DOCUMENT_LIMIT_def)
qed

theorem hex_view_fits_witness: "length (formatWasmHex [0, 97, 115, 109]) \<le> SOURCE_DOCUMENT_LIMIT"
  by (rule hex_view_fits) (simp add: wasmHexByteLimit_def SOURCE_DOCUMENT_LIMIT_def WASM_HEX_ROW_UNITS_def)

text \<open>
  C24. Every byte can be read back from the view: byte \<open>p\<close> is the two-digit cell
  \<open>p mod 16\<close> of line \<open>p div 16\<close>.
\<close>

theorem hex_view_roundtrip:
  assumes "length bytes \<le> wasmHexByteLimit" "p < length bytes"
  shows "read_byte (formatWasmHex bytes) p = unat (bytes ! p)"
proof -
  define r where "r = p div 16"
  define k where "k = p mod 16"
  have p: "p = 16 * r + k" "k < 16" by (simp_all add: r_def k_def)
  have row: "r < length (hex_rows 0 bytes)" "hex_rows 0 bytes ! r = hex_row (16 * r) (slice (16 * r) (16 * r + 16) bytes)"
    using hex_rows_nth [of 0 r bytes] assms(2) p by simp_all
  have "length bytes \<le> 16 ^ Suc 7"
    using assms(1) by (simp add: wasmHexByteLimit_def SOURCE_DOCUMENT_LIMIT_def WASM_HEX_ROW_UNITS_def)
  then have off: "16 * r < 16 ^ Suc 7" using assms(2) p by linarith
  have "split_on (char_of (10 :: nat)) (formatWasmHex bytes) = hex_rows 0 bytes"
    unfolding formatWasmHex_def using row(1) hex_rows_no_newline by (intro split_join) auto
  then have "read_byte (formatWasmHex bytes) p =
      hex_value (take 2 (drop (10 + 3 * k) (hex_row (16 * r) (slice (16 * r) (16 * r + 16) bytes))))"
    by (simp add: read_byte_def row(2) r_def [symmetric] k_def [symmetric])
  also have "\<dots> = hex_value (byte_hex (slice (16 * r) (16 * r + 16) bytes ! k))"
    using hex_row_cells [OF _ off, of "slice (16 * r) (16 * r + 16) bytes" k] assms(2) p by simp
  also have "\<dots> = unat (bytes ! p)"
    using slice_nth [of "16 * r" k "16 * r + 16" bytes] assms(2) p by (simp add: hex_value_byte)
  finally show ?thesis .
qed

theorem hex_view_roundtrip_witness: "read_byte (formatWasmHex [0, 97, 115, 109]) 1 = 97"
  using hex_view_roundtrip [of "[0, 97, 115, 109]" 1]
  by (simp add: wasmHexByteLimit_def SOURCE_DOCUMENT_LIMIT_def WASM_HEX_ROW_UNITS_def)

end
