(* ===== verification/SourceFind.thy ===== *)
theory SourceFind
  imports SourceDocument
begin

text \<open>
  Find: \<open>sourceDocumentMatches\<close> and \<open>findSourceOccurrences\<close> of
  \<open>apps/research-ui/source_syntax.js\<close>. Both build a literal pattern with the \<open>u\<close> flag, so a
  text is matched by code points; the \<open>i\<close> flag compares the simple case foldings of the code
  points, and that table of the language is the argument \<open>canon\<close>.
\<close>

section \<open>Code points\<close>

text \<open>A code point and the number of units it takes. An unpaired surrogate is a code point of its own.\<close>

definition pair_value :: "cu \<Rightarrow> cu \<Rightarrow> nat" where
  "pair_value h l = 0x10000 + (unat h - 0xD800) * 0x400 + (unat l - 0xDC00)"

fun points :: "cus \<Rightarrow> (nat \<times> nat) list" where
  "points [] = []"
| "points [c] = [(unat c, 1)]"
| "points (c # d # cs) =
     (if high_surrogate c \<and> low_surrogate d then (pair_value c d, 2) # points cs
      else (unat c, 1) # points (d # cs))"

definition units :: "(nat \<times> nat) list \<Rightarrow> nat" where
  "units ps = sum_list (map snd ps)"

section \<open>Literal patterns\<close>

text \<open>
  The query with its syntax characters escaped matches exactly the code points of the query.
  \<open>exec_all\<close> is the sequence of results of repeated \<open>pattern.exec(text)\<close>: index and length of
  every match, each search starting where the last match ended. An empty pattern is never
  built: both callers return first.
\<close>

definition literal_here :: "(nat \<Rightarrow> nat) \<Rightarrow> nat list \<Rightarrow> (nat \<times> nat) list \<Rightarrow> bool" where
  "literal_here canon q ps = prefix (map canon q) (map (\<lambda>p. canon (fst p)) ps)"

function exec_all :: "(nat \<Rightarrow> nat) \<Rightarrow> nat list \<Rightarrow> (nat \<times> nat) list \<Rightarrow> nat \<Rightarrow> (nat \<times> nat) list" where
  "exec_all canon q ps pos =
     (case ps of [] \<Rightarrow> []
      | p # rest \<Rightarrow>
          if q \<noteq> [] \<and> literal_here canon q ps
          then (pos, units (take (length q) ps)) # exec_all canon q (drop (length q) ps) (pos + units (take (length q) ps))
          else exec_all canon q rest (pos + snd p))"
  by pat_completeness auto
termination by (relation "measure (\<lambda>(f, q, ps, p). length ps)") (auto simp: diff_less_Suc neq_Nil_conv less_Suc_eq_le)

declare exec_all.simps [simp del]

definition literal_matches :: "(nat \<Rightarrow> nat) \<Rightarrow> bool \<Rightarrow> cus \<Rightarrow> cus \<Rightarrow> (nat \<times> nat) list" where
  "literal_matches canon matchCase query xs =
     exec_all (if matchCase then (\<lambda>c. c) else canon) (map fst (points query)) (points xs) 0"

section \<open>Find in a document\<close>

record found =
  fd_line :: nat
  fd_column :: nat
  fd_offset :: nat
  fd_length :: nat

record find_result =
  fr_matches :: "found list"
  fr_truncated :: bool
  fr_error :: string

definition line_separator :: "cu \<Rightarrow> bool" where
  "line_separator c = (c = 13 \<or> c = 10 \<or> c = 0x2028 \<or> c = 0x2029)"

text \<open>
  The loop of \<open>sourceDocumentMatches\<close>. The inner loop that moves \<open>line\<close>, \<open>lineStart\<close> and
  \<open>newline\<close> forward is \<open>scan_line\<close>: \<open>newline\<close> is always the first line break from \<open>lineStart\<close>.
\<close>

fun match_loop :: "cus \<Rightarrow> nat \<Rightarrow> (nat \<Rightarrow> bool) option \<Rightarrow> (nat \<times> nat) list \<Rightarrow> nat \<Rightarrow> nat \<Rightarrow> found list \<Rightarrow> find_result" where
  "match_loop text limit accept [] line lineStart done =
     \<lparr>fr_matches = done, fr_truncated = False, fr_error = ''''\<rparr>"
| "match_loop text limit accept ((index, len) # results) line lineStart done =
     (let (line, lineStart) = scan_line text index lineStart line in
      if \<not> (case accept of None \<Rightarrow> True | Some f \<Rightarrow> f line)
      then match_loop text limit accept results line lineStart done
      else if length done = limit then \<lparr>fr_matches = done, fr_truncated = True, fr_error = ''''\<rparr>
      else match_loop text limit accept results line lineStart
        (done @ [\<lparr>fd_line = line, fd_column = index - lineStart, fd_offset = index, fd_length = len\<rparr>]))"

definition sourceDocumentMatches ::
  "(nat \<Rightarrow> nat) \<Rightarrow> source_index \<Rightarrow> cus \<Rightarrow> nat \<Rightarrow> (nat \<Rightarrow> bool) option \<Rightarrow> bool \<Rightarrow> find_result" where
  "sourceDocumentMatches canon ix query limit accept matchCase =
     (if query = [] then \<lparr>fr_matches = [], fr_truncated = False, fr_error = ''''\<rparr>
      else if 512 < length query
      then \<lparr>fr_matches = [], fr_truncated = False, fr_error = ''Find accepts at most 512 UTF-16 code units.''\<rparr>
      else if list_ex line_separator query
      then \<lparr>fr_matches = [], fr_truncated = False,
             fr_error = ''Find uses a single-line literal; line separators are not supported.''\<rparr>
      else
        let text = (if complete ix then ix_text ix else take (ix_length ix) (ix_text ix))
        in match_loop text limit accept (literal_matches canon matchCase query text) 0 0 [])"

section \<open>Find in a list of lines\<close>

record occurrence_at =
  oa_line :: nat
  oa_column :: nat
  oa_length :: nat

fun occurrences_in :: "nat \<Rightarrow> nat \<Rightarrow> (nat \<times> nat) list \<Rightarrow> occurrence_at list \<Rightarrow> occurrence_at list \<times> bool" where
  "occurrences_in limit line [] done = (done, False)"
| "occurrences_in limit line ((index, len) # results) done =
     (if length done = limit then (done, True)
      else occurrences_in limit line results (done @ [\<lparr>oa_line = line, oa_column = index, oa_length = len\<rparr>]))"

fun occurrences_from :: "(nat \<Rightarrow> nat) \<Rightarrow> cus \<Rightarrow> nat \<Rightarrow> nat \<Rightarrow> cus list \<Rightarrow> occurrence_at list \<Rightarrow> occurrence_at list \<times> bool" where
  "occurrences_from canon query limit line [] done = (done, False)"
| "occurrences_from canon query limit line (xs # lines) done =
     (let (done, truncated) = occurrences_in limit line (literal_matches canon False query xs) done
      in if truncated then (done, True) else occurrences_from canon query limit (Suc line) lines done)"

definition findSourceOccurrences :: "(nat \<Rightarrow> nat) \<Rightarrow> cus list \<Rightarrow> cus \<Rightarrow> nat \<Rightarrow> occurrence_at list \<times> bool" where
  "findSourceOccurrences canon lines query limit =
     (if query = [] then ([], False) else occurrences_from canon query limit 0 lines [])"

section \<open>Units of code points\<close>

lemma units_simps [simp]: "units [] = 0" "units (p # ps) = snd p + units ps" "units (ps @ qs) = units ps + units qs"
  by (simp_all add: units_def)

lemma units_points: "units (points xs) = length xs"
  by (induction xs rule: points.induct) auto

lemma points_positive: "p \<in> set (points xs) \<Longrightarrow> 0 < snd p"
  by (induction xs rule: points.induct) (auto split: if_splits)

lemma points_split:
  "points xs = ps @ qs \<Longrightarrow> points (take (units ps) xs) = ps \<and> points (drop (units ps) xs) = qs"
proof (induction xs arbitrary: ps rule: points.induct)
  case (2 c)
  then show ?case by (cases ps) auto
next
  case (3 c d cs)
  show ?case
  proof (cases ps)
    case (Cons p ps')
    show ?thesis
    proof (cases "high_surrogate c \<and> low_surrogate d")
      case True
      then have "points cs = ps' @ qs" "p = (pair_value c d, 2)" using 3(3) Cons by auto
      then show ?thesis using 3(1) [OF True] True Cons by (simp add: numeral_2_eq_2)
    next
      case False
      then have t: "points (d # cs) = ps' @ qs" and p: "p = (unat c, 1)" using 3(3) Cons by auto
      have ih: "points (take (units ps') (d # cs)) = ps' \<and> points (drop (units ps') (d # cs)) = qs"
        by (rule 3(2) [OF False t])
      moreover have "points (c # take (units ps') (d # cs)) = p # points (take (units ps') (d # cs))"
        using False p by (cases "units ps'") auto
      ultimately show ?thesis using Cons p by simp
    qed
  qed (use 3(3) in simp)
qed auto

section \<open>Results of a literal pattern\<close>

lemma exec_all_Nil: "exec_all f q [] pos = []"
  by (simp add: exec_all.simps)

lemma exec_all_hit:
  "ps \<noteq> [] \<Longrightarrow> q \<noteq> [] \<and> literal_here f q ps \<Longrightarrow> exec_all f q ps pos =
     (pos, units (take (length q) ps)) # exec_all f q (drop (length q) ps) (pos + units (take (length q) ps))"
  by (cases ps) (simp_all add: exec_all.simps [of f q "_ # _"])

lemma exec_all_miss:
  "\<not> (q \<noteq> [] \<and> literal_here f q (p # ps)) \<Longrightarrow> exec_all f q (p # ps) pos = exec_all f q ps (pos + snd p)"
  by (subst exec_all.simps) auto

lemma literal_here_take:
  "literal_here f q ps \<longleftrightarrow> map (\<lambda>p. f (fst p)) (take (length q) ps) = map f q"
  by (auto simp: literal_here_def prefix_def take_map [symmetric] intro: exI [of _ "map (\<lambda>p. f (fst p)) (drop (length q) ps)"])
     (metis append_take_drop_id drop_map)

lemma exec_all_sound:
  "(i, n) \<in> set (exec_all f q ps pos) \<Longrightarrow>
     \<exists>as bs cs. ps = as @ bs @ cs \<and> i = pos + units as \<and> n = units bs \<and> map (\<lambda>p. f (fst p)) bs = map f q"
proof (induction f q ps pos rule: exec_all.induct)
  case (1 f q ps pos)
  show ?case
  proof (cases ps)
    case Nil
    then show ?thesis using 1(3) by (simp add: exec_all.simps)
  next
    case (Cons p rest)
    show ?thesis
    proof (cases "q \<noteq> [] \<and> literal_here f q ps")
      case True
      let ?w = "units (take (length q) ps)"
      have "map (\<lambda>p. f (fst p)) (take (length q) ps) = map f q" using True by (simp add: literal_here_take)
      moreover have "(i, n) = (pos, ?w) \<or> (i, n) \<in> set (exec_all f q (drop (length q) ps) (pos + ?w))"
        using 1(3) exec_all_hit [OF _ True] Cons by simp
      ultimately show ?thesis
      proof (elim disjE, goal_cases)
        case 1
        then show ?case by (intro exI [of _ "[]"] exI [of _ "take (length q) ps"] exI [of _ "drop (length q) ps"]) simp
      next
        case 2
        obtain as bs cs where "drop (length q) ps = as @ bs @ cs" "i = pos + ?w + units as" "n = units bs"
          "map (\<lambda>p. f (fst p)) bs = map f q" using 1(1) [OF Cons True 2(2)] by blast
        have "ps = (take (length q) ps @ as) @ bs @ cs"
          using \<open>drop (length q) ps = _\<close> by (metis append_assoc append_take_drop_id)
        then show ?case using \<open>i = _\<close> \<open>n = _\<close> \<open>map _ bs = _\<close>
          by (intro exI [of _ "take (length q) ps @ as"] exI [of _ bs] exI [of _ cs]) (simp add: add.assoc)
      qed
    next
      case False
      have "(i, n) \<in> set (exec_all f q rest (pos + snd p))"
        using 1(3) False unfolding Cons by (simp only: exec_all_miss simp_thms)
      then obtain as bs cs where "rest = as @ bs @ cs" "i = pos + snd p + units as" "n = units bs"
          "map (\<lambda>p. f (fst p)) bs = map f q" using 1(2) [OF Cons False] by blast
      then show ?thesis using Cons by (intro exI [of _ "p # as"] exI [of _ bs] exI [of _ cs]) simp
    qed
  qed
qed

lemma exec_all_sorted:
  "sorted_wrt (\<lambda>(i, n) (j, m). i + n \<le> j) (exec_all f q ps pos)"
proof (induction f q ps pos rule: exec_all.induct)
  case (1 f q ps pos)
  show ?case
  proof (cases ps)
    case (Cons p rest)
    show ?thesis
    proof (cases "q \<noteq> [] \<and> literal_here f q ps")
      case True
      then show ?thesis using 1(1) [OF Cons True] exec_all_hit [OF _ True, of pos] Cons
        by (auto dest!: exec_all_sound)
    next
      case False
      then show ?thesis using 1(2) [OF Cons False] Cons by (simp only: exec_all_miss simp_thms)
    qed
  qed (simp add: exec_all_Nil)
qed

lemma exec_all_complete:
  "q \<noteq> [] \<Longrightarrow> ps = as @ bs @ cs \<Longrightarrow> map (\<lambda>p. f (fst p)) bs = map f q \<Longrightarrow> list_all (\<lambda>p. 0 < snd p) ps \<Longrightarrow>
     \<exists>(i, n) \<in> set (exec_all f q ps pos). i \<le> pos + units as \<and> pos + units as < i + n"
proof (induction f q ps pos arbitrary: as rule: exec_all.induct)
  case (1 f q ps pos)
  note q = 1(3) and ps = 1(4) and bs = 1(5) and pos = 1(6)
  have len: "length bs = length q" using arg_cong [OF bs, of length] by simp
  then have ne: "ps \<noteq> []" using ps q by (cases bs) auto
  then obtain p rest where Cons: "ps = p # rest" by (cases ps) auto
  show ?case
  proof (cases "literal_here f q ps")
    case True
    then have T: "q \<noteq> [] \<and> literal_here f q ps" using q by blast
    let ?w = "units (take (length q) ps)"
    have e: "exec_all f q ps pos = (pos, ?w) # exec_all f q (drop (length q) ps) (pos + ?w)"
      by (rule exec_all_hit [OF ne T])
    show ?thesis
    proof (cases "length as < length q")
      case True
      obtain b bs' where b: "bs = b # bs'" using len q by (cases bs) auto
      have "take (length q - length as) (b # bs' @ cs) = b # take (length q - length as - 1) (bs' @ cs)"
        using True by (cases "length q - length as") simp_all
      then have "take (length q) ps = as @ b # take (length q - length as - 1) (bs' @ cs)"
        using True unfolding ps b append_Cons take_append [of _ as] by (simp del: take_append)
      then have "units as < ?w" using pos unfolding ps b by simp
      then show ?thesis unfolding e by simp
    next
      case False
      have d: "drop (length q) ps = drop (length q) as @ bs @ cs" using False ps by simp
      have "list_all (\<lambda>p. 0 < snd p) (drop (length q) ps)" using pos set_drop_subset [of "length q" ps]
        by (auto simp: list_all_iff)
      from 1(1) [OF Cons T q d bs this] have "\<exists>(i, n) \<in> set (exec_all f q (drop (length q) ps) (pos + ?w)).
        i \<le> pos + ?w + units (drop (length q) as) \<and> pos + ?w + units (drop (length q) as) < i + n" .
      moreover have "?w + units (drop (length q) as) = units as"
        using False ps units_simps(3) [of "take (length q) as" "drop (length q) as"] by simp
      ultimately show ?thesis unfolding e by (auto simp: add.assoc)
    qed
  next
    case False
    then have F: "\<not> (q \<noteq> [] \<and> literal_here f q ps)" by blast
    have "as \<noteq> []"
    proof
      assume "as = []"
      then have "literal_here f q ps" using bs len ps by (simp add: literal_here_take)
      then show False using False by blast
    qed
    then obtain as' where as: "as = p # as'" "rest = as' @ bs @ cs" using Cons ps by (cases as) auto
    have "exec_all f q ps pos = exec_all f q rest (pos + snd p)" using F unfolding Cons by (rule exec_all_miss)
    moreover have "list_all (\<lambda>p. 0 < snd p) rest" using pos Cons by simp
    from 1(2) [OF Cons F q as(2) bs this] have "\<exists>(i, n) \<in> set (exec_all f q rest (pos + snd p)).
      i \<le> pos + snd p + units as' \<and> pos + snd p + units as' < i + n" .
    ultimately show ?thesis using as(1) by (auto simp: add.assoc)
  qed
qed

text \<open>Scanning to a later offset can continue from an earlier scan.\<close>

lemma scan_line_compose:
  "i \<le> j \<Longrightarrow> scan_line xs i s l = (l', s') \<Longrightarrow> scan_line xs j s' l' = scan_line xs j s l"
proof (induction xs i s l rule: scan_line.induct)
  case (1 xs i s l)
  show ?case
  proof (cases "next_newline xs s")
    case None
    then show ?thesis using 1(3) by (simp add: scan_line.simps [of xs i])
  next
    case (Some p)
    show ?thesis
    proof (cases "p < i")
      case True
      then have "scan_line xs i (Suc p) (Suc l) = (l', s')" using 1(3) Some by (simp add: scan_line.simps [of xs i s l])
      moreover have "scan_line xs j s l = scan_line xs j (Suc p) (Suc l)" using Some True 1(2) by (simp add: scan_line.simps [of xs j s l])
      ultimately show ?thesis using 1(1) [OF Some True 1(2)] by simp
    next
      case False
      then show ?thesis using 1(3) Some by (simp add: scan_line.simps [of xs i s l])
    qed
  qed
qed
section \<open>Occurrences\<close>

text \<open>
  An occurrence of the query: whole code points of the text whose foldings are those of the
  query, from unit \<open>i\<close> over \<open>n\<close> units.
\<close>

definition occurs :: "(nat \<Rightarrow> nat) \<Rightarrow> cus \<Rightarrow> cus \<Rightarrow> nat \<Rightarrow> nat \<Rightarrow> bool" where
  "occurs f query xs i n =
     (\<exists>as bs cs. points xs = as @ bs @ cs \<and> i = units as \<and> n = units bs \<and>
        map (\<lambda>p. f (fst p)) bs = map (\<lambda>p. f (fst p)) (points query))"

lemma literal_matches_occurs:
  "(i, n) \<in> set (literal_matches canon mc query xs) \<Longrightarrow> occurs (if mc then (\<lambda>c. c) else canon) query xs i n"
  unfolding literal_matches_def occurs_def using exec_all_sound by (fastforce simp: comp_def)

lemma occurs_bound: "occurs f query xs i n \<Longrightarrow> i + n \<le> length xs"
  unfolding occurs_def using units_points [of xs] by fastforce

lemma points_Nil: "points xs = [] \<longleftrightarrow> xs = []"
  by (cases xs rule: points.cases) auto

lemma literal_matches_cover:
  assumes "occurs (if mc then (\<lambda>c. c) else canon) query xs i n" "query \<noteq> []"
  shows "\<exists>(j, m) \<in> set (literal_matches canon mc query xs). j \<le> i \<and> i < j + m"
proof -
  obtain as bs cs where p: "points xs = as @ bs @ cs" "i = units as"
    and b: "map (\<lambda>p. (if mc then (\<lambda>c. c) else canon) (fst p)) bs = map (if mc then (\<lambda>c. c) else canon) (map fst (points query))"
    using assms(1) by (auto simp: occurs_def comp_def)
  have pos: "list_all (\<lambda>p. 0 < snd p) (points xs)" using points_positive by (auto simp: list_all_iff)
  have "map fst (points query) \<noteq> []" using assms(2) by (simp add: points_Nil)
  from exec_all_complete [OF this p(1) b pos, of 0] show ?thesis
    using p(2) by (simp only: literal_matches_def add_0)
qed

text \<open>A match with its line and column, and the filter of the caller.\<close>

definition located :: "cus \<Rightarrow> nat \<times> nat \<Rightarrow> found" where
  "located text m =
     (let (line, start) = scan_line text (fst m) 0 0
      in \<lparr>fd_line = line, fd_column = fst m - start, fd_offset = fst m, fd_length = snd m\<rparr>)"

definition accepted :: "(nat \<Rightarrow> bool) option \<Rightarrow> found \<Rightarrow> bool" where
  "accepted accept m = (case accept of None \<Rightarrow> True | Some f \<Rightarrow> f (fd_line m))"

lemma match_loop_spec:
  assumes "sorted_wrt (\<lambda>(i, n) (j, m). i + n \<le> j) results" "scan_line text before 0 0 = (line, start)"
    "\<forall>(i, n) \<in> set results. before \<le> i" "length done \<le> limit"
  shows "match_loop text limit accept results line start done =
    (let ms = done @ filter (accepted accept) (map (located text) results)
     in \<lparr>fr_matches = take limit ms, fr_truncated = (limit < length ms), fr_error = ''''\<rparr>)"
  using assms
proof (induction results arbitrary: before line start "done")
  case (Cons r results)
  obtain i n where r: "r = (i, n)" by (cases r)
  obtain l s where ls: "scan_line text i start line = (l, s)" by (cases "scan_line text i start line")
  have z: "scan_line text i 0 0 = (l, s)"
    using scan_line_compose [OF _ Cons(3), of i] Cons(4) ls r by simp
  have le: "\<forall>(j, m) \<in> set results. i \<le> j" and so: "sorted_wrt (\<lambda>(i, n) (j, m). i + n \<le> j) results"
    using Cons(2) r by auto
  let ?m = "\<lparr>fd_line = l, fd_column = i - s, fd_offset = i, fd_length = n\<rparr>"
  have pl: "located text r = ?m" using z by (simp add: located_def r)
  have acc: "(case accept of None \<Rightarrow> True | Some f \<Rightarrow> f l) = accepted accept ?m" by (simp add: accepted_def split: option.splits)
  note ih = Cons(1) [OF so z le]
  consider "\<not> accepted accept ?m" | "accepted accept ?m" "length done = limit" | "accepted accept ?m" "length done < limit"
    using Cons(5) by linarith
  then show ?case
  proof cases
    case 1
    then show ?thesis using ih [OF Cons(5)] by (simp add: r ls acc pl [unfolded r])
  next
    case 2
    then show ?thesis by (simp add: r ls acc pl [unfolded r] Let_def)
  next
    case 3
    then show ?thesis using ih [of "done @ [?m]"] by (simp add: r ls acc pl [unfolded r] Let_def)
  qed
qed simp
lemma located_position:
  assumes "i \<le> length text" "text = take (doc_length xs) xs"
  shows "sourceDocumentPosition (sourceDocumentIndex xs) (Some (int (fd_offset (located text (i, n))))) =
    Some \<lparr>p_line = fd_line (located text (i, n)), p_column = fd_column (located text (i, n))\<rparr>"
proof -
  have len: "doc_length text = length text" "i \<le> doc_length xs" "take i text = take i xs"
    using assms by (auto simp: min_def)
  have "scan_line text i (doc_starts text ! 0) 0 = (line_of text i, doc_starts text ! line_of text i)"
    by (rule scan_line_spec) (use assms len in simp_all)
  then have "located text (i, n) = \<lparr>fd_line = line_of text i, fd_column = i - doc_starts text ! line_of text i, fd_offset = i, fd_length = n\<rparr>"
    by (simp add: located_def line_starts_0)
  moreover have "sourceDocumentPosition (sourceDocumentIndex text) (Some (int i)) =
    Some \<lparr>p_line = line_of text i, p_column = i - doc_starts text ! line_of text i\<rparr>"
    by (rule position_line) (use assms len in simp)
  ultimately show ?thesis using position_count [of i xs] position_count [of i "text"] len assms(1) by simp
qed

section \<open>What Find searches\<close>

text \<open>The document within its limit, and the queries that are not refused.\<close>

definition find_text :: "cus \<Rightarrow> cus" where
  "find_text xs = take (doc_length xs) xs"

lemma find_text_index: "(if complete (sourceDocumentIndex xs) then ix_text (sourceDocumentIndex xs)
    else take (ix_length (sourceDocumentIndex xs)) (ix_text (sourceDocumentIndex xs))) = find_text xs"
  by (simp add: index_fields find_text_def)

lemma length_find_text: "length (find_text xs) = doc_length xs"
  by (simp add: find_text_def)

definition searched_query :: "cus \<Rightarrow> bool" where
  "searched_query query = (query \<noteq> [] \<and> length query \<le> 512 \<and> \<not> list_ex line_separator query)"

lemma matches_value:
  "searched_query query \<Longrightarrow> sourceDocumentMatches canon (sourceDocumentIndex xs) query limit accept mc =
    (let ms = filter (accepted accept) (map (located (find_text xs)) (literal_matches canon mc query (find_text xs)))
     in \<lparr>fr_matches = take limit ms, fr_truncated = (limit < length ms), fr_error = ''''\<rparr>)"
proof -
  assume q: "searched_query query"
  have "scan_line (find_text xs) 0 0 0 = (0, 0)" by (subst scan_line.simps) (simp split: option.splits)
  from match_loop_spec [OF _ this, of "literal_matches canon mc query (find_text xs)" "[]" limit accept]
  show ?thesis using q exec_all_sorted [of "if mc then (\<lambda>c. c) else canon" "map fst (points query)" "points (find_text xs)" 0]
    unfolding sourceDocumentMatches_def Let_def find_text_index
    by (simp add: searched_query_def literal_matches_def)
qed

lemma matches_none:
  "\<not> searched_query query \<Longrightarrow> fr_matches (sourceDocumentMatches canon ix query limit accept mc) = []"
  by (auto simp: sourceDocumentMatches_def searched_query_def)

lemma matches_members:
  assumes "m \<in> set (fr_matches (sourceDocumentMatches canon (sourceDocumentIndex xs) query limit accept mc))"
  obtains i n where "m = located (find_text xs) (i, n)" "occurs (if mc then (\<lambda>c. c) else canon) query (find_text xs) i n"
    "accepted accept m"
proof (cases "searched_query query")
  case True
  then have "m \<in> set (filter (accepted accept) (map (located (find_text xs)) (literal_matches canon mc query (find_text xs))))"
    using assms by (auto simp: matches_value Let_def dest: in_set_takeD)
  then show ?thesis using that literal_matches_occurs by force
qed (use assms matches_none in simp)

lemma matches_limit: "length (fr_matches (sourceDocumentMatches canon (sourceDocumentIndex xs) query limit accept mc)) \<le> limit"
  by (cases "searched_query query") (simp_all add: matches_value matches_none Let_def)

lemma located_fields: "fd_offset (located t (i, n)) = i" "fd_length (located t (i, n)) = n"
  by (simp_all add: located_def split: prod.splits)

section \<open>Occurrences in a list of lines\<close>

lemma occurrences_in_spec:
  "length done \<le> limit \<Longrightarrow> occurrences_in limit line results done =
    (let all = done @ map (\<lambda>(i, n). \<lparr>oa_line = line, oa_column = i, oa_length = n\<rparr>) results
     in (take limit all, limit < length all))"
  by (induction limit line results "done" rule: occurrences_in.induct) (auto simp: Let_def)

definition line_occurrences :: "(nat \<Rightarrow> nat) \<Rightarrow> cus \<Rightarrow> nat \<Rightarrow> cus \<Rightarrow> occurrence_at list" where
  "line_occurrences canon query line xs =
     map (\<lambda>(i, n). \<lparr>oa_line = line, oa_column = i, oa_length = n\<rparr>) (literal_matches canon False query xs)"

lemma occurrences_from_spec:
  "length done \<le> limit \<Longrightarrow> occurrences_from canon query limit line lines done =
    (let all = done @ concat (map (\<lambda>(l, xs). line_occurrences canon query l xs) (enumerate line lines))
     in (take limit all, limit < length all))"
proof (induction lines arbitrary: line "done")
  case (Cons xs lines)
  let ?o = "line_occurrences canon query line xs"
  have e: "occurrences_in limit line (literal_matches canon False query xs) done = (take limit (done @ ?o), limit < length (done @ ?o))"
    using occurrences_in_spec [OF Cons(2)] by (simp add: line_occurrences_def Let_def)
  show ?case
  proof (cases "limit < length (done @ ?o)")
    case True
    then show ?thesis by (simp add: e Let_def)
  next
    case False
    then show ?thesis using Cons(1) [of "done @ ?o"] by (simp add: e Let_def)
  qed
qed simp

text \<open>\<open>findSourceOccurrences\<close> lists the occurrences of all lines in order, cut at the limit.\<close>

lemma find_occurrences_take:
  "query \<noteq> [] \<Longrightarrow> findSourceOccurrences canon lines query limit =
    (let all = concat (map (\<lambda>(l, xs). line_occurrences canon query l xs) (enumerate 0 lines))
     in (take limit all, limit < length all))"
  by (simp add: findSourceOccurrences_def occurrences_from_spec)

section \<open>Code points determine the text\<close>

lemma pair_bounds: "high_surrogate c \<Longrightarrow> low_surrogate d \<Longrightarrow> 0x10000 \<le> pair_value c d"
  by (simp add: pair_value_def)

lemma pair_inject:
  assumes "high_surrogate a" "low_surrogate b" "high_surrogate c" "low_surrogate d" "pair_value a b = pair_value c d"
  shows "a = c \<and> b = d"
proof -
  define x y u v where d: "x = unat a - 0xD800" "y = unat b - 0xDC00" "u = unat c - 0xD800" "v = unat d - 0xDC00"
  have lt: "y < 0x400" "v < 0x400" and ge: "0xD800 \<le> unat a" "0xDC00 \<le> unat b" "0xD800 \<le> unat c" "0xDC00 \<le> unat d"
    using assms by (auto simp: d high_surrogate_def low_surrogate_def in_range_def)
  have e: "x * 0x400 + y = u * 0x400 + v" using assms(5) by (simp add: pair_value_def d)
  have "x = (x * 0x400 + y) div 0x400" "u = (u * 0x400 + v) div 0x400" using lt by simp_all
  then have "x = u" using e by simp
  then have "x = u \<and> y = v" using e by simp
  then have "unat a = unat c \<and> unat b = unat d" using ge unfolding d by (metis le_add_diff_inverse)
  then show ?thesis by (simp add: word_unat_eq_iff)
qed

lemma unit_bound: "unat (c :: cu) < 0x10000"
  using unsigned_less [of c, where ?'a = nat] by simp

lemma points_Cons:
  obtains (single) c cs where "xs = c # cs" "points xs = (unat c, 1) # points cs"
  | (pair) c d cs where "xs = c # d # cs" "points xs = (pair_value c d, 2) # points cs" "high_surrogate c" "low_surrogate d"
  | (none) "xs = []"
proof (cases xs rule: points.cases)
  case (2 c)
  show thesis by (rule single [of c "[]"]) (simp_all add: 2)
next
  case (3 c d cs)
  show thesis
  proof (cases "high_surrogate c \<and> low_surrogate d")
    case True
    show thesis by (rule pair [of c d cs]) (use 3 True in auto)
  next
    case False
    show thesis by (rule single [of c "d # cs"]) (use 3 False in auto)
  qed
qed (rule none)

lemma points_inject: "map fst (points xs) = map fst (points ys) \<Longrightarrow> xs = ys"
proof (induction xs arbitrary: ys rule: length_induct)
  case (1 xs)
  show ?case
  proof (cases xs rule: points_Cons)
    case (single c cs)
    show ?thesis
    proof (cases ys rule: points_Cons)
      case single': (single d ds)
      then have "unat c = unat d" "map fst (points cs) = map fst (points ds)" using 1(2) single by auto
      then show ?thesis using 1(1) single single' by (auto simp: word_unat_eq_iff)
    next
      case (pair d e ds)
      then show ?thesis using 1(2) single pair_bounds [of d e] unit_bound [of c] by simp
    next
      case none
      then show ?thesis using 1(2) single by simp
    qed
  next
    case (pair c d cs)
    show ?thesis
    proof (cases ys rule: points_Cons)
      case (single e ds)
      then show ?thesis using 1(2) pair pair_bounds [of c d] unit_bound [of e] by simp
    next
      case pair': (pair e f ds)
      then have "pair_value c d = pair_value e f" "map fst (points cs) = map fst (points ds)" using 1(2) pair by auto
      then show ?thesis using 1(1) pair pair' pair_inject [of c d e f] by auto
    next
      case none
      then show ?thesis using 1(2) pair by simp
    qed
  next
    case none
    then show ?thesis using 1(2) by (simp add: points_Nil)
  qed
qed

text \<open>With \<open>matchCase\<close> an occurrence is the query itself.\<close>

lemma occurs_exact:
  assumes "occurs (\<lambda>c. c) query xs i n"
  shows "n = length query \<and> slice i (i + n) xs = query"
proof -
  obtain as bs cs where p: "points xs = as @ bs @ cs" "i = units as" "n = units bs"
    and q: "map fst bs = map fst (points query)" using assms by (auto simp: occurs_def)
  have d: "points (drop i xs) = bs @ cs" using points_split [OF p(1)] p(2) by simp
  have t: "points (take n (drop i xs)) = bs" using points_split [OF d] p(3) by simp
  then have "take n (drop i xs) = query" using points_inject [of "take n (drop i xs)" query] q by simp
  moreover have "n = length (take n (drop i xs))" using units_points [of "take n (drop i xs)"] t p(3) by simp
  ultimately show ?thesis by (simp add: slice_def)
qed

section \<open>Properties\<close>

text \<open>
  C32. Every match Find reports lies where the document says it is: the line and column of a
  match are the position of its offset, the units from the offset are an occurrence of the
  query (with \<open>matchCase\<close> the query itself), and its line passed the caller's filter. No more
  matches than the limit are reported.
\<close>

theorem find_matches_located:
  "let r = sourceDocumentMatches canon (sourceDocumentIndex xs) query limit accept matchCase
   in length (fr_matches r) \<le> limit \<and>
      list_all (\<lambda>m. sourceDocumentPosition (sourceDocumentIndex xs) (Some (int (fd_offset m))) =
                      Some \<lparr>p_line = fd_line m, p_column = fd_column m\<rparr> \<and>
                    occurs (if matchCase then (\<lambda>c. c) else canon) query (find_text xs) (fd_offset m) (fd_length m) \<and>
                    (case accept of None \<Rightarrow> True | Some f \<Rightarrow> f (fd_line m)))
        (fr_matches r)"
proof -
  let ?P = "\<lambda>m. sourceDocumentPosition (sourceDocumentIndex xs) (Some (int (fd_offset m))) =
                      Some \<lparr>p_line = fd_line m, p_column = fd_column m\<rparr> \<and>
                    occurs (if matchCase then (\<lambda>c. c) else canon) query (find_text xs) (fd_offset m) (fd_length m) \<and>
                    (case accept of None \<Rightarrow> True | Some f \<Rightarrow> f (fd_line m))"
  have "?P m" if m: "m \<in> set (fr_matches (sourceDocumentMatches canon (sourceDocumentIndex xs) query limit accept matchCase))" for m
  proof -
    obtain i n where p: "m = located (find_text xs) (i, n)" and o: "occurs (if matchCase then (\<lambda>c. c) else canon) query (find_text xs) i n"
      and a: "accepted accept m" using matches_members [OF m] by blast
    have "i \<le> length (find_text xs)" using occurs_bound [OF o] by simp
    from located_position [OF this find_text_def] show ?thesis using p o a by (simp add: located_fields accepted_def split: option.splits)
  qed
  then show ?thesis unfolding Let_def list_all_iff using matches_limit by blast
qed

text \<open>
  C33. For a query that Find accepts, without a filter on the lines, and when the result is not
  marked truncated, every occurrence of the query in the searched text (the first 8 MiB of
  units) begins inside a reported match. An occurrence that overlaps an earlier one is covered
  by it and not listed itself.
\<close>

theorem find_covers_occurrences:
  assumes "searched_query query" "occurs (if matchCase then (\<lambda>c. c) else canon) query (find_text xs) i n"
    "r = sourceDocumentMatches canon (sourceDocumentIndex xs) query limit None matchCase" "\<not> fr_truncated r"
  shows "\<exists>m \<in> set (fr_matches r). fd_offset m \<le> i \<and> i < fd_offset m + fd_length m"
proof -
  obtain j m where jm: "(j, m) \<in> set (literal_matches canon matchCase query (find_text xs))" "j \<le> i" "i < j + m"
    using literal_matches_cover [OF assms(2)] assms(1) by (auto simp: searched_query_def)
  have "located (find_text xs) (j, m) \<in> set (fr_matches r)"
    using assms(3,4) jm(1) by (force simp: matches_value [OF assms(1)] Let_def accepted_def)
  then show ?thesis using jm by (metis located_fields)
qed

theorem find_covers_occurrences_witness:
  "\<exists>m \<in> set (fr_matches (sourceDocumentMatches (\<lambda>c. c) (sourceDocumentIndex (us ''xaba'')) (us ''a'') 5 None True)).
     fd_offset m \<le> 3 \<and> 3 < fd_offset m + fd_length m"
proof (rule find_covers_occurrences [where i = 3 and n = 1 and query = "us ''a''" and matchCase = True and canon = "\<lambda>c. c" and limit = 5, OF _ _ refl])
  have p: "points (us ''xaba'') = points (us ''xab'') @ points (us ''a'') @ []"
    by (simp add: us_def cu_of_def high_surrogate_def low_surrogate_def in_range_def)
  have f: "find_text (us ''xaba'') = us ''xaba''" by (simp add: find_text_def SOURCE_DOCUMENT_LIMIT_def us_def)
  show q: "searched_query (us ''a'')" by (simp add: searched_query_def us_def cu_of_def line_separator_def)
  show "occurs (if True then \<lambda>c. c else (\<lambda>c. c)) (us ''a'') (find_text (us ''xaba'')) 3 1"
    unfolding occurs_def f
    by (rule exI [of _ "points (us ''xab'')"], rule exI [of _ "points (us ''a'')"], rule exI [of _ "[]"], intro conjI, rule p)
       (simp_all only: units_points if_True, simp_all add: us_def)
  show "\<not> fr_truncated (sourceDocumentMatches (\<lambda>c. c) (sourceDocumentIndex (us ''xaba'')) (us ''a'') 5 None True)"
    using q unfolding matches_value [OF q] f
    by (simp add: us_def cu_of_def literal_matches_def Let_def exec_all_hit exec_all_miss exec_all_Nil literal_here_def
        high_surrogate_def low_surrogate_def in_range_def accepted_def comp_def)
qed

end
