(* ===== verification/SourceSearch.thy ===== *)
theory SourceSearch
  imports SourceFind Digits
begin

text \<open>
  Search over every retained source: \<open>sourceSearchText\<close>, \<open>sourceSearchSnippet\<close>,
  \<open>createSourceSearch\<close>, \<open>sourceSearchNotes\<close> and \<open>sourceSearchStatus\<close> of
  \<open>apps/research-ui/source_search.js\<close>. The asynchronous \<open>run\<close> is a state machine: between two
  of its awaits it is one step, and any other run or cancellation may come in between. The
  artifact reader (\<open>read\<close>), the list of files (\<open>list()\<close>) and the case folding table are
  arguments of the steps; the \<open>onChange\<close> callback of the panel does not re-enter the model.
\<close>

section \<open>Limits\<close>

record search_limits =
  fileBytes :: nat
  totalBytes :: nat
  fileMatches :: nat
  totalMatches :: nat
  snippet_before :: nat
  snippet_length :: nat

definition SOURCE_SEARCH_LIMITS :: search_limits where
  "SOURCE_SEARCH_LIMITS =
     \<lparr>fileBytes = 2 * 1024 * 1024, totalBytes = 32 * 1024 * 1024, fileMatches = 100, totalMatches = 1000,
      snippet_before = 12, snippet_length = 120\<rparr>"

section \<open>Matches of one text\<close>

record snippet =
  sn_before :: cus
  sn_match :: cus
  sn_after :: cus
  sn_clippedStart :: bool
  sn_clippedEnd :: bool

text \<open>
  A position outside the document has no excerpt, and reading a field of \<open>null\<close> throws:
  \<open>None\<close>.
\<close>

definition sourceSearchSnippet :: "source_index \<Rightarrow> found \<Rightarrow> nat \<Rightarrow> nat \<Rightarrow> snippet option" where
  "sourceSearchSnippet ix m before maximum =
     (case sourceDocumentExcerpt ix (fd_line m) (Some (int (fd_column m - before))) (maximum + before) of
        None \<Rightarrow> None
      | Some e \<Rightarrow>
          let start = fd_column m - columnStart e;
              stop = min (length (e_text e)) (start + fd_length m);
              head = slice 0 start (e_text e);
              clipped = (0 < columnStart e \<or> before < length head);
              head = (if before < length head then drop (length head - before) head else head);
              tail = slice stop (stop + maximum) (e_text e)
          in Some \<lparr>sn_before = dropWhile is_space head, sn_match = slice start stop (e_text e),
                   sn_after = rev (dropWhile is_space (rev tail)), sn_clippedStart = clipped,
                   sn_clippedEnd = (columnEnd e < fullLength e \<or> stop + maximum < length (e_text e))\<rparr>)"

record text_match =
  tm_line :: nat
  tm_column :: nat
  tm_length :: nat
  tm_snippet :: snippet

record text_result =
  tr_matches :: "text_match list"
  tr_truncated :: bool
  tr_error :: string

definition text_match_of :: "source_index \<Rightarrow> found \<Rightarrow> unit + text_match" where
  "text_match_of ix m =
     (case sourceSearchSnippet ix m (snippet_before SOURCE_SEARCH_LIMITS) (snippet_length SOURCE_SEARCH_LIMITS) of
        None \<Rightarrow> Inl ()
      | Some s \<Rightarrow> Inr \<lparr>tm_line = fd_line m, tm_column = fd_column m, tm_length = fd_length m, tm_snippet = s\<rparr>)"

definition sourceSearchText :: "(nat \<Rightarrow> nat) \<Rightarrow> cus \<Rightarrow> cus \<Rightarrow> bool \<Rightarrow> nat \<Rightarrow> unit + text_result" where
  "sourceSearchText canon xs query matchCase limit =
     (let ix = sourceDocumentIndex xs; r = sourceDocumentMatches canon ix query limit None matchCase
      in if fr_error r \<noteq> '''' then Inr \<lparr>tr_matches = [], tr_truncated = False, tr_error = fr_error r\<rparr>
         else bindE (mapE (text_match_of ix) (fr_matches r)) (\<lambda>ms.
                Inr \<lparr>tr_matches = ms, tr_truncated = fr_truncated r, tr_error = ''''\<rparr>))"

section \<open>The search model\<close>

record search_entry =
  se_name :: cus
  se_byteSize :: nat
  se_binary :: bool

datatype file_state = Searched | BinaryFile | MatchLimit | ByteLimit | ReadFailed

datatype limit_kind = FileLimit | TotalLimit

text \<open>\<open>matchLimit: ''\<close> is \<open>None\<close>.\<close>

record search_file =
  sf_entry :: search_entry
  sf_state :: file_state
  sf_matches :: "text_match list"
  sf_matchLimit :: "limit_kind option"
  sf_partial :: bool
  sf_lossy :: bool
  sf_error :: cus

datatype search_status = Idle | SearchError | Running | Done | Cancelled

record search_model =
  sm_generation :: nat
  sm_query :: cus
  sm_matchCase :: bool
  sm_status :: search_status
  sm_error :: cus
  sm_files :: "search_file list"
  sm_total :: nat
  sm_completed :: nat
  sm_matches :: nat
  sm_bytes :: nat

definition initial_model :: search_model where
  "initial_model =
     \<lparr>sm_generation = 0, sm_query = [], sm_matchCase = False, sm_status = Idle, sm_error = [], sm_files = [],
      sm_total = 0, sm_completed = 0, sm_matches = 0, sm_bytes = 0\<rparr>"

text \<open>
  A suspended \<open>run\<close>: its \<open>token\<close>, \<open>query\<close> and \<open>matchCase\<close>, the entries after the current one, and
  the await it stands at, \<open>read(entry, ...)\<close> or \<open>pause()\<close>. The controller of a run is named by
  its token.
\<close>

datatype await = AwaitRead search_entry | AwaitPause

record suspended_run =
  sr_token :: nat
  sr_query :: cus
  sr_matchCase :: bool
  sr_rest :: "search_entry list"
  sr_await :: await

record search_state =
  ss_model :: search_model
  ss_controller :: "nat option"
  ss_aborted :: "nat list"
  ss_runs :: "suspended_run list"

definition initial_search :: search_state where
  "initial_search = \<lparr>ss_model = initial_model, ss_controller = None, ss_aborted = [], ss_runs = []\<rparr>"

definition search_cancel :: "search_state \<Rightarrow> search_state" where
  "search_cancel s =
     (let m = ss_model s in
      s\<lparr>ss_model := m\<lparr>sm_generation := Suc (sm_generation m),
                      sm_status := (if sm_status m = Running then Cancelled else sm_status m)\<rparr>,
        ss_aborted := (case ss_controller s of None \<Rightarrow> ss_aborted s | Some t \<Rightarrow> t # ss_aborted s),
        ss_controller := None\<rparr>)"

definition new_file :: "search_entry \<Rightarrow> search_file" where
  "new_file e =
     \<lparr>sf_entry = e, sf_state = Searched, sf_matches = [], sf_matchLimit = None, sf_partial = False, sf_lossy = False,
      sf_error = []\<rparr>"

text \<open>\<open>file\<close> is the last element of \<open>model.files\<close> while its run is current.\<close>

definition update_file :: "(search_file \<Rightarrow> search_file) \<Rightarrow> search_model \<Rightarrow> search_model" where
  "update_file f m = m\<lparr>sm_files := butlast (sm_files m) @ [f (last (sm_files m))]\<rparr>"

text \<open>From the head of the loop to the next await, or to the end of the run.\<close>

definition enter_loop :: "search_limits \<Rightarrow> suspended_run \<Rightarrow> search_state \<Rightarrow> search_state" where
  "enter_loop lims r s =
     (let m = ss_model s in
      case sr_rest r of
        [] \<Rightarrow> s\<lparr>ss_model := m\<lparr>sm_status := Done\<rparr>, ss_controller := None\<rparr>
      | e # rest \<Rightarrow>
          let m = m\<lparr>sm_files := sm_files m @ [new_file e]\<rparr>;
              skip = (\<lambda>st. s\<lparr>ss_model := (update_file (\<lambda>f. f\<lparr>sf_state := st\<rparr>) m)\<lparr>sm_completed := Suc (sm_completed m)\<rparr>,
                             ss_runs := ss_runs s @ [r\<lparr>sr_rest := rest, sr_await := AwaitPause\<rparr>]\<rparr>)
          in if se_binary e then skip BinaryFile
             else if totalMatches lims \<le> sm_matches m then skip MatchLimit
             else if totalBytes lims < sm_bytes m + min (se_byteSize e) (fileBytes lims) then skip ByteLimit
             else s\<lparr>ss_model := m, ss_runs := ss_runs s @ [r\<lparr>sr_rest := rest, sr_await := AwaitRead e\<rparr>]\<rparr>)"

text \<open>The refusal is the error of \<open>sourceSearchText('', query)\<close>, which is Find's error.\<close>

definition search_run :: "search_limits \<Rightarrow> cus \<Rightarrow> bool \<Rightarrow> search_entry list \<Rightarrow> search_state \<Rightarrow> search_state" where
  "search_run lims query matchCase entries s =
     (let s = search_cancel s; token = sm_generation (ss_model s);
          m = \<lparr>sm_generation = token, sm_query = query, sm_matchCase = matchCase, sm_status = Running, sm_error = [],
               sm_files = [], sm_total = 0, sm_completed = 0, sm_matches = 0, sm_bytes = 0\<rparr>;
          s = s\<lparr>ss_controller := Some token\<rparr>
      in if query = [] then s\<lparr>ss_model := m\<lparr>sm_status := Idle\<rparr>\<rparr>
         else
           let refused = fr_error (sourceDocumentMatches (\<lambda>c. c) (sourceDocumentIndex []) query (fileMatches SOURCE_SEARCH_LIMITS) None False)
           in if refused \<noteq> '''' then s\<lparr>ss_model := m\<lparr>sm_status := SearchError, sm_error := us refused\<rparr>\<rparr>
              else enter_loop lims \<lparr>sr_token = token, sr_query = query, sr_matchCase = matchCase, sr_rest = entries, sr_await = AwaitPause\<rparr>
                     (s\<lparr>ss_model := m\<lparr>sm_total := length entries\<rparr>\<rparr>))"

record loaded =
  ld_text :: cus
  ld_bytes :: nat
  ld_partial :: bool
  ld_lossy :: bool

text \<open>
  The continuation of \<open>await read(...)\<close>: a file, or the message of the error it failed with. A
  throw of \<open>sourceSearchText\<close> lands in the same handler, after the bytes were counted.
\<close>

definition read_result :: "(nat \<Rightarrow> nat) \<Rightarrow> search_limits \<Rightarrow> suspended_run \<Rightarrow> cus + loaded \<Rightarrow> cus \<Rightarrow> search_model \<Rightarrow> search_model" where
  "read_result canon lims r outcome thrown m =
     (let failed = (\<lambda>message. update_file (\<lambda>f. f\<lparr>sf_state := ReadFailed, sf_error := take 256 message\<rparr>)) in
      case outcome of
        Inl message \<Rightarrow> failed message m
      | Inr ld \<Rightarrow>
          let m = m\<lparr>sm_bytes := sm_bytes m + ld_bytes ld\<rparr>; remaining = totalMatches lims - sm_matches m
          in case sourceSearchText canon (ld_text ld) (sr_query r) (sr_matchCase r) (min (fileMatches lims) remaining) of
               Inl _ \<Rightarrow> failed thrown m
             | Inr t \<Rightarrow>
                 (update_file (\<lambda>f. f\<lparr>sf_matches := tr_matches t, sf_partial := ld_partial ld, sf_lossy := ld_lossy ld,
                    sf_matchLimit := (if tr_truncated t then Some (if remaining < fileMatches lims then TotalLimit else FileLimit)
                                      else sf_matchLimit f)\<rparr>) m)
                 \<lparr>sm_matches := sm_matches m + length (tr_matches t)\<rparr>)"

definition resume :: "(nat \<Rightarrow> nat) \<Rightarrow> search_limits \<Rightarrow> suspended_run \<Rightarrow> cus + loaded \<Rightarrow> cus \<Rightarrow> search_state \<Rightarrow> search_state" where
  "resume canon lims r outcome thrown s =
     (if sr_token r \<noteq> sm_generation (ss_model s) then s
      else case sr_await r of
        AwaitPause \<Rightarrow> enter_loop lims r s
      | AwaitRead e \<Rightarrow>
          let m = read_result canon lims r outcome thrown (ss_model s)
          in s\<lparr>ss_model := m\<lparr>sm_completed := Suc (sm_completed m)\<rparr>, ss_runs := ss_runs s @ [r\<lparr>sr_await := AwaitPause\<rparr>]\<rparr>)"

datatype search_event =
    EvRun cus bool "search_entry list"
  | EvCancel
  | EvResume nat "cus + loaded" cus

text \<open>
  One event. \<open>EvResume i\<close> continues the suspended run \<open>i\<close>, with the outcome of its read when it
  stands at one; other indices do not occur.
\<close>

fun search_step :: "(nat \<Rightarrow> nat) \<Rightarrow> search_limits \<Rightarrow> search_event \<Rightarrow> search_state \<Rightarrow> search_state" where
  "search_step canon lims (EvRun query matchCase entries) s = search_run lims query matchCase entries s"
| "search_step canon lims EvCancel s = search_cancel s"
| "search_step canon lims (EvResume i outcome thrown) s =
     (if i < length (ss_runs s)
      then resume canon lims (ss_runs s ! i) outcome thrown
             (s\<lparr>ss_runs := take i (ss_runs s) @ drop (Suc i) (ss_runs s)\<rparr>)
      else s)"

section \<open>Notes and status\<close>

text \<open>\<open>value.toLocaleString('en-US')\<close> of a natural number.\<close>

function grouped :: "nat \<Rightarrow> string" where
  "grouped n = (if n < 1000 then to_base 10 n else grouped (n div 1000) @ '','' @ padStart 3 CHR ''0'' (to_base 10 (n mod 1000)))"
  by pat_completeness auto
termination by (relation "measure id") auto

declare grouped.simps [simp del]


datatype note_kind = NoteBinary | NoteFailed | NotePartial | NoteLossy | NoteFileLimit | NoteMatchLimit | NoteByteLimit

definition joined :: "cus \<Rightarrow> cus list \<Rightarrow> cus" where
  "joined sep xs = (case xs of [] \<Rightarrow> [] | y # ys \<Rightarrow> y @ concat (map (\<lambda>x. sep @ x) ys))"

definition count_text :: "nat \<Rightarrow> cus" where "count_text n = us (to_base 10 n)"

text \<open>\<open>count\<close>, \<open>names\<close> and the "and n more" that both end with.\<close>

definition note_count :: "search_file list \<Rightarrow> string \<Rightarrow> string \<Rightarrow> cus" where
  "note_count files one many = count_text (length files) @ us '' '' @ us (if length files = 1 then one else many)"

definition first_three :: "(search_file \<Rightarrow> cus) \<Rightarrow> search_file list \<Rightarrow> cus" where
  "first_three f files =
     joined (us '', '') (map f (take 3 files)) @
     (if 3 < length files then us '' and '' @ count_text (length files - 3) @ us '' more'' else [])"

definition note_names :: "search_file list \<Rightarrow> cus" where
  "note_names = first_three (\<lambda>f. se_name (sf_entry f))"

text \<open>\<open>number\<close> is the conversion of a number to text: a quotient need not be whole.\<close>

definition sourceSearchNotes :: "(rat \<Rightarrow> string) \<Rightarrow> search_limits \<Rightarrow> search_model \<Rightarrow> (note_kind \<times> cus) list" where
  "sourceSearchNotes number lims m =
     (let by = (\<lambda>p. filter p (sm_files m));
          mib = (\<lambda>bytes. us (number (of_nat bytes / 1048576)) @ us '' MiB'');
          binary = by (\<lambda>f. sf_state f = BinaryFile); failed = by (\<lambda>f. sf_state f = ReadFailed);
          partial = by (\<lambda>f. sf_state f = Searched \<and> sf_partial f); lossy = by (\<lambda>f. sf_state f = Searched \<and> sf_lossy f);
          capped = by (\<lambda>f. sf_matchLimit f = Some FileLimit); total_files = by (\<lambda>f. sf_matchLimit f = Some TotalLimit);
          unsearched = by (\<lambda>f. sf_state f = MatchLimit); budget = by (\<lambda>f. sf_state f = ByteLimit);
          note = (\<lambda>show_it kind parts. if show_it then [(kind, concat parts)] else [])
      in note (binary \<noteq> []) NoteBinary
           [note_count binary ''binary file'' ''binary files'', us '', not searched: '', note_names binary, us ''.''] @
         note (failed \<noteq> []) NoteFailed
           [note_count failed ''file'' ''files'', us '' failed to load and '', us (if length failed = 1 then ''was'' else ''were''),
            us '' not searched: '', first_three (\<lambda>f. se_name (sf_entry f) @ us '' ('' @ sf_error f @ us '')'') failed,
            us ''. Search again to retry.''] @
         note (partial \<noteq> []) NotePartial
           [note_count partial ''file is'' ''files are'', us '' over the '', mib (fileBytes lims), us '' size cap; only '',
            us (if length partial = 1 then ''its'' else ''their''), us '' first '', mib (fileBytes lims), us '' '',
            us (if length partial = 1 then ''was'' else ''were''), us '' searched: '', note_names partial, us ''.''] @
         note (lossy \<noteq> []) NoteLossy
           [note_count lossy ''file is'' ''files are'', us '' not valid UTF-8 and '', us (if length lossy = 1 then ''was'' else ''were''),
            us '' searched with replacement characters, so a miss there is not proof of absence: '', note_names lossy, us ''.''] @
         note (capped \<noteq> []) NoteFileLimit
           [note_count capped ''file'' ''files'', us '' stopped at '', count_text (fileMatches lims),
            us '' matches; refine the query to see the rest: '', note_names capped, us ''.''] @
         note (total_files \<noteq> [] \<or> unsearched \<noteq> []) NoteMatchLimit
           [us ''Results stopped at '', us (grouped (totalMatches lims)), us '' matches'',
            if unsearched \<noteq> [] then us ''; '' @ note_count unsearched ''file was'' ''files were'' @ us '' not searched'' else [],
            us ''. Refine the query.''] @
         note (budget \<noteq> []) NoteByteLimit
           [note_count budget ''file was'' ''files were'', us '' not searched: this search reached its '', mib (totalBytes lims),
            us '' read budget: '', note_names budget, us ''.''])"

definition sourceSearchStatus :: "search_model \<Rightarrow> cus" where
  "sourceSearchStatus m =
     (let files = (\<lambda>n. count_text n @ us '' '' @ us (if n = 1 then ''file'' else ''files''));
          matches = (\<lambda>n. us (grouped n) @ us '' '' @ us (if n = 1 then ''match'' else ''matches''));
          dot = us '' '' @ [0xB7] @ us '' '';
          searched = length (filter (\<lambda>f. sf_state f = Searched) (sm_files m));
          holding = length (filter (\<lambda>f. sf_matches f \<noteq> []) (sm_files m))
      in if sm_status m = Idle then us ''Literal text in every retained text file. Nothing is read until you search.''
         else if sm_status m = SearchError then sm_error m
         else if sm_total m = 0 then us ''No retained files to search.''
         else if sm_status m = Running
         then us ''Searching'' @ [0x2026] @ us '' '' @ count_text (sm_completed m) @ us '' of '' @ files (sm_total m) @ dot @
              matches (sm_matches m)
         else us ''Searched '' @ count_text searched @ us '' of '' @ files (sm_total m) @ dot @ matches (sm_matches m) @
              (if holding \<noteq> 0 then us '' in '' @ files holding else []) @
              (if sm_matchCase m then dot @ us ''case-sensitive'' else []))"

end
