(* ===== verification/SourceSearchClaims.thy ===== *)
theory SourceSearchClaims
  imports SourceSearch
begin

text \<open>
  What the search over every retained source guarantees: budgets and counters of every
  reachable state, progress of a run, late results of a retired run, and snippets that mark the
  text that was found.
\<close>

section \<open>Reachable states\<close>

text \<open>The reader returns at most the window it was asked for.\<close>

definition read_bounded :: "search_limits \<Rightarrow> search_event \<Rightarrow> search_state \<Rightarrow> bool" where
  "read_bounded lims ev s =
     (case ev of
        EvResume i (Inr ld) thrown \<Rightarrow>
          i < length (ss_runs s) \<longrightarrow>
            (case sr_await (ss_runs s ! i) of AwaitRead e \<Rightarrow> ld_bytes ld \<le> min (se_byteSize e) (fileBytes lims) | AwaitPause \<Rightarrow> True)
      | _ \<Rightarrow> True)"

inductive search_reaches :: "(nat \<Rightarrow> nat) \<Rightarrow> search_limits \<Rightarrow> search_state \<Rightarrow> bool" for canon lims where
  reaches_initial: "search_reaches canon lims initial_search"
| reaches_step: "search_reaches canon lims s \<Longrightarrow> read_bounded lims ev s \<Longrightarrow> search_reaches canon lims (search_step canon lims ev s)"

text \<open>The counters of the model while its run stands at an await.\<close>

definition run_counts :: "search_limits \<Rightarrow> search_model \<Rightarrow> suspended_run \<Rightarrow> bool" where
  "run_counts lims m r =
     (case sr_await r of
        AwaitPause \<Rightarrow> length (sm_files m) = sm_completed m \<and> sm_total m = sm_completed m + length (sr_rest r)
      | AwaitRead e \<Rightarrow>
          length (sm_files m) = Suc (sm_completed m) \<and> sm_total m = Suc (sm_completed m) + length (sr_rest r) \<and>
          last (sm_files m) = new_file e \<and>
          sm_bytes m + min (se_byteSize e) (fileBytes lims) \<le> totalBytes lims)"

definition counters_true :: "search_limits \<Rightarrow> search_model \<Rightarrow> bool" where
  "counters_true lims m =
     (sm_matches m = sum_list (map (\<lambda>f. length (sf_matches f)) (sm_files m)) \<and> sm_matches m \<le> totalMatches lims \<and>
      list_all (\<lambda>f. length (sf_matches f) \<le> fileMatches lims) (sm_files m) \<and>
      sm_bytes m \<le> totalBytes lims \<and> sm_completed m \<le> sm_total m \<and>
      (sm_status m = Done \<longrightarrow> sm_completed m = sm_total m \<and> length (sm_files m) = sm_total m))"

text \<open>
  Every suspended run but the current one is stale, and there is a current one exactly while
  the model is running.
\<close>

definition runs_ok :: "search_limits \<Rightarrow> search_model \<Rightarrow> suspended_run list \<Rightarrow> bool" where
  "runs_ok lims m rs =
     (list_all (\<lambda>r. sr_token r \<le> sm_generation m) rs \<and>
      (if sm_status m = Running then \<exists>r. filter (\<lambda>r. sr_token r = sm_generation m) rs = [r] \<and> run_counts lims m r
       else filter (\<lambda>r. sr_token r = sm_generation m) rs = []))"

definition search_ok :: "search_limits \<Rightarrow> search_state \<Rightarrow> bool" where
  "search_ok lims s = (counters_true lims (ss_model s) \<and> runs_ok lims (ss_model s) (ss_runs s))"

lemma text_limit:
  "sourceSearchText canon xs query mc limit = Inr t \<Longrightarrow> length (tr_matches t) \<le> limit"
  by (auto simp: sourceSearchText_def Let_def result_simps dest!: mapE_length split: if_splits
      intro: order_trans [OF _ matches_limit] eq_imp_le)

lemma cancel_ok: "search_ok lims s \<Longrightarrow> search_ok lims (search_cancel s)"
proof -
  assume ok: "search_ok lims s"
  have stale: "filter (\<lambda>r. sr_token r = Suc (sm_generation (ss_model s))) (ss_runs s) = []"
    using ok by (auto simp: search_ok_def runs_ok_def filter_empty_conv list_all_iff split: if_splits)
  have "list_all (\<lambda>r. sr_token r \<le> Suc (sm_generation (ss_model s))) (ss_runs s)"
    using ok by (auto simp: search_ok_def runs_ok_def list_all_iff)
  then show ?thesis using ok stale by (auto simp: search_ok_def search_cancel_def Let_def counters_true_def runs_ok_def)
qed

lemma enter_ok:
  assumes "counters_true lims (ss_model s)" "sm_status (ss_model s) = Running" "run_counts lims (ss_model s) r" "sr_await r = AwaitPause"
    "sr_token r = sm_generation (ss_model s)" "list_all (\<lambda>r. sr_token r \<le> sm_generation (ss_model s)) (ss_runs s)"
    "filter (\<lambda>r. sr_token r = sm_generation (ss_model s)) (ss_runs s) = []"
  shows "search_ok lims (enter_loop lims r s)"
proof (cases "sr_rest r")
  case Nil
  then show ?thesis using assms by (simp add: enter_loop_def Let_def search_ok_def counters_true_def runs_ok_def run_counts_def)
next
  case (Cons e rest)
  then show ?thesis using assms
    by (simp add: enter_loop_def Let_def search_ok_def counters_true_def runs_ok_def run_counts_def update_file_def new_file_def)
qed

lemma run_ok:
  assumes ok: "search_ok lims s"
  shows "search_ok lims (search_run lims query mc entries s)"
proof -
  define c where "c = search_cancel s"
  have c: "search_ok lims c" using cancel_ok [OF ok] by (simp add: c_def)
  have "sm_status (ss_model c) \<noteq> Running" by (simp add: c_def search_cancel_def Let_def)
  then have runs: "list_all (\<lambda>r. sr_token r \<le> sm_generation (ss_model c)) (ss_runs c)"
    "filter (\<lambda>r. sr_token r = sm_generation (ss_model c)) (ss_runs c) = []"
    using c by (simp_all add: search_ok_def runs_ok_def)
  show ?thesis
    unfolding search_run_def Let_def c_def [symmetric]
  proof (split if_split, intro conjI impI, goal_cases)
    case 2
    show ?case
      by (split if_split, intro conjI impI)
        (simp add: runs counters_true_def search_ok_def runs_ok_def, rule enter_ok, simp_all add: runs run_counts_def counters_true_def)
  qed (simp add: runs counters_true_def search_ok_def runs_ok_def)
qed

lemma read_result_fields:
  "sm_generation (read_result canon lims r out thrown m) = sm_generation m"
  "sm_status (read_result canon lims r out thrown m) = sm_status m"
  "sm_completed (read_result canon lims r out thrown m) = sm_completed m"
  "sm_total (read_result canon lims r out thrown m) = sm_total m"
  "sm_files m \<noteq> [] \<Longrightarrow> length (sm_files (read_result canon lims r out thrown m)) = length (sm_files m)"
  by (auto simp: read_result_def update_file_def Let_def split: sum.splits)

lemma read_result_counted:
  assumes c: "counters_true lims m" and files: "sm_files m \<noteq> []" "last (sm_files m) = new_file e"
    and room: "sm_bytes m + min (se_byteSize e) (fileBytes lims) \<le> totalBytes lims"
    and out: "\<And>ld. out = Inr ld \<Longrightarrow> ld_bytes ld \<le> min (se_byteSize e) (fileBytes lims)"
    and running: "sm_status m = Running"
  shows "counters_true lims (read_result canon lims r out thrown m)"
proof -
  obtain fs where fs: "sm_files m = fs @ [new_file e]" using files by (metis append_butlast_last_id)
  have z: "sf_matches (new_file e) = []" by (simp add: new_file_def)
  show ?thesis
  proof (cases out)
    case (Inl message)
    then show ?thesis using c running z by (simp add: read_result_def counters_true_def update_file_def fs)
  next
    case (Inr ld)
    have b: "sm_bytes m + ld_bytes ld \<le> totalBytes lims" using out [OF Inr] room by linarith
    show ?thesis
    proof (cases "sourceSearchText canon (ld_text ld) (sr_query r) (sr_matchCase r) (min (fileMatches lims) (totalMatches lims - sm_matches m))")
      case Inl': (Inl u)
      then show ?thesis using c running z b by (simp add: read_result_def counters_true_def update_file_def fs Inr Let_def)
    next
      case Inr': (Inr t)
      have "length (tr_matches t) \<le> min (fileMatches lims) (totalMatches lims - sm_matches m)" by (rule text_limit [OF Inr'])
      then have "length (tr_matches t) \<le> fileMatches lims" "sm_matches m + length (tr_matches t) \<le> totalMatches lims"
        using c by (auto simp: counters_true_def)
      then show ?thesis using Inr' c running z b by (simp add: read_result_def counters_true_def update_file_def fs Inr Let_def)
    qed
  qed
qed

lemma resume_ok:
  assumes ok: "search_ok lims s" and i: "i < length (ss_runs s)" and b: "read_bounded lims (EvResume i out thrown) s"
  shows "search_ok lims (search_step canon lims (EvResume i out thrown) s)"
proof -
  let ?r = "ss_runs s ! i" and ?m = "ss_model s"
  let ?rest = "take i (ss_runs s) @ drop (Suc i) (ss_runs s)"
  let ?cur = "\<lambda>r. sr_token r = sm_generation ?m"
  have split: "ss_runs s = take i (ss_runs s) @ ?r # drop (Suc i) (ss_runs s)" by (rule id_take_nth_drop [OF i])
  have all: "list_all (\<lambda>r. sr_token r \<le> sm_generation ?m) (take i (ss_runs s) @ ?r # drop (Suc i) (ss_runs s))"
    and c: "counters_true lims ?m" using ok split by (simp_all add: search_ok_def runs_ok_def)
  then have rest: "list_all (\<lambda>r. sr_token r \<le> sm_generation ?m) ?rest" by simp
  show ?thesis
  proof (cases "?cur ?r")
    case False
    then have "filter ?cur ?rest = filter ?cur (ss_runs s)" by (subst (2) split) simp
    then show ?thesis using ok i False rest by (simp add: resume_def search_ok_def runs_ok_def)
  next
    case True
    have run: "sm_status ?m = Running"
    proof (rule ccontr)
      assume "sm_status ?m \<noteq> Running"
      then have "filter ?cur (ss_runs s) = []" using ok by (simp add: search_ok_def runs_ok_def)
      then show False using True i by (auto simp: filter_empty_conv)
    qed
    then obtain r where r: "filter ?cur (ss_runs s) = [r]" "run_counts lims ?m r"
      using ok by (auto simp: search_ok_def runs_ok_def)
    have "filter ?cur (take i (ss_runs s)) @ ?r # filter ?cur (drop (Suc i) (ss_runs s)) = [r]"
      using r(1) True by (subst (asm) split) simp
    then have one: "?r = r" "filter ?cur ?rest = []" by (auto simp: append_eq_Cons_conv)
    let ?s = "s\<lparr>ss_runs := ?rest\<rparr>"
    show ?thesis
    proof (cases "sr_await ?r")
      case AwaitPause
      have "search_ok lims (enter_loop lims ?r ?s)"
        by (rule enter_ok) (use c run r one AwaitPause True rest in simp_all)
      then show ?thesis using i True AwaitPause by (simp add: resume_def)
    next
      case (AwaitRead e)
      let ?n = "read_result canon lims ?r out thrown ?m"
      have rc: "length (sm_files ?m) = Suc (sm_completed ?m)" "sm_total ?m = Suc (sm_completed ?m) + length (sr_rest ?r)"
        "last (sm_files ?m) = new_file e" "sm_bytes ?m + min (se_byteSize e) (fileBytes lims) \<le> totalBytes lims"
        using r one AwaitRead by (simp_all add: run_counts_def)
      then have ne: "sm_files ?m \<noteq> []" by auto
      have n: "counters_true lims ?n"
        by (rule read_result_counted [OF c ne rc(3,4) _ run]) (use b i AwaitRead in \<open>simp add: read_bounded_def\<close>)
      have step: "search_step canon lims (EvResume i out thrown) s =
        s\<lparr>ss_model := ?n\<lparr>sm_completed := Suc (sm_completed ?n)\<rparr>, ss_runs := ?rest @ [?r\<lparr>sr_await := AwaitPause\<rparr>]\<rparr>"
        using i True AwaitRead by (simp add: resume_def Let_def)
      have "counters_true lims (?n\<lparr>sm_completed := Suc (sm_completed ?n)\<rparr>)"
        using n rc run by (simp add: counters_true_def read_result_fields)
      moreover have "run_counts lims (?n\<lparr>sm_completed := Suc (sm_completed ?n)\<rparr>) (?r\<lparr>sr_await := AwaitPause\<rparr>)"
        using rc ne by (simp add: run_counts_def read_result_fields)
      moreover have "filter ?cur (?rest @ [?r\<lparr>sr_await := AwaitPause\<rparr>]) = [?r\<lparr>sr_await := AwaitPause\<rparr>]"
        using one(2) True by simp
      ultimately show ?thesis
        unfolding step search_ok_def runs_ok_def using run rest True by (simp add: read_result_fields)
    qed
  qed
qed

lemma search_step_ok: "search_ok lims s \<Longrightarrow> read_bounded lims ev s \<Longrightarrow> search_ok lims (search_step canon lims ev s)"
proof (cases ev)
  case (EvResume i out thrown)
  assume "search_ok lims s" "read_bounded lims ev s"
  then show ?thesis using resume_ok EvResume by (cases "i < length (ss_runs s)") auto
qed (auto simp: run_ok cancel_ok)

lemma reaches_ok: "search_reaches canon lims s \<Longrightarrow> search_ok lims s"
proof (induction rule: search_reaches.induct)
  case reaches_initial
  show ?case by (simp add: search_ok_def counters_true_def runs_ok_def initial_search_def initial_model_def)
qed (rule search_step_ok)

section \<open>The bytes of a search\<close>

text \<open>
  The sizes of the reads whose results the current search was given: none when a search starts,
  and one more when a read of the current run, not of a retired one, returns a file.
\<close>

definition given_after :: "search_event \<Rightarrow> search_state \<Rightarrow> nat list \<Rightarrow> nat list" where
  "given_after ev s given =
     (case ev of
        EvRun _ _ _ \<Rightarrow> []
      | EvResume i (Inr ld) _ \<Rightarrow>
          if i < length (ss_runs s) \<and> sr_token (ss_runs s ! i) = sm_generation (ss_model s) \<and>
             sr_await (ss_runs s ! i) \<noteq> AwaitPause
          then given @ [ld_bytes ld] else given
      | _ \<Rightarrow> given)"

inductive search_reads :: "(nat \<Rightarrow> nat) \<Rightarrow> search_limits \<Rightarrow> search_state \<Rightarrow> nat list \<Rightarrow> bool" for canon lims where
  reads_initial: "search_reads canon lims initial_search []"
| reads_step: "search_reads canon lims s given \<Longrightarrow> read_bounded lims ev s \<Longrightarrow>
     search_reads canon lims (search_step canon lims ev s) (given_after ev s given)"

lemma reads_reaches: "search_reads canon lims s given \<Longrightarrow> search_reaches canon lims s"
  by (induction rule: search_reads.induct) (auto intro: search_reaches.intros)

text \<open>Every reachable state has such a list, so nothing is left out by asking for one.\<close>

lemma reaches_reads: "search_reaches canon lims s \<Longrightarrow> \<exists>given. search_reads canon lims s given"
  by (induction rule: search_reaches.induct) (blast intro: search_reads.intros)+

lemma enter_bytes: "sm_bytes (ss_model (enter_loop lims r s)) = sm_bytes (ss_model s)"
  by (simp add: enter_loop_def Let_def update_file_def split: list.split)

lemma read_result_bytes:
  "sm_bytes (read_result canon lims r out thrown m) = sm_bytes m + (case out of Inl _ \<Rightarrow> 0 | Inr ld \<Rightarrow> ld_bytes ld)"
  by (auto simp: read_result_def update_file_def Let_def split: sum.split)

lemma run_bytes: "sm_bytes (ss_model (search_run lims query mc entries s)) = 0"
  by (simp add: search_run_def Let_def enter_bytes)

lemma step_bytes:
  "sm_bytes (ss_model s) = sum_list given \<Longrightarrow>
     sm_bytes (ss_model (search_step canon lims ev s)) = sum_list (given_after ev s given)"
proof (cases ev)
  case (EvResume i out thrown)
  assume "sm_bytes (ss_model s) = sum_list given"
  then show ?thesis
    by (cases "sr_await (ss_runs s ! i)"; cases out)
      (simp_all add: EvResume given_after_def resume_def Let_def enter_bytes read_result_bytes)
qed (simp_all add: given_after_def run_bytes search_cancel_def Let_def)

lemma reads_bytes: "search_reads canon lims s given \<Longrightarrow> sm_bytes (ss_model s) = sum_list given"
proof (induction rule: search_reads.induct)
  case reads_initial
  show ?case by (simp add: initial_search_def initial_model_def)
qed (rule step_bytes)

section \<open>Progress\<close>

text \<open>Continuing the newest suspended run again and again, whatever its reads give.\<close>

definition drive :: "(nat \<Rightarrow> nat) \<Rightarrow> search_limits \<Rightarrow> ((cus + loaded) \<times> cus) list \<Rightarrow> search_state \<Rightarrow> search_state" where
  "drive canon lims outs s =
     foldl (\<lambda>s (out, thrown). search_step canon lims (EvResume (length (ss_runs s) - 1) out thrown) s) s outs"

fun weight :: "suspended_run \<Rightarrow> nat" where
  "weight r = (case sr_await r of AwaitPause \<Rightarrow> 2 * length (sr_rest r) + 1 | AwaitRead e \<Rightarrow> 2 * length (sr_rest r) + 2)"

text \<open>A run over \<open>entries\<close> that ends after at most \<open>n\<close> more continuations.\<close>

definition driven :: "search_entry list \<Rightarrow> nat \<Rightarrow> search_state \<Rightarrow> bool" where
  "driven entries n s =
     (let m = ss_model s; stale = list_all (\<lambda>r. sr_token r \<noteq> sm_generation m) in
      if sm_status m = Done
      then stale (ss_runs s) \<and> map sf_entry (sm_files m) = entries \<and> sm_completed m = length entries
      else sm_status m = Running \<and>
        (\<exists>rs r. ss_runs s = rs @ [r] \<and> stale rs \<and> sr_token r = sm_generation m \<and> weight r \<le> n \<and>
           map sf_entry (sm_files m) @ sr_rest r = entries \<and>
           length (sm_files m) = sm_completed m + (case sr_await r of AwaitPause \<Rightarrow> 0 | AwaitRead e \<Rightarrow> 1)))"

lemma stale_resume:
  "i < length (ss_runs s) \<Longrightarrow> list_all (\<lambda>r. sr_token r \<noteq> sm_generation (ss_model s)) (ss_runs s) \<Longrightarrow>
     search_step canon lims (EvResume i out thrown) s = s\<lparr>ss_runs := take i (ss_runs s) @ drop (Suc i) (ss_runs s)\<rparr>"
  by (simp add: resume_def list_all_length)

lemma stale_removed: "list_all P xs \<Longrightarrow> list_all P (take i xs @ drop (Suc i) xs)"
  by (auto simp: list_all_iff dest: in_set_takeD in_set_dropD)

lemma enter_driven:
  assumes "sm_status (ss_model s) = Running" "list_all (\<lambda>r. sr_token r \<noteq> sm_generation (ss_model s)) (ss_runs s)"
    "sr_token r = sm_generation (ss_model s)" "map sf_entry (sm_files (ss_model s)) @ sr_rest r = entries"
    "length (sm_files (ss_model s)) = sm_completed (ss_model s)" "2 * length (sr_rest r) \<le> n"
  shows "driven entries n (enter_loop lims r s)"
proof (cases "sr_rest r")
  case Nil
  then show ?thesis using assms by (auto simp: enter_loop_def Let_def driven_def)
next
  case (Cons e rest)
  then show ?thesis using assms
    by (simp add: enter_loop_def Let_def driven_def update_file_def new_file_def)
qed

lemma read_result_entries:
  "sm_files m \<noteq> [] \<Longrightarrow> map sf_entry (sm_files (read_result canon lims r out thrown m)) = map sf_entry (sm_files m)"
proof -
  assume ne: "sm_files m \<noteq> []"
  have "map sf_entry (butlast (sm_files m)) @ [sf_entry (last (sm_files m))] = map sf_entry (sm_files m)"
    using ne by (metis append_butlast_last_id list.simps(8,9) map_append)
  then show ?thesis by (auto simp: read_result_def update_file_def Let_def split: sum.splits)
qed

lemma drive_step:
  assumes "driven entries n s"
  shows "driven entries (n - 1) (search_step canon lims (EvResume (length (ss_runs s) - 1) out thrown) s)"
proof (cases "sm_status (ss_model s) = Done")
  case True
  show ?thesis
  proof (cases "ss_runs s = []")
    case False
    then show ?thesis using assms True stale_resume [of "length (ss_runs s) - 1" s canon lims out thrown]
        stale_removed [of "\<lambda>r. sr_token r \<noteq> sm_generation (ss_model s)" "ss_runs s" "length (ss_runs s) - 1"]
      by (simp only: driven_def Let_def) simp
  qed (use assms True in \<open>simp add: driven_def Let_def\<close>)
next
  case False
  then obtain rs r where r: "ss_runs s = rs @ [r]" "list_all (\<lambda>r. sr_token r \<noteq> sm_generation (ss_model s)) rs"
      "sr_token r = sm_generation (ss_model s)" "weight r \<le> n" "map sf_entry (sm_files (ss_model s)) @ sr_rest r = entries"
      "length (sm_files (ss_model s)) = sm_completed (ss_model s) + (case sr_await r of AwaitPause \<Rightarrow> 0 | AwaitRead e \<Rightarrow> 1)"
    and run: "sm_status (ss_model s) = Running"
    using assms by (auto simp: driven_def Let_def)
  have step: "search_step canon lims (EvResume (length (ss_runs s) - 1) out thrown) s = resume canon lims r out thrown (s\<lparr>ss_runs := rs\<rparr>)"
    using r(1) by simp
  show ?thesis
  proof (cases "sr_await r")
    case AwaitPause
    have "driven entries (n - 1) (enter_loop lims r (s\<lparr>ss_runs := rs\<rparr>))"
      by (rule enter_driven) (use r run AwaitPause in simp_all)
    then show ?thesis unfolding step using r(3) AwaitPause by (simp add: resume_def)
  next
    case (AwaitRead e)
    then have ne: "sm_files (ss_model s) \<noteq> []" using r(6) by auto
    show ?thesis unfolding step using r run AwaitRead ne
      by (simp add: resume_def Let_def driven_def read_result_fields read_result_entries)
  qed
qed

lemma drive_driven: "driven entries n s \<Longrightarrow> driven entries (n - length outs) (drive canon lims outs s)"
proof (induction outs arbitrary: n s)
  case (Cons o' outs)
  obtain out thrown where o: "o' = (out, thrown)" by (cases o')
  have "driven entries (n - 1 - length outs)
      (drive canon lims outs (search_step canon lims (EvResume (length (ss_runs s) - 1) out thrown) s))"
    by (rule Cons(1) [OF drive_step [OF Cons(2)]])
  then show ?case by (simp add: drive_def o)
qed (simp add: drive_def)

lemma run_driven:
  assumes "search_ok lims s" "searched_query query"
  shows "driven entries (2 * length entries) (search_run lims query mc entries s)"
proof -
  define c where "c = search_cancel s"
  have c: "search_ok lims c" using cancel_ok [OF assms(1)] by (simp add: c_def)
  have "sm_status (ss_model c) \<noteq> Running" by (simp add: c_def search_cancel_def Let_def)
  then have runs: "list_all (\<lambda>r. sr_token r \<noteq> sm_generation (ss_model c)) (ss_runs c)"
    using c by (auto simp: search_ok_def runs_ok_def filter_empty_conv list_all_iff)
  have q: "query \<noteq> []" "fr_error (sourceDocumentMatches (\<lambda>c. c) (sourceDocumentIndex []) query (fileMatches SOURCE_SEARCH_LIMITS) None False) = ''''"
    using assms(2) matches_value [OF assms(2), of "\<lambda>c. c" "[]"] by (simp_all add: searched_query_def Let_def)
  show ?thesis
    unfolding search_run_def Let_def c_def [symmetric] q(2)
    by (simp only: q(1) if_False simp_thms, rule enter_driven) (simp_all add: runs)
qed

section \<open>Late results\<close>

definition is_resume :: "search_event \<Rightarrow> bool" where
  "is_resume ev = (case ev of EvResume _ _ _ \<Rightarrow> True | _ \<Rightarrow> False)"

lemma stale_resumes:
  "list_all is_resume evs \<Longrightarrow> list_all (\<lambda>r. sr_token r \<noteq> sm_generation (ss_model s)) (ss_runs s) \<Longrightarrow>
     ss_model (foldl (\<lambda>s ev. search_step canon lims ev s) s evs) = ss_model s"
proof (induction evs arbitrary: s)
  case (Cons ev evs)
  obtain i out thrown where ev: "ev = EvResume i out thrown" using Cons(2) by (cases ev) (auto simp: is_resume_def)
  show ?case
  proof (cases "i < length (ss_runs s)")
    case True
    then show ?thesis using Cons stale_resume [OF True Cons(3)] stale_removed [OF Cons(3), of i] by (simp add: ev)
  next
    case False
    then show ?thesis using Cons by (simp add: ev)
  qed
qed simp

lemma cancel_stale:
  assumes "search_ok lims s"
  shows "list_all (\<lambda>r. sr_token r \<noteq> sm_generation (ss_model (search_cancel s))) (ss_runs (search_cancel s))"
  using assms by (auto simp: search_cancel_def search_ok_def runs_ok_def Let_def list_all_iff)

section \<open>Snippets\<close>

lemma excerpt_columns:
  assumes "sourceDocumentLine (sourceDocumentIndex xs) (Some (int l)) = Some b"
  obtains e where "sourceDocumentExcerpt (sourceDocumentIndex xs) l column maximum = Some e"
    "columnStart e \<le> clamp (b_length b) column" "columnEnd e \<le> b_length b"
    "columnEnd e = b_length b \<or> clamp (b_length b) column + maximum \<le> Suc (columnEnd e) + maximum div 4"
    "e_text e = slice (b_start b + columnStart e) (b_start b + columnEnd e) xs" "fullLength e = b_length b"
proof -
  define n where "n = b_length b"
  define r where "r = clamp n column"
  note n_r_def = n_def r_def
  define low where "low = (\<lambda>col. at_is xs (b_start b + col) low_surrogate)"
  define start where "start = min (n - maximum) (r - maximum div 4)"
  define stp where "stp = min n (start + maximum)"
  define start' where "start' = (if start \<noteq> 0 \<and> low start then start - 1 else start)"
  define stp' where "stp' = (if stp < n \<and> low stp then stp - 1 else stp)"
  define e where "e = \<lparr>e_line = l, e_offset = b_start b, columnStart = start', columnEnd = stp', fullLength = n,
      e_text = slice (b_start b + start') (b_start b + stp') xs\<rparr>"
  have "sourceDocumentExcerpt (sourceDocumentIndex xs) l column maximum = Some e"
    unfolding sourceDocumentExcerpt_def assms e_def start'_def stp'_def stp_def start_def low_def n_r_def
    by (simp only: option.case index_fields Let_def)
  moreover have "start' \<le> start" "stp' \<le> stp" by (simp_all add: start'_def stp'_def)
  moreover have "start \<le> r" "stp \<le> n" by (simp_all add: start_def stp_def)
  moreover have "stp' = n \<or> r + maximum \<le> Suc stp' + maximum div 4"
  proof (cases "stp < n")
    case True
    then have "stp = start + maximum" "start = r - maximum div 4" by (auto simp: stp_def start_def min_def split: if_splits)
    moreover have "stp \<le> Suc stp'" by (auto simp: stp'_def)
    ultimately show ?thesis by linarith
  next
    case False
    then show ?thesis using \<open>stp \<le> n\<close> by (simp add: stp'_def)
  qed
  ultimately show thesis by (intro that [of e]) (simp_all add: e_def n_r_def)
qed

lemma points_has_unit:
  "c \<in> set xs \<Longrightarrow> \<not> high_surrogate c \<Longrightarrow> \<not> low_surrogate c \<Longrightarrow> unat c \<in> fst ` set (points xs)"
  by (induction xs rule: points.induct) auto

lemma unit_of_point:
  "p \<in> fst ` set (points xs) \<Longrightarrow> p < 65536 \<Longrightarrow> \<exists>c \<in> set xs. unat c = p"
  by (induction xs rule: points.induct) (auto simp: pair_value_def split: if_splits)

text \<open>
  What the simple case folding of the language does with a line feed: no other character folds
  to what it folds to.
\<close>

definition folds_newline_alone :: "(nat \<Rightarrow> nat) \<Rightarrow> bool" where
  "folds_newline_alone f = (\<forall>p. f p = f (unat newline) \<longrightarrow> p = unat newline)"

lemma folds_identity [simp]: "folds_newline_alone (\<lambda>c. c)"
  by (simp add: folds_newline_alone_def)

lemma occurs_on_line:
  assumes o: "occurs f query xs i n" and f: "folds_newline_alone f" and q: "newline \<notin> set query"
  shows "newline \<notin> set (slice i (i + n) xs)"
proof
  assume nl: "newline \<in> set (slice i (i + n) xs)"
  obtain as bs cs where p: "points xs = as @ bs @ cs" "i = units as" "n = units bs"
    and m: "map (\<lambda>p. f (fst p)) bs = map (\<lambda>p. f (fst p)) (points query)" using o by (auto simp: occurs_def)
  have "points (drop i xs) = bs @ cs" using points_split [OF p(1)] p(2) by simp
  then have "points (slice i (i + n) xs) = bs" using points_split [of "drop i xs" bs cs] p(3) by (simp add: slice_def)
  moreover have "\<not> high_surrogate newline" "\<not> low_surrogate newline"
    by (simp_all add: newline_def high_surrogate_def low_surrogate_def in_range_def)
  ultimately have "unat newline \<in> fst ` set bs" using points_has_unit [OF nl] by metis
  then have "f (unat newline) \<in> set (map (\<lambda>p. f (fst p)) bs)" by force
  then obtain p where "p \<in> fst ` set (points query)" "f p = f (unat newline)" unfolding m by force
  then have "unat newline \<in> fst ` set (points query)" using f by (metis folds_newline_alone_def)
  then have "\<exists>c \<in> set query. unat c = unat newline" by (rule unit_of_point) (simp add: newline_def)
  then obtain c where "c \<in> set query" "c = newline" using word_unat_eq_iff by blast
  then show False using q by simp
qed
lemma match_line:
  assumes "m \<in> set (fr_matches (sourceDocumentMatches canon (sourceDocumentIndex xs) query limit accept mc))"
  obtains b where "sourceDocumentLine (sourceDocumentIndex xs) (Some (int (fd_line m))) = Some b"
    "fd_offset m = b_start b + fd_column m" "fd_column m \<le> b_length b"
    "folds_newline_alone (if mc then (\<lambda>c. c) else canon) \<Longrightarrow> fd_column m + fd_length m \<le> b_length b"
    "b_start b + b_length b \<le> length xs"
proof -
  let ?t = "find_text xs"
  obtain i n where p: "m = located ?t (i, n)" and o: "occurs (if mc then (\<lambda>c. c) else canon) query ?t i n"
    using matches_members [OF assms] by blast
  have i: "i + n \<le> doc_length xs" using occurs_bound [OF o] by (simp add: length_find_text)
  have "searched_query query" using assms matches_none by fastforce
  then have nl: "newline \<notin> set query"
    by (auto simp: searched_query_def list_ex_iff line_separator_def newline_def)
  have off: "fd_offset m = i" "fd_length m = n" using p by (simp_all add: located_fields)
  define k where "k = line_of xs i"
  have "sourceDocumentPosition (sourceDocumentIndex xs) (Some (int i)) = Some \<lparr>p_line = fd_line m, p_column = fd_column m\<rparr>"
    using located_position [of i ?t xs n] p i by (simp add: find_text_def located_fields)
  then have pos: "fd_line m = k" "fd_column m = i - doc_starts xs ! k"
    using position_line [of i xs] i by (simp_all add: k_def)
  have start: "doc_starts xs ! k \<le> i" unfolding k_def by (rule line_at_start)
  obtain stop where st: "sourceDocumentLine (sourceDocumentIndex xs) (Some (int k)) =
       Some \<lparr>b_start = doc_starts xs ! k, b_end = stop, b_length = stop - doc_starts xs ! k\<rparr>"
    "doc_starts xs ! k \<le> stop" "stop \<le> doc_length xs" "stop = length xs \<or> stop = SOURCE_DOCUMENT_LIMIT \<or> xs ! stop = newline"
    using line_bounds_spec [OF line_at_less [of xs "doc_length xs" i, folded k_def]] by metis
  have before: "xs ! j \<noteq> newline" if "doc_starts xs ! k \<le> j" "j < i" for j
  proof
    assume nl: "xs ! j = newline"
    have "length (takeWhile (\<lambda>c. c \<noteq> newline) (rev (take i xs))) = i - doc_starts xs ! k"
      using line_at_column [of i "doc_length xs" xs] i by (simp add: k_def)
    moreover have len: "i \<le> length xs" using i by simp
    ultimately have lt: "i - 1 - j < length (takeWhile (\<lambda>c. c \<noteq> newline) (rev (take i xs)))" using that by simp
    have "rev (take i xs) ! (i - 1 - j) \<noteq> newline"
      using nth_mem [OF lt] takeWhile_nth [OF lt] by (auto dest: set_takeWhileD)
    then show False using nl that len by (simp add: rev_nth)
  qed
  have le: "i \<le> stop"
  proof (rule ccontr)
    assume "\<not> i \<le> stop"
    then have "xs ! stop = newline" using st(3,4) i by auto
    then show False using before [of stop] st(2) \<open>\<not> i \<le> stop\<close> by simp
  qed
  have same: "slice i (i + n) ?t = slice i (i + n) xs" using i by (simp add: slice_def find_text_def drop_take min_def)
  have fits: "i + n \<le> stop" if f: "folds_newline_alone (if mc then (\<lambda>c. c) else canon)"
  proof (rule ccontr)
    assume no: "\<not> i + n \<le> stop"
    then have nl': "xs ! stop = newline" using st(3,4) i by auto
    have len: "i + n \<le> length xs" using i by simp
    then have "slice i (i + n) xs ! (stop - i) = newline" using slice_nth [of i "stop - i" "i + n" xs] le no nl' by simp
    moreover have "stop - i < length (slice i (i + n) xs)" using le no len by (simp add: length_slice)
    ultimately have "newline \<in> set (slice i (i + n) xs)" by (metis nth_mem)
    then show False using occurs_on_line [OF o f nl, unfolded same] by blast
  qed
  have "stop \<le> length xs" using st(3) by simp
  then show thesis by (intro that [OF st(1) [folded pos(1)]]) (use off pos start le fits in auto)
qed

lemma snippet_room:
  "c \<le> x + b \<Longrightarrow> x + (m + b) \<le> Suc e + (m + b) div 4 \<Longrightarrow> 4 * Suc b \<le> m \<Longrightarrow> c + m div 2 \<le> (e :: nat)"
proof -
  assume "c \<le> x + b" "x + (m + b) \<le> Suc e + (m + b) div 4" "4 * Suc b \<le> m"
  moreover from this(3) have "4 + 4 * b \<le> m" by simp
  moreover have "4 * ((m + b) div 4) \<le> m + b" "2 * (m div 2) \<le> m" by simp_all
  ultimately show ?thesis by linarith
qed

lemma snippet_marks:
  assumes m: "m \<in> set (fr_matches (sourceDocumentMatches canon (sourceDocumentIndex xs) query limit accept mc))"
    and n: "4 * Suc before \<le> maximum"
  obtains s where "sourceSearchSnippet (sourceDocumentIndex xs) m before maximum = Some s"
    "prefix (sn_match s) (slice (fd_offset m) (fd_offset m + fd_length m) xs)"
    "folds_newline_alone (if mc then (\<lambda>c. c) else canon) \<Longrightarrow> min (fd_length m) (maximum div 2) \<le> length (sn_match s)"
proof -
  obtain b where b: "sourceDocumentLine (sourceDocumentIndex xs) (Some (int (fd_line m))) = Some b"
    "fd_offset m = b_start b + fd_column m" "fd_column m \<le> b_length b" "b_start b + b_length b \<le> length xs"
    "folds_newline_alone (if mc then (\<lambda>c. c) else canon) \<Longrightarrow> fd_column m + fd_length m \<le> b_length b"
    by (rule match_line [OF m]) blast
  define c where "c = fd_column m"
  define len where "len = fd_length m"
  note c_len_def = c_def len_def
  have r: "clamp (b_length b) (Some (int (c - before))) = c - before" using b(3) by (simp add: clamp_def c_len_def)
  obtain e where e: "sourceDocumentExcerpt (sourceDocumentIndex xs) (fd_line m) (Some (int (c - before))) (maximum + before) = Some e"
    "columnStart e \<le> c - before" "columnEnd e \<le> b_length b"
    "columnEnd e = b_length b \<or> c - before + (maximum + before) \<le> Suc (columnEnd e) + (maximum + before) div 4"
    "e_text e = slice (b_start b + columnStart e) (b_start b + columnEnd e) xs"
    by (rule excerpt_columns [OF b(1), of "Some (int (c - before))" "maximum + before", unfolded r]) blast
  define start where "start = c - columnStart e"
  define stop where "stop = min (length (e_text e)) (start + len)"
  note start_stop_def = start_def stop_def
  obtain s where s: "sourceSearchSnippet (sourceDocumentIndex xs) m before maximum = Some s" "sn_match s = slice start stop (e_text e)"
    using e(1) by (simp add: sourceSearchSnippet_def Let_def c_len_def start_stop_def)
  have at: "b_start b + columnStart e + start = fd_offset m" using e(2) b(2) by (simp add: start_stop_def c_len_def)
  define k where "k = min (stop - start) (columnEnd e - columnStart e - start)"
  have "sn_match s = take k (drop (fd_offset m) xs)"
    unfolding s(2) e(5) slice_def drop_take take_take drop_drop at [symmetric] k_def by (simp add: add.commute add.left_commute)
  moreover have "stop \<le> start + len" "k \<le> stop - start" by (simp_all add: stop_def k_def)
  then have "k \<le> len" by linarith
  then have "take k (drop (fd_offset m) xs) = take k (slice (fd_offset m) (fd_offset m + fd_length m) xs)"
    by (simp add: slice_def c_len_def min_def)
  ultimately have pre: "prefix (sn_match s) (slice (fd_offset m) (fd_offset m + fd_length m) xs)"
    by (simp only: take_is_prefix)
  have shown: "min (fd_length m) (maximum div 2) \<le> length (sn_match s)"
    if f: "folds_newline_alone (if mc then (\<lambda>c. c) else canon)"
  proof -
    have fits: "c + len \<le> b_length b" "len = fd_length m" using b(5) [OF f] by (simp_all add: c_len_def)
    have lt: "length (e_text e) = columnEnd e - columnStart e" using e(3,5) b(4) by simp
    have l: "length (sn_match s) = min (columnEnd e - c) len"
      unfolding s(2) length_slice using e(2) by (auto simp: start_stop_def lt min_def)
    have "maximum div 2 \<le> columnEnd e - c" if "columnEnd e \<noteq> b_length b"
    proof -
      have "c - before + (maximum + before) \<le> Suc (columnEnd e) + (maximum + before) div 4" using e(4) that by blast
      moreover have "c \<le> c - before + before" by simp
      ultimately have "c + maximum div 2 \<le> columnEnd e" using n by (intro snippet_room)
      then show ?thesis by simp
    qed
    then show ?thesis using fits l by (cases "columnEnd e = b_length b") auto
  qed
  show thesis by (rule that [OF s(1) pre shown])
qed

lemma search_text_value:
  "\<exists>t. sourceSearchText canon xs query matchCase limit = Inr t \<and>
     (let r = sourceDocumentMatches canon (sourceDocumentIndex xs) query limit None matchCase in
      tr_error t = fr_error r \<and> tr_truncated t = fr_truncated r \<and>
      list_all2 (\<lambda>m h. text_match_of (sourceDocumentIndex xs) m = Inr h) (fr_matches r) (tr_matches t))"
proof -
  let ?ix = "sourceDocumentIndex xs"
  define r where "r = sourceDocumentMatches canon ?ix query limit None matchCase"
  have ex: "\<exists>h. text_match_of ?ix m = Inr h" if m: "m \<in> set (fr_matches r)" for m
  proof -
    obtain s where "sourceSearchSnippet ?ix m 12 120 = Some s"
      by (rule snippet_marks [OF m [unfolded r_def], where before = 12 and maximum = 120]) simp_all
    then show ?thesis by (simp add: text_match_of_def SOURCE_SEARCH_LIMITS_def)
  qed
  have err: "fr_error r \<noteq> '''' \<Longrightarrow> fr_matches r = [] \<and> \<not> fr_truncated r"
  proof (cases "searched_query query")
    case True
    then show "fr_error r \<noteq> '''' \<Longrightarrow> fr_matches r = [] \<and> \<not> fr_truncated r" by (simp add: r_def matches_value Let_def)
  next
    case False
    then show "fr_error r \<noteq> '''' \<Longrightarrow> fr_matches r = [] \<and> \<not> fr_truncated r"
      by (auto simp: r_def sourceDocumentMatches_def searched_query_def)
  qed
  show ?thesis
  proof (cases "fr_error r = ''''")
    case True
    have "\<forall>m \<in> set (fr_matches r). \<exists>h. text_match_of ?ix m = Inr h" using ex by blast
    then obtain g where "\<forall>m \<in> set (fr_matches r). text_match_of ?ix m = Inr (g m)" by (rule bchoice [THEN exE])
    then have ms: "mapE (text_match_of ?ix) (fr_matches r) = Inr (map g (fr_matches r))" by (intro mapE_map) simp
    then have "list_all2 (\<lambda>m h. text_match_of ?ix m = Inr h) (fr_matches r) (map g (fr_matches r))" by (simp only: mapE_Inr_iff)
    then show ?thesis using True ms by (simp add: sourceSearchText_def r_def [symmetric] Let_def)
  next
    case False
    then show ?thesis using err by (simp add: sourceSearchText_def r_def [symmetric] Let_def)
  qed
qed

section \<open>Properties\<close>

text \<open>What a reported match shows: its place, and a snippet that marks the text of the match.\<close>

definition marks :: "cus \<Rightarrow> found \<Rightarrow> nat \<Rightarrow> text_match \<Rightarrow> bool" where
  "marks xs m shown h =
     (tm_line h = fd_line m \<and> tm_column h = fd_column m \<and> tm_length h = fd_length m \<and>
      prefix (sn_match (tm_snippet h)) (slice (fd_offset m) (fd_offset m + fd_length m) xs) \<and>
      shown \<le> length (sn_match (tm_snippet h)))"

text \<open>
  C34. Searching one text never throws, and every reported match is Find's match with a snippet
  that marks it, in an exact search and in one that ignores case: the marked part is the
  beginning of the matched text, and at least its first 60 units (the whole match when it is
  shorter). When case is ignored this uses that only a line feed folds to a line feed.
\<close>

theorem search_text_marks:
  assumes "matchCase \<or> folds_newline_alone canon"
  shows "\<exists>t. sourceSearchText canon xs query matchCase limit = Inr t \<and>
     (let r = sourceDocumentMatches canon (sourceDocumentIndex xs) query limit None matchCase in
      tr_error t = fr_error r \<and> tr_truncated t = fr_truncated r \<and>
      list_all2 (\<lambda>m h. marks xs m (min (fd_length m) 60) h) (fr_matches r) (tr_matches t))"
proof -
  let ?ix = "sourceDocumentIndex xs"
  let ?r = "sourceDocumentMatches canon ?ix query limit None matchCase"
  obtain t where t: "sourceSearchText canon xs query matchCase limit = Inr t" "tr_error t = fr_error ?r"
    "tr_truncated t = fr_truncated ?r" "list_all2 (\<lambda>m h. text_match_of ?ix m = Inr h) (fr_matches ?r) (tr_matches t)"
    using search_text_value by (metis (no_types, lifting))
  have law: "folds_newline_alone (if matchCase then (\<lambda>c. c) else canon)" using assms by auto
  have "marks xs m (min (fd_length m) 60) h"
    if m: "m \<in> set (fr_matches ?r)" and h: "text_match_of ?ix m = Inr h" for m h
  proof -
    obtain s where s: "sourceSearchSnippet ?ix m 12 120 = Some s"
      "prefix (sn_match s) (slice (fd_offset m) (fd_offset m + fd_length m) xs)"
      "min (fd_length m) (120 div 2) \<le> length (sn_match s)"
      by (rule snippet_marks [OF m, where before = 12 and maximum = 120]) (simp, use law in blast)
    then show ?thesis using h by (auto simp: marks_def text_match_of_def SOURCE_SEARCH_LIMITS_def)
  qed
  then have "list_all2 (\<lambda>m h. marks xs m (min (fd_length m) 60) h) (fr_matches ?r) (tr_matches t)"
    using t(4) by (auto simp: list_all2_conv_all_nth)
  then show ?thesis using t by (simp add: Let_def)
qed

text \<open>The case folding of the ASCII letters, for the witness.\<close>

definition ascii_fold :: "nat \<Rightarrow> nat" where
  "ascii_fold c = (if 65 \<le> c \<and> c \<le> 90 then c + 32 else c)"

theorem search_text_marks_witness:
  "\<exists>t. sourceSearchText ascii_fold (us ''x = ABba;'') (us ''ab'') False 5 = Inr t \<and>
     (let r = sourceDocumentMatches ascii_fold (sourceDocumentIndex (us ''x = ABba;'')) (us ''ab'') 5 None False in
      tr_error t = fr_error r \<and> tr_truncated t = fr_truncated r \<and>
      list_all2 (\<lambda>m h. marks (us ''x = ABba;'') m (min (fd_length m) 60) h) (fr_matches r) (tr_matches t))"
  by (rule search_text_marks) (simp add: folds_newline_alone_def ascii_fold_def newline_def)

text \<open>
  C35. In every reachable state the search is within its budgets and its counters are exact:
  \<open>bytes\<close> is the sum of the sizes of the reads whose results the current search was given, and
  within the byte budget; \<open>matches\<close> is the number of matches of the files and within both match
  limits; a finished search has visited every file, and while it is running exactly one
  suspended run is current, whose remaining entries make up the total. A read gives at most the
  window it was asked for.
\<close>

theorem search_within_limits:
  assumes "search_reads canon lims s given"
  shows "sm_bytes (ss_model s) = sum_list given \<and> sum_list given \<le> totalBytes lims \<and>
     counters_true lims (ss_model s) \<and> runs_ok lims (ss_model s) (ss_runs s)"
  using reaches_ok [OF reads_reaches [OF assms]] reads_bytes [OF assms] by (simp add: search_ok_def counters_true_def)

definition sample_entries :: "search_entry list" where
  "sample_entries = [\<lparr>se_name = us ''a.js'', se_byteSize = 3, se_binary = False\<rparr>, \<lparr>se_name = us ''b.png'', se_byteSize = 9, se_binary = True\<rparr>]"

lemma sample_reaches: "search_reaches canon lims (search_run lims query mc entries initial_search)"
  using reaches_step [OF reaches_initial, of lims "EvRun query mc entries" canon] by (simp add: read_bounded_def)

definition sample_read :: search_event where
  "sample_read = EvResume 0 (Inr \<lparr>ld_text = us ''aba'', ld_bytes = 3, ld_partial = False, ld_lossy = False\<rparr>) []"

lemma sample_reads:
  "search_reads canon SOURCE_SEARCH_LIMITS
     (search_step canon SOURCE_SEARCH_LIMITS sample_read
       (search_run SOURCE_SEARCH_LIMITS (us ''a'') False sample_entries initial_search)) [3]"
proof -
  let ?s = "search_run SOURCE_SEARCH_LIMITS (us ''a'') False sample_entries initial_search"
  let ?r = "\<lparr>sr_token = 1, sr_query = us ''a'', sr_matchCase = False, sr_rest = tl sample_entries, sr_await = AwaitRead (hd sample_entries)\<rparr>"
  have q: "searched_query (us ''a'')" by (simp add: searched_query_def us_def cu_of_def line_separator_def)
  have e: "us ''a'' \<noteq> []" "fr_error (sourceDocumentMatches (\<lambda>c. c) (sourceDocumentIndex []) (us ''a'') n None False) = ''''" for n
    using q by (simp_all add: searched_query_def matches_value Let_def)
  have runs: "ss_runs ?s = [?r]" "sm_generation (ss_model ?s) = 1"
    unfolding search_run_def Let_def
    by (simp_all only: e if_False simp_thms)
      (simp_all add: search_cancel_def Let_def initial_search_def initial_model_def enter_loop_def sample_entries_def
        SOURCE_SEARCH_LIMITS_def update_file_def)
  have "search_reads canon SOURCE_SEARCH_LIMITS ?s []"
    using reads_step [OF reads_initial, of SOURCE_SEARCH_LIMITS "EvRun (us ''a'') False sample_entries" canon]
    by (simp add: read_bounded_def given_after_def)
  moreover have "read_bounded SOURCE_SEARCH_LIMITS sample_read ?s"
    unfolding sample_read_def read_bounded_def runs search_event.case sum.case
    by (simp add: sample_entries_def SOURCE_SEARCH_LIMITS_def)
  moreover have "given_after sample_read ?s [] = [3]"
    unfolding sample_read_def given_after_def runs search_event.case sum.case by simp
  ultimately show ?thesis using reads_step by metis
qed

theorem search_within_limits_witness:
  "let s = search_step id SOURCE_SEARCH_LIMITS sample_read
       (search_run SOURCE_SEARCH_LIMITS (us ''a'') False sample_entries initial_search) in
   sm_bytes (ss_model s) = sum_list [3] \<and> sum_list [3] \<le> totalBytes SOURCE_SEARCH_LIMITS \<and>
   counters_true SOURCE_SEARCH_LIMITS (ss_model s) \<and> runs_ok SOURCE_SEARCH_LIMITS (ss_model s) (ss_runs s)"
  unfolding Let_def by (rule search_within_limits [OF sample_reads])

text \<open>
  C19. A cancelled search stays as it was: whatever the suspended runs still read, continuing
  them changes nothing in the model.
\<close>

theorem late_results_dropped:
  assumes "search_reaches canon lims s" "list_all is_resume evs"
  shows "ss_model (foldl (\<lambda>s ev. search_step canon lims ev s) (search_cancel s) evs) = ss_model (search_cancel s)"
  by (rule stale_resumes [OF assms(2) cancel_stale [OF reaches_ok [OF assms(1)]]])

theorem late_results_dropped_witness:
  "let s = search_run SOURCE_SEARCH_LIMITS (us ''a'') False sample_entries initial_search in
   ss_model (foldl (\<lambda>s ev. search_step id SOURCE_SEARCH_LIMITS ev s) (search_cancel s)
     [EvResume 0 (Inr \<lparr>ld_text = us ''aba'', ld_bytes = 3, ld_partial = False, ld_lossy = False\<rparr>) []]) = ss_model (search_cancel s)"
  unfolding Let_def by (rule late_results_dropped [OF sample_reaches]) (simp add: is_resume_def)

text \<open>
  C36. A search ends: whatever its reads return, text or failures, after at most two
  continuations for every entry it is done, with every entry listed in order and counters_true.
\<close>

theorem search_completes:
  assumes "search_reaches canon lims s" "searched_query query" "2 * length entries \<le> length outs"
  shows "let m = ss_model (drive canon lims outs (search_run lims query matchCase entries s)) in
    sm_status m = Done \<and> map sf_entry (sm_files m) = entries \<and> sm_completed m = length entries"
proof -
  have "driven entries (2 * length entries - length outs) (drive canon lims outs (search_run lims query matchCase entries s))"
    by (rule drive_driven [OF run_driven [OF reaches_ok [OF assms(1)] assms(2)]])
  moreover have "2 * length entries - length outs = 0" using assms(3) by simp
  moreover have "\<not> weight r \<le> 0" for r by (simp split: await.split)
  ultimately show ?thesis unfolding driven_def Let_def by (simp only: simp_thms split: if_splits)
qed

theorem search_completes_witness:
  "let m = ss_model (drive id SOURCE_SEARCH_LIMITS (replicate 4 (Inl (us ''gone''), []))
             (search_run SOURCE_SEARCH_LIMITS (us ''a'') False sample_entries initial_search)) in
   sm_status m = Done \<and> map sf_entry (sm_files m) = sample_entries \<and> sm_completed m = length sample_entries"
  by (rule search_completes [OF reaches_initial]) (simp_all add: searched_query_def us_def cu_of_def line_separator_def sample_entries_def)

lemma shown_note: "((if b then [x] else []) = []) = (\<not> b)"
  by simp

text \<open>
  Nothing is dropped silently: there is no note exactly when every file was searched, in
  full, without replacement characters and without reaching a match limit.
\<close>

theorem notes_name_every_gap:
  "(sourceSearchNotes number lims m = []) =
     list_all (\<lambda>f. sf_state f = Searched \<and> \<not> sf_partial f \<and> \<not> sf_lossy f \<and> sf_matchLimit f = None) (sm_files m)"
proof -
  have full: "(sf_state f = Searched \<and> \<not> sf_partial f \<and> \<not> sf_lossy f \<and> sf_matchLimit f = None) =
     (sf_state f \<noteq> BinaryFile \<and> sf_state f \<noteq> ReadFailed \<and> \<not> (sf_state f = Searched \<and> sf_partial f) \<and>
      \<not> (sf_state f = Searched \<and> sf_lossy f) \<and> sf_matchLimit f \<noteq> Some FileLimit \<and> sf_matchLimit f \<noteq> Some TotalLimit \<and>
      sf_state f \<noteq> MatchLimit \<and> sf_state f \<noteq> ByteLimit)" for f
    by (cases "sf_state f"; cases "sf_matchLimit f"; cases "the (sf_matchLimit f)") auto
  show ?thesis unfolding full sourceSearchNotes_def Let_def list_all_iff
    by (simp only: append_is_Nil_conv shown_note filter_empty_conv de_Morgan_disj not_not) blast
qed

end
