(* ===== verification/VmData.thy ===== *)
theory VmData
  imports Digits JsValue
begin

text \<open>
  Documents of the virtual machine tools as inert data: \<open>exact\<close>, \<open>document\<close>, \<open>canonical\<close>
  and the identifier patterns at the head of \<open>apps/research-ui/vm_static.js\<close>. A value that
  is not data (accessor, prototype, cycle, sparse array) has no counterpart in \<open>js\<close>; the
  text branch of \<open>document\<close>, which rests on the strict parser of \<open>captured_client.js\<close>, is the
  argument \<open>parse\<close>.
\<close>

section \<open>Errors\<close>

text \<open>\<open>fail(message)\<close> throws; so does a property read on \<open>undefined\<close>.\<close>

datatype vm_error = Refused string | UndefinedRead

section \<open>Shape of a value\<close>

definition exact :: "js \<Rightarrow> string list \<Rightarrow> bool" where
  "exact v keys =
     (case v of Obj kvs \<Rightarrow> length kvs = length keys \<and> list_all (\<lambda>k. map_of kvs k \<noteq> None) keys | _ \<Rightarrow> False)"

definition integer :: "js \<Rightarrow> int \<Rightarrow> int \<Rightarrow> bool" where
  "integer v lo hi = (is_safe_integer v \<and> of_int lo \<le> num_of v \<and> num_of v \<le> of_int hi)"

definition int_of :: "js \<Rightarrow> int" where
  "int_of v = \<lfloor>num_of v\<rfloor>"

definition nat_of :: "js \<Rightarrow> nat" where
  "nat_of v = nat (int_of v)"

definition between :: "char \<Rightarrow> char \<Rightarrow> char \<Rightarrow> bool" where
  "between lo hi c = (of_char lo \<le> (of_char c :: nat) \<and> (of_char c :: nat) \<le> of_char hi)"

definition alpha :: "char \<Rightarrow> bool" where
  "alpha c = (between CHR ''A'' CHR ''Z'' c \<or> between CHR ''a'' CHR ''z'' c)"

definition digit :: "char \<Rightarrow> bool" where
  "digit c = between CHR ''0'' CHR ''9'' c"

definition lower_hex :: "char \<Rightarrow> bool" where
  "lower_hex c = (digit c \<or> between CHR ''a'' CHR ''f'' c)"

text \<open>\<open>/^[A-Za-z0-9_.:-]{1,128}$/\<close> and \<open>/^[A-Za-z_][A-Za-z0-9_]{0,31}$/\<close>.\<close>

definition identifier_text :: "string \<Rightarrow> bool" where
  "identifier_text s =
     (1 \<le> length s \<and> length s \<le> 128 \<and> list_all (\<lambda>c. alpha c \<or> digit c \<or> c \<in> set ''_.:-'') s)"

definition name_text :: "string \<Rightarrow> bool" where
  "name_text s =
     (case s of [] \<Rightarrow> False
      | c # cs \<Rightarrow> (alpha c \<or> c = CHR ''_'') \<and> length cs \<le> 31 \<and> list_all (\<lambda>c. alpha c \<or> digit c \<or> c = CHR ''_'') cs)"

definition vm_identifier :: "js \<Rightarrow> bool" where
  "vm_identifier v = (is_str v \<and> identifier_text (str_of v))"

definition vm_name :: "js \<Rightarrow> bool" where
  "vm_name v = (is_str v \<and> name_text (str_of v))"

section \<open>Bounded copies\<close>

definition INPUT_BYTES :: nat where "INPUT_BYTES = 1048576"
definition NODES :: nat where "NODES = 50000"

text \<open>The UTF-8 length of \<open>JSON.stringify\<close> of a value whose numbers are safe integers.\<close>

fun json_bytes :: "js \<Rightarrow> nat" where
  "json_bytes Undef = 0"
| "json_bytes Null = 4"
| "json_bytes (Bool b) = (if b then 4 else 5)"
| "json_bytes (Num n) = (case n of Fin r \<Rightarrow> length (int_text \<lfloor>r\<rfloor>) | _ \<Rightarrow> 4)"
| "json_bytes (Str s) = quoted_bytes s"
| "json_bytes (Arr xs) = 2 + sum_list (map json_bytes xs) + (length xs - 1)"
| "json_bytes (Obj kvs) = 2 + sum_list (map (\<lambda>(k, v). quoted_bytes k + 1 + json_bytes v) kvs) + (length kvs - 1)"

text \<open>
  \<open>copy\<close> counts the nodes it has entered; the second component of a success is the count
  so far.
\<close>

fun copy :: "js \<Rightarrow> nat \<Rightarrow> nat \<Rightarrow> vm_error + (js \<times> nat)"
  and copy_items :: "js list \<Rightarrow> nat \<Rightarrow> nat \<Rightarrow> vm_error + (js list \<times> nat)"
  and copy_members :: "(string \<times> js) list \<Rightarrow> nat \<Rightarrow> nat \<Rightarrow> vm_error + ((string \<times> js) list \<times> nat)" where
  "copy v depth nodes =
     (if NODES < Suc nodes \<or> 16 < depth then Inl (Refused ''Static VM JSON structure exceeds bounds.'')
      else case v of
        Null \<Rightarrow> Inr (v, Suc nodes)
      | Bool _ \<Rightarrow> Inr (v, Suc nodes)
      | Num _ \<Rightarrow> if is_safe_integer v then Inr (v, Suc nodes) else Inl (Refused ''Static VM numbers require exact safe integers.'')
      | Str s \<Rightarrow> if INPUT_BYTES < length s then Inl (Refused ''Static VM string exceeds bounds.'') else Inr (v, Suc nodes)
      | Undef \<Rightarrow> Inl (Refused ''Static VM input must contain JSON data only.'')
      | Arr xs \<Rightarrow>
          if NODES < length xs then Inl (Refused ''Static VM arrays must be dense JSON arrays.'')
          else bindE (copy_items xs (Suc depth) (Suc nodes)) (\<lambda>(ys, n). Inr (Arr ys, n))
      | Obj kvs \<Rightarrow> bindE (copy_members kvs (Suc depth) (Suc nodes)) (\<lambda>(ys, n). Inr (Obj ys, n)))"
| "copy_items [] depth nodes = Inr ([], nodes)"
| "copy_items (x # xs) depth nodes =
     bindE (copy x depth nodes) (\<lambda>(y, n). bindE (copy_items xs depth n) (\<lambda>(ys, m). Inr (y # ys, m)))"
| "copy_members [] depth nodes = Inr ([], nodes)"
| "copy_members ((k, x) # xs) depth nodes =
     bindE (copy x depth nodes) (\<lambda>(y, n). bindE (copy_members xs depth n) (\<lambda>(ys, m). Inr ((k, y) # ys, m)))"

declare copy.simps [simp del]

definition vm_document :: "(string \<Rightarrow> vm_error + js) \<Rightarrow> js \<Rightarrow> vm_error + js" where
  "vm_document parse input =
     (case input of
        Str s \<Rightarrow> parse s
      | _ \<Rightarrow> bindE (copy input 0 0) (\<lambda>(result, n).
          if INPUT_BYTES < json_bytes result then Inl (Refused ''Static VM JSON exceeds 1 MiB.'') else Inr result))"

text \<open>\<open>canonical\<close> sorts the members of every object by key, in code unit order.\<close>

fun text_less :: "string \<Rightarrow> string \<Rightarrow> bool" where
  "text_less _ [] = False"
| "text_less [] (_ # _) = True"
| "text_less (a # s) (b # t) =
     ((of_char a :: nat) < of_char b \<or> a = b \<and> text_less s t)"

fun insert_member :: "string \<times> js \<Rightarrow> (string \<times> js) list \<Rightarrow> (string \<times> js) list" where
  "insert_member m [] = [m]"
| "insert_member m (n # ns) = (if text_less (fst n) (fst m) then n # insert_member m ns else m # n # ns)"

fun canonical :: "js \<Rightarrow> js" where
  "canonical (Arr xs) = Arr (map canonical xs)"
| "canonical (Obj kvs) = Obj (foldr insert_member (map (\<lambda>(k, v). (k, canonical v)) kvs) [])"
| "canonical v = v"

section \<open>A copy is the value\<close>

lemma copy_same:
  "copy v d n = Inr (w, m) \<Longrightarrow> w = v \<and> n < m \<and> m \<le> NODES"
  "copy_items xs d n = Inr (ys, m) \<Longrightarrow> n \<le> NODES \<Longrightarrow> ys = xs \<and> n + length xs \<le> m \<and> m \<le> NODES"
  "copy_members kvs d n = Inr (zs, m) \<Longrightarrow> n \<le> NODES \<Longrightarrow> zs = kvs \<and> n + length kvs \<le> m \<and> m \<le> NODES"
proof (induction v d n and xs d n and kvs d n arbitrary: w m and ys m and zs m
    rule: copy_copy_items_copy_members.induct)
  case (1 v depth nodes)
  show ?case
  proof (cases v)
    case (Arr xs)
    from 1(3) Arr obtain ys k where g: "\<not> (NODES < Suc nodes \<or> 16 < depth)" "\<not> NODES < length xs"
      and ys: "copy_items xs (Suc depth) (Suc nodes) = Inr (ys, k)" and w: "w = Arr ys" "m = k"
      by (auto simp: copy.simps [of "Arr xs"] result_simps split: if_splits)
    have "ys = xs \<and> Suc nodes + length xs \<le> k \<and> k \<le> NODES"
      by (rule 1(1) [OF g(1) Arr g(2) ys]) (use g in simp)
    then show ?thesis using w Arr by simp
  next
    case (Obj kvs)
    from 1(3) Obj obtain zs k where g: "\<not> (NODES < Suc nodes \<or> 16 < depth)"
      and zs: "copy_members kvs (Suc depth) (Suc nodes) = Inr (zs, k)" and w: "w = Obj zs" "m = k"
      by (auto simp: copy.simps [of "Obj kvs"] result_simps split: if_splits)
    have "zs = kvs \<and> Suc nodes + length kvs \<le> k \<and> k \<le> NODES"
      by (rule 1(2) [OF g Obj zs]) (use g in simp)
    then show ?thesis using w Obj by simp
  qed (use 1(3) in \<open>auto simp: copy.simps split: if_splits\<close>)
next
  case (3 x xs depth nodes)
  then show ?case by (fastforce simp: result_simps)
next
  case (5 k x xs depth nodes)
  then show ?case by (fastforce simp: result_simps)
qed auto

lemma vm_document_value: "vm_document parse v = Inr w \<Longrightarrow> \<not> is_str v \<Longrightarrow> w = v"
  by (cases v) (auto simp: vm_document_def result_simps split: if_splits dest: copy_same)

end
