(* ===== verification/VmDefinition.thy ===== *)
theory VmDefinition
  imports VmData
begin

text \<open>
  Definitions and images of a virtual machine: \<open>parseDefinition\<close> and \<open>parseImage\<close> of
  \<open>apps/research-ui/vm_static.js\<close>. The source returns the validated value; the model returns
  the same data as records. What an accepted definition guarantees is \<open>wf_definition\<close>.
\<close>

section \<open>Data\<close>

datatype operand_kind = Immediate | Register | Address | Offset

datatype operation =
    OpUnknown | Nop | StackConst | StackAdd | StackDrop | StackDup | RegisterConst | RegisterMove
  | RegisterAdd | Load | Store | Jump | BranchZero | StackBranchZero | Call | Return | Halt

datatype flow_kind = FlowNext | FlowJump | FlowBranch | FlowCall | FlowReturn | FlowHalt | FlowUnknown

datatype target_base = Absolute | NextRelative

datatype architecture = StackMachine | RegisterMachine

definition operand_kinds :: "(string \<times> operand_kind) list" where
  "operand_kinds = [(''immediate'', Immediate), (''register'', Register), (''address'', Address), (''offset'', Offset)]"

text \<open>The keys of \<open>operationRoles\<close> in order.\<close>

definition operation_names :: "(string \<times> operation) list" where
  "operation_names =
     [(''unknown'', OpUnknown), (''nop'', Nop), (''stack_const'', StackConst), (''stack_add'', StackAdd),
      (''stack_drop'', StackDrop), (''stack_dup'', StackDup), (''register_const'', RegisterConst),
      (''register_move'', RegisterMove), (''register_add'', RegisterAdd), (''load'', Load), (''store'', Store),
      (''jump'', Jump), (''branch_zero'', BranchZero), (''stack_branch_zero'', StackBranchZero), (''call'', Call),
      (''return'', Return), (''halt'', Halt)]"

fun operationRoles :: "operation \<Rightarrow> operand_kind list" where
  "operationRoles StackConst = [Immediate]"
| "operationRoles RegisterConst = [Register, Immediate]"
| "operationRoles RegisterMove = [Register, Register]"
| "operationRoles RegisterAdd = [Register, Register, Register]"
| "operationRoles Load = [Register, Address]"
| "operationRoles Store = [Address, Register]"
| "operationRoles BranchZero = [Register]"
| "operationRoles _ = []"

text \<open>\<open>operationFlows[operation] ?? 'next'\<close>.\<close>

fun operationFlows :: "operation \<Rightarrow> flow_kind" where
  "operationFlows Jump = FlowJump"
| "operationFlows BranchZero = FlowBranch"
| "operationFlows StackBranchZero = FlowBranch"
| "operationFlows Call = FlowCall"
| "operationFlows Return = FlowReturn"
| "operationFlows Halt = FlowHalt"
| "operationFlows _ = FlowNext"

definition flowKinds :: "(string \<times> flow_kind) list" where
  "flowKinds =
     [(''next'', FlowNext), (''jump'', FlowJump), (''branch'', FlowBranch), (''call'', FlowCall),
      (''return'', FlowReturn), (''halt'', FlowHalt), (''unknown'', FlowUnknown)]"

definition IMAGE_BYTES :: nat where "IMAGE_BYTES = 65536"
definition OPCODES :: nat where "OPCODES = 256"
definition OPERANDS :: nat where "OPERANDS = 8"
definition ENTRIES :: nat where "ENTRIES = 64"
definition INSTRUCTIONS :: nat where "INSTRUCTIONS = 4096"
definition EDGES :: nat where "EDGES = 8192"
definition PSEUDOCODE :: nat where "PSEUDOCODE = 8192"
definition DIAGNOSTICS :: nat where "DIAGNOSTICS = 8257"

lemmas vm_limits = IMAGE_BYTES_def OPCODES_def OPERANDS_def ENTRIES_def INSTRUCTIONS_def EDGES_def PSEUDOCODE_def
  DIAGNOSTICS_def

record operand_spec =
  op_name :: string
  op_width :: nat
  op_signed :: bool
  op_kind :: operand_kind

record vm_flow =
  fl_kind :: flow_kind
  fl_target :: "(string \<times> target_base) option"

record opcode_spec =
  oc_code :: string
  oc_mnemonic :: string
  oc_operands :: "operand_spec list"
  oc_operation :: operation
  oc_args :: "string list"
  oc_flow :: vm_flow

record vm_definition =
  vd_id :: string
  vd_architecture :: architecture
  vd_opcode_bytes :: nat
  vd_little :: bool
  vd_register_count :: nat
  vd_opcodes :: "opcode_spec list"
  vd_value :: js

record vm_image =
  vi_id :: string
  vi_definition_id :: string
  vi_entry_offsets :: "nat list"
  vi_bytes_hex :: string

section \<open>Definitions\<close>

definition definition_header_ok :: "js \<Rightarrow> bool" where
  "definition_header_ok v =
     (exact v [''format'', ''definition_id'', ''architecture'', ''opcode_bytes'', ''operand_endianness'',
               ''register_count'', ''opcodes''] \<and>
      getp v ''format'' = Str ''reb-vm-definition-v1'' \<and>
      vm_identifier (getp v ''definition_id'') \<and>
      one_of [''stack'', ''register''] (getp v ''architecture'') \<and>
      getp v ''opcode_bytes'' \<in> {int_js 1, int_js 2} \<and>
      one_of [''little'', ''big''] (getp v ''operand_endianness'') \<and>
      (let stack = (getp v ''architecture'' = Str ''stack'')
       in integer (getp v ''register_count'') (if stack then 0 else 1) (if stack then 0 else 64)) \<and>
      is_arr (getp v ''opcodes'') \<and>
      1 \<le> length (arr_of (getp v ''opcodes'')) \<and> length (arr_of (getp v ''opcodes'')) \<le> OPCODES)"

definition find_operand :: "operand_spec list \<Rightarrow> string \<Rightarrow> operand_spec option" where
  "find_operand ops n = find (\<lambda>p. op_name p = n) ops"

definition operand_ok :: "nat \<Rightarrow> operand_spec list \<Rightarrow> js \<Rightarrow> bool" where
  "operand_ok register_count operands v =
     (exact v [''name'', ''width'', ''signed'', ''kind''] \<and> vm_name (getp v ''name'') \<and>
      find_operand operands (str_of (getp v ''name'')) = None \<and>
      getp v ''width'' \<in> {int_js 1, int_js 2, int_js 4} \<and>
      is_bool (getp v ''signed'') \<and> one_of (map fst operand_kinds) (getp v ''kind'') \<and>
      \<not> (one_of [''register'', ''address''] (getp v ''kind'') \<and> truthy (getp v ''signed'')) \<and>
      \<not> (getp v ''kind'' = Str ''offset'' \<and> \<not> truthy (getp v ''signed'')) \<and>
      \<not> (getp v ''kind'' = Str ''register'' \<and> register_count = 0))"

definition read_operand :: "js \<Rightarrow> operand_spec" where
  "read_operand v =
     \<lparr>op_name = str_of (getp v ''name''), op_width = nat_of (getp v ''width''), op_signed = truthy (getp v ''signed''),
      op_kind = the (map_of operand_kinds (str_of (getp v ''kind'')))\<rparr>"

fun parse_operands :: "nat \<Rightarrow> js list \<Rightarrow> operand_spec list \<Rightarrow> vm_error + operand_spec list" where
  "parse_operands register_count [] operands = Inr operands"
| "parse_operands register_count (v # vs) operands =
     (if \<not> operand_ok register_count operands v then Inl (Refused ''Invalid operand layout or role.'')
      else parse_operands register_count vs (operands @ [read_operand v]))"

definition opcode_shape_ok :: "nat \<Rightarrow> string list \<Rightarrow> js \<Rightarrow> bool" where
  "opcode_shape_ok opcode_bytes codes v =
     (let semantics = getp v ''semantics'' in
      exact v [''code'', ''mnemonic'', ''operands'', ''semantics'', ''flow''] \<and> is_str (getp v ''code'') \<and>
      length (str_of (getp v ''code'')) = opcode_bytes * 2 \<and> list_all lower_hex (str_of (getp v ''code'')) \<and>
      str_of (getp v ''code'') \<notin> set codes \<and> vm_name (getp v ''mnemonic'') \<and>
      is_arr (getp v ''operands'') \<and> length (arr_of (getp v ''operands'')) \<le> OPERANDS \<and>
      exact semantics [''operation'', ''args''] \<and> one_of (map fst operation_names) (getp semantics ''operation'') \<and>
      is_arr (getp semantics ''args''))"

definition semantics_ok :: "architecture \<Rightarrow> operand_spec list \<Rightarrow> js \<Rightarrow> bool" where
  "semantics_ok arch operands semantics =
     (let text = str_of (getp semantics ''operation''); args = arr_of (getp semantics ''args'');
          roles = operationRoles (the (map_of operation_names text))
      in length args = length roles \<and>
         list_all (\<lambda>(arg, role). vm_name arg \<and> map_option op_kind (find_operand operands (str_of arg)) = Some role)
           (zip args roles) \<and>
         \<not> (prefix ''stack_'' text \<and> arch \<noteq> StackMachine) \<and>
         \<not> ((prefix ''register_'' text \<or> text \<in> {''load'', ''store'', ''branch_zero''}) \<and> arch \<noteq> RegisterMachine))"

definition has_target :: "js \<Rightarrow> bool" where
  "has_target flow = one_of [''jump'', ''branch'', ''call''] (getp flow ''kind'')"

definition flow_ok :: "operation \<Rightarrow> js \<Rightarrow> bool" where
  "flow_ok op flow =
     (exact flow (if has_target flow then [''kind'', ''target''] else [''kind'']) \<and>
      one_of (map fst flowKinds) (getp flow ''kind'') \<and>
      (op \<noteq> OpUnknown \<longrightarrow> map_of flowKinds (str_of (getp flow ''kind'')) = Some (operationFlows op)))"

definition target_ok :: "operand_spec list \<Rightarrow> js \<Rightarrow> bool" where
  "target_ok operands t =
     (exact t [''operand'', ''base''] \<and> vm_name (getp t ''operand'') \<and> one_of [''absolute'', ''next''] (getp t ''base'') \<and>
      map_option op_kind (find_operand operands (str_of (getp t ''operand''))) =
        Some (if getp t ''base'' = Str ''absolute'' then Address else Offset))"

definition read_flow :: "js \<Rightarrow> vm_flow" where
  "read_flow flow =
     \<lparr>fl_kind = the (map_of flowKinds (str_of (getp flow ''kind''))),
      fl_target =
        (if has_target flow
         then let t = getp flow ''target''
              in Some (str_of (getp t ''operand''), if getp t ''base'' = Str ''absolute'' then Absolute else NextRelative)
         else None)\<rparr>"

definition parse_opcode :: "architecture \<Rightarrow> nat \<Rightarrow> nat \<Rightarrow> string list \<Rightarrow> js \<Rightarrow> vm_error + opcode_spec" where
  "parse_opcode arch opcode_bytes register_count codes v =
     (if \<not> opcode_shape_ok opcode_bytes codes v then Inl (Refused ''Invalid or duplicate opcode definition.'')
      else bindE (parse_operands register_count (arr_of (getp v ''operands'')) [])
        (\<lambda>operands.
          let semantics = getp v ''semantics''; flow = getp v ''flow'';
              op = the (map_of operation_names (str_of (getp semantics ''operation'')))
          in if \<not> semantics_ok arch operands semantics
             then Inl (Refused ''Semantic operation arguments or architecture disagree.'')
             else if \<not> flow_ok op flow then Inl (Refused ''Semantic operation and declared flow disagree.'')
             else if has_target flow \<and> \<not> target_ok operands (getp flow ''target'')
             then Inl (Refused ''Flow target requires an explicit address or signed next-relative offset operand.'')
             else Inr \<lparr>oc_code = str_of (getp v ''code''), oc_mnemonic = str_of (getp v ''mnemonic''), oc_operands = operands,
                       oc_operation = op, oc_args = map str_of (arr_of (getp semantics ''args'')),
                       oc_flow = read_flow flow\<rparr>))"

fun parse_opcodes :: "architecture \<Rightarrow> nat \<Rightarrow> nat \<Rightarrow> js list \<Rightarrow> opcode_spec list \<Rightarrow> vm_error + opcode_spec list" where
  "parse_opcodes arch bytes regs [] done = Inr done"
| "parse_opcodes arch bytes regs (v # vs) done =
     bindE (parse_opcode arch bytes regs (map oc_code done) v) (\<lambda>c. parse_opcodes arch bytes regs vs (done @ [c]))"

definition parseDefinition :: "(string \<Rightarrow> vm_error + js) \<Rightarrow> js \<Rightarrow> vm_error + vm_definition" where
  "parseDefinition parse input =
     bindE (vm_document parse input) (\<lambda>v.
       if \<not> definition_header_ok v then Inl (Refused ''Invalid bounded reb-vm-definition-v1.'')
       else
         let arch = (if getp v ''architecture'' = Str ''stack'' then StackMachine else RegisterMachine);
             bytes = nat_of (getp v ''opcode_bytes''); regs = nat_of (getp v ''register_count'')
         in bindE (parse_opcodes arch bytes regs (arr_of (getp v ''opcodes'')) []) (\<lambda>opcodes.
              Inr \<lparr>vd_id = str_of (getp v ''definition_id''), vd_architecture = arch, vd_opcode_bytes = bytes,
                   vd_little = (getp v ''operand_endianness'' = Str ''little''), vd_register_count = regs,
                   vd_opcodes = opcodes, vd_value = v\<rparr>))"

section \<open>Images\<close>

text \<open>\<open>/^(?:[a-f0-9]{2})*$/\<close>.\<close>

definition hex_bytes_text :: "string \<Rightarrow> bool" where
  "hex_bytes_text s = (even (length s) \<and> list_all lower_hex s)"

definition image_ok :: "js \<Rightarrow> bool" where
  "image_ok v =
     (let hex = getp v ''bytes_hex''; offsets = getp v ''entry_offsets'' in
      exact v [''format'', ''image_id'', ''definition_id'', ''entry_offsets'', ''bytes_hex''] \<and>
      getp v ''format'' = Str ''reb-vm-bytecode-v1'' \<and>
      vm_identifier (getp v ''image_id'') \<and> vm_identifier (getp v ''definition_id'') \<and>
      is_str hex \<and> length (str_of hex) \<le> IMAGE_BYTES * 2 \<and> hex_bytes_text (str_of hex) \<and>
      is_arr offsets \<and> 1 \<le> length (arr_of offsets) \<and> length (arr_of offsets) \<le> ENTRIES \<and>
      list_all (\<lambda>n. integer n 0 65535) (arr_of offsets) \<and> distinct (arr_of offsets))"

definition parseImage :: "(string \<Rightarrow> vm_error + js) \<Rightarrow> js \<Rightarrow> vm_error + vm_image" where
  "parseImage parse input =
     bindE (vm_document parse input) (\<lambda>v.
       if \<not> image_ok v then Inl (Refused ''Invalid bounded reb-vm-bytecode-v1.'')
       else Inr \<lparr>vi_id = str_of (getp v ''image_id''), vi_definition_id = str_of (getp v ''definition_id''),
                 vi_entry_offsets = map nat_of (arr_of (getp v ''entry_offsets'')),
                 vi_bytes_hex = str_of (getp v ''bytes_hex'')\<rparr>)"

section \<open>What an accepted vm_document guarantees\<close>

definition wf_operand :: "nat \<Rightarrow> operand_spec \<Rightarrow> bool" where
  "wf_operand regs p =
     (name_text (op_name p) \<and> op_width p \<in> {1, 2, 4} \<and>
      (op_kind p \<in> {Register, Address} \<longrightarrow> \<not> op_signed p) \<and> (op_kind p = Offset \<longrightarrow> op_signed p) \<and>
      (op_kind p = Register \<longrightarrow> 0 < regs))"

definition operand_has_kind :: "operand_spec list \<Rightarrow> string \<Rightarrow> operand_kind \<Rightarrow> bool" where
  "operand_has_kind ops n k = (map_option op_kind (find_operand ops n) = Some k)"

definition wf_flow :: "operand_spec list \<Rightarrow> operation \<Rightarrow> vm_flow \<Rightarrow> bool" where
  "wf_flow ops op flow =
     ((op \<noteq> OpUnknown \<longrightarrow> fl_kind flow = operationFlows op) \<and>
      (fl_kind flow \<in> {FlowJump, FlowBranch, FlowCall} \<longleftrightarrow> fl_target flow \<noteq> None) \<and>
      (\<forall>n base. fl_target flow = Some (n, base) \<longrightarrow>
         operand_has_kind ops n (if base = Absolute then Address else Offset)))"

definition wf_opcode :: "architecture \<Rightarrow> nat \<Rightarrow> nat \<Rightarrow> opcode_spec \<Rightarrow> bool" where
  "wf_opcode arch bytes regs c =
     (length (oc_code c) = 2 * bytes \<and> list_all lower_hex (oc_code c) \<and> name_text (oc_mnemonic c) \<and>
      length (oc_operands c) \<le> OPERANDS \<and> list_all (wf_operand regs) (oc_operands c) \<and>
      distinct (map op_name (oc_operands c)) \<and>
      list_all2 (operand_has_kind (oc_operands c)) (oc_args c) (operationRoles (oc_operation c)) \<and>
      (oc_operation c \<in> {StackConst, StackAdd, StackDrop, StackDup, StackBranchZero} \<longrightarrow> arch = StackMachine) \<and>
      (oc_operation c \<in> {RegisterConst, RegisterMove, RegisterAdd, Load, Store, BranchZero} \<longrightarrow> arch = RegisterMachine) \<and>
      wf_flow (oc_operands c) (oc_operation c) (oc_flow c))"

definition wf_definition :: "vm_definition \<Rightarrow> bool" where
  "wf_definition d =
     (identifier_text (vd_id d) \<and> vd_opcode_bytes d \<in> {1, 2} \<and>
      (case vd_architecture d of StackMachine \<Rightarrow> vd_register_count d = 0
       | RegisterMachine \<Rightarrow> 1 \<le> vd_register_count d \<and> vd_register_count d \<le> 64) \<and>
      vd_opcodes d \<noteq> [] \<and> length (vd_opcodes d) \<le> OPCODES \<and> distinct (map oc_code (vd_opcodes d)) \<and>
      list_all (wf_opcode (vd_architecture d) (vd_opcode_bytes d) (vd_register_count d)) (vd_opcodes d))"

definition wf_image :: "vm_image \<Rightarrow> bool" where
  "wf_image i =
     (identifier_text (vi_id i) \<and> identifier_text (vi_definition_id i) \<and>
      length (vi_bytes_hex i) \<le> 2 * IMAGE_BYTES \<and> even (length (vi_bytes_hex i)) \<and> list_all lower_hex (vi_bytes_hex i) \<and>
      vi_entry_offsets i \<noteq> [] \<and> length (vi_entry_offsets i) \<le> ENTRIES \<and> distinct (vi_entry_offsets i) \<and>
      (\<forall>n \<in> set (vi_entry_offsets i). n \<le> 65535))"

lemma rat_int_floor: "rat_is_int r \<Longrightarrow> (of_int \<lfloor>r\<rfloor> :: rat) = r"
  unfolding rat_is_int_def .

lemma integer_nat:
  assumes "integer v (int lo) (int hi)"
  shows "v = int_js (nat_of v)" "lo \<le> nat_of v" "nat_of v \<le> hi"
proof -
  from assms obtain r where v: "v = Num (Fin r)" "rat_is_int r" "of_nat lo \<le> r" "r \<le> of_nat hi"
    by (auto simp: integer_def elim!: is_safe_integerE)
  define k where "k = \<lfloor>r\<rfloor>"
  have r: "r = of_int k" using rat_int_floor [OF v(2)] unfolding k_def by (rule sym)
  have "(of_int (int lo) :: rat) \<le> of_int k" using v(3) unfolding r of_int_of_nat_eq .
  moreover have "(of_int k :: rat) \<le> of_int (int hi)" using v(4) unfolding r of_int_of_nat_eq .
  ultimately have k: "int lo \<le> k" "k \<le> int hi" unfolding of_int_le_iff by blast+
  then show "lo \<le> nat_of v" "nat_of v \<le> hi" by (simp_all add: v(1) r nat_of_def int_of_def)
  show "v = int_js (nat_of v)" using k by (simp add: v(1) r nat_of_def int_of_def int_js_def)
qed

lemma nat_of_int_js [simp]: "nat_of (int_js n) = n"
  by (simp add: nat_of_def int_of_def int_js_def)

lemma one_of_Str: "one_of ss v \<longleftrightarrow> (\<exists>s. v = Str s \<and> s \<in> set ss)"
  by (cases v) auto

lemma map_of_names: "s \<in> set (map fst xs) \<Longrightarrow> \<exists>y. map_of xs s = Some y"
  by (induction xs) auto

lemma find_operand_None: "find_operand ops n = None \<longleftrightarrow> n \<notin> set (map op_name ops)"
  by (auto simp: find_operand_def find_None_iff)

lemma read_operand_wf: "operand_ok regs ops v \<Longrightarrow> wf_operand regs (read_operand v)"
proof -
  assume ok: "operand_ok regs ops v"
  then have n: "name_text (str_of (getp v ''name''))" and w: "getp v ''width'' \<in> {int_js 1, int_js 2, int_js 4}"
    and k: "one_of (map fst operand_kinds) (getp v ''kind'')"
    and g: "\<not> (one_of [''register'', ''address''] (getp v ''kind'') \<and> truthy (getp v ''signed''))"
      "\<not> (getp v ''kind'' = Str ''offset'' \<and> \<not> truthy (getp v ''signed''))"
      "\<not> (getp v ''kind'' = Str ''register'' \<and> regs = 0)"
    by (simp_all add: operand_ok_def vm_name_def)
  from k obtain s where s: "getp v ''kind'' = Str s" "s \<in> {''immediate'', ''register'', ''address'', ''offset''}"
    by (auto simp: one_of_Str operand_kinds_def)
  have w': "nat_of (getp v ''width'') \<in> {1, 2, 4}" using w by auto
  show ?thesis
    using s(2) g by (elim insertE) (simp_all add: wf_operand_def read_operand_def n w' [simplified] s(1) operand_kinds_def)
qed

lemma parse_operands_wf:
  assumes "parse_operands regs vs ops = Inr ops'"
    and "list_all (wf_operand regs) ops" "distinct (map op_name ops)"
  shows "list_all (wf_operand regs) ops' \<and> distinct (map op_name ops') \<and> length ops' = length ops + length vs"
  using assms
proof (induction vs arbitrary: ops)
  case (Cons v vs)
  then have ok: "operand_ok regs ops v" by (auto split: if_splits)
  then have "op_name (read_operand v) \<notin> set (map op_name ops)"
    by (simp add: operand_ok_def find_operand_None read_operand_def)
  then have "list_all (wf_operand regs) ops' \<and> distinct (map op_name ops') \<and>
      length ops' = length (ops @ [read_operand v]) + length vs"
    using Cons.prems ok read_operand_wf [OF ok] by (intro Cons.IH) (auto split: if_splits)
  then show ?case by simp
qed simp

lemma read_flow_wf:
  assumes "flow_ok op flow" "has_target flow \<Longrightarrow> target_ok ops (getp flow ''target'')"
  shows "wf_flow ops op (read_flow flow)"
proof -
  obtain s where s: "getp flow ''kind'' = Str s" "s \<in> set (map fst flowKinds)"
    using assms(1) by (auto simp: flow_ok_def one_of_Str)
  then have "has_target flow \<longleftrightarrow> the (map_of flowKinds s) \<in> {FlowJump, FlowBranch, FlowCall}"
    by (auto simp: has_target_def flowKinds_def)
  moreover have "op \<noteq> OpUnknown \<Longrightarrow> the (map_of flowKinds s) = operationFlows op"
    using assms(1) s by (simp add: flow_ok_def)
  ultimately show ?thesis
    using assms s by (auto simp: wf_flow_def read_flow_def Let_def target_ok_def operand_has_kind_def)
qed

lemma semantics_wf:
  assumes "semantics_ok arch ops sem" "one_of (map fst operation_names) (getp sem ''operation'')"
    and op: "op = the (map_of operation_names (str_of (getp sem ''operation'')))"
  shows "list_all2 (operand_has_kind ops) (map str_of (arr_of (getp sem ''args''))) (operationRoles op)"
    and "op \<in> {StackConst, StackAdd, StackDrop, StackDup, StackBranchZero} \<Longrightarrow> arch = StackMachine"
    and "op \<in> {RegisterConst, RegisterMove, RegisterAdd, Load, Store, BranchZero} \<Longrightarrow> arch = RegisterMachine"
proof -
  obtain s where s: "getp sem ''operation'' = Str s" "s \<in> set (map fst operation_names)"
    using assms(2) by (auto simp: one_of_Str)
  have archs: "prefix ''stack_'' s \<Longrightarrow> arch = StackMachine"
    "prefix ''register_'' s \<or> s \<in> {''load'', ''store'', ''branch_zero''} \<Longrightarrow> arch = RegisterMachine"
    using assms(1) unfolding semantics_ok_def Let_def s(1) by auto
  show "list_all2 (operand_has_kind ops) (map str_of (arr_of (getp sem ''args''))) (operationRoles op)"
    using assms(1) by (auto simp: semantics_ok_def Let_def op list_all2_iff list_all_iff operand_has_kind_def zip_map1)
  show "op \<in> {StackConst, StackAdd, StackDrop, StackDup, StackBranchZero} \<Longrightarrow> arch = StackMachine"
    using archs(1) s(2) by (auto simp: op s(1) operation_names_def)
  show "op \<in> {RegisterConst, RegisterMove, RegisterAdd, Load, Store, BranchZero} \<Longrightarrow> arch = RegisterMachine"
    using archs(2) s(2) by (auto simp: op s(1) operation_names_def)
qed

lemma parse_opcode_wf:
  assumes "parse_opcode arch bytes regs codes v = Inr c"
  shows "wf_opcode arch bytes regs c \<and> oc_code c \<notin> set codes"
proof -
  let ?sem = "getp v ''semantics''" and ?flow = "getp v ''flow''"
  let ?op = "the (map_of operation_names (str_of (getp ?sem ''operation'')))"
  obtain ops where shape: "opcode_shape_ok bytes codes v"
    and ops: "parse_operands regs (arr_of (getp v ''operands'')) [] = Inr ops"
    and sem: "semantics_ok arch ops ?sem" and flow: "flow_ok ?op ?flow"
    and target: "has_target ?flow \<Longrightarrow> target_ok ops (getp ?flow ''target'')"
    and c: "c = \<lparr>oc_code = str_of (getp v ''code''), oc_mnemonic = str_of (getp v ''mnemonic''), oc_operands = ops,
      oc_operation = ?op, oc_args = map str_of (arr_of (getp ?sem ''args'')), oc_flow = read_flow ?flow\<rparr>"
    using assms by (auto simp: parse_opcode_def Let_def result_simps split: if_splits)
  have o: "one_of (map fst operation_names) (getp ?sem ''operation'')" using shape by (simp add: opcode_shape_ok_def Let_def)
  note s = semantics_wf [OF sem o refl]
  have "list_all (wf_operand regs) ops \<and> distinct (map op_name ops) \<and> length ops \<le> OPERANDS"
    using parse_operands_wf [OF ops] shape by (simp add: opcode_shape_ok_def Let_def)
  then show ?thesis
    unfolding wf_opcode_def c using shape s read_flow_wf [OF flow target]
    by (simp add: opcode_shape_ok_def Let_def vm_name_def mult.commute)
qed

lemma parse_opcodes_wf:
  assumes "parse_opcodes arch bytes regs vs cs = Inr cs'"
    and "list_all (wf_opcode arch bytes regs) cs" "distinct (map oc_code cs)"
  shows "list_all (wf_opcode arch bytes regs) cs' \<and> distinct (map oc_code cs') \<and> length cs' = length cs + length vs"
  using assms
proof (induction vs arbitrary: cs)
  case (Cons v vs)
  then obtain c where c: "parse_opcode arch bytes regs (map oc_code cs) v = Inr c"
    and r: "parse_opcodes arch bytes regs vs (cs @ [c]) = Inr cs'" by (auto simp: result_simps)
  note w = parse_opcode_wf [OF c]
  have "list_all (wf_opcode arch bytes regs) cs' \<and> distinct (map oc_code cs') \<and> length cs' = length (cs @ [c]) + length vs"
    using Cons.prems w by (intro Cons.IH [OF r]) auto
  then show ?case by simp
qed simp

lemma parseDefinition_wf:
  assumes "parseDefinition parse v = Inr d"
  shows "wf_definition d"
proof -
  obtain w cs where h: "definition_header_ok w"
    and cs: "parse_opcodes (if getp w ''architecture'' = Str ''stack'' then StackMachine else RegisterMachine)
      (nat_of (getp w ''opcode_bytes'')) (nat_of (getp w ''register_count'')) (arr_of (getp w ''opcodes'')) [] = Inr cs"
    and d: "d = \<lparr>vd_id = str_of (getp w ''definition_id''),
      vd_architecture = (if getp w ''architecture'' = Str ''stack'' then StackMachine else RegisterMachine),
      vd_opcode_bytes = nat_of (getp w ''opcode_bytes''), vd_little = (getp w ''operand_endianness'' = Str ''little''),
      vd_register_count = nat_of (getp w ''register_count''), vd_opcodes = cs, vd_value = w\<rparr>"
    using assms by (auto simp: parseDefinition_def Let_def result_simps split: if_splits)
  let ?stack = "getp w ''architecture'' = Str ''stack''"
  have regs: "integer (getp w ''register_count'') (int (if ?stack then 0 else 1)) (int (if ?stack then 0 else 64))"
    using h by (cases ?stack) (simp_all add: definition_header_ok_def)
  have "length cs = length (arr_of (getp w ''opcodes''))" using parse_opcodes_wf [OF cs] by simp
  then have "cs \<noteq> [] \<and> length cs \<le> OPCODES" using h by (auto simp: definition_header_ok_def Let_def)
  then show ?thesis
    unfolding wf_definition_def d using h parse_opcodes_wf [OF cs] integer_nat(2,3) [OF regs]
    by (auto simp: definition_header_ok_def vm_identifier_def Let_def)
qed

lemma parseImage_wf:
  assumes "parseImage parse v = Inr i"
  shows "wf_image i"
proof -
  obtain w where ok: "image_ok w"
    and i: "i = \<lparr>vi_id = str_of (getp w ''image_id''), vi_definition_id = str_of (getp w ''definition_id''),
      vi_entry_offsets = map nat_of (arr_of (getp w ''entry_offsets'')), vi_bytes_hex = str_of (getp w ''bytes_hex'')\<rparr>"
    using assms by (auto simp: parseImage_def result_simps split: if_splits)
  have all: "\<And>n. n \<in> set (arr_of (getp w ''entry_offsets'')) \<Longrightarrow> integer n (int 0) (int 65535)"
    using ok by (simp add: image_ok_def Let_def list_all_iff)
  have "inj_on nat_of (set (arr_of (getp w ''entry_offsets'')))"
    by (rule inj_on_inverseI [where g = int_js]) (metis all integer_nat(1))
  then show ?thesis
    unfolding wf_image_def i using ok integer_nat(3) [OF all]
    by (auto simp: image_ok_def Let_def vm_identifier_def hex_bytes_text_def distinct_map mult.commute)
qed

section \<open>A sample program\<close>

text \<open>A stack machine: push a signed big-endian word, branch backwards by a relative offset, halt.\<close>

definition operand_js :: "string \<Rightarrow> nat \<Rightarrow> bool \<Rightarrow> string \<Rightarrow> js" where
  "operand_js n w sg k = Obj [(''name'', Str n), (''width'', int_js w), (''signed'', Bool sg), (''kind'', Str k)]"
definition opcode_js :: "string \<Rightarrow> string \<Rightarrow> js list \<Rightarrow> string \<Rightarrow> string list \<Rightarrow> js \<Rightarrow> js" where
  "opcode_js c m ops operation args flow =
     Obj [(''code'', Str c), (''mnemonic'', Str m), (''operands'', Arr ops),
          (''semantics'', Obj [(''operation'', Str operation), (''args'', Arr (map Str args))]), (''flow'', flow)]"
definition next_js :: js where "next_js = Obj [(''kind'', Str ''next'')]"
definition sample_definition :: js where
  "sample_definition =
     Obj [(''format'', Str ''reb-vm-definition-v1''), (''definition_id'', Str ''sample''),
          (''architecture'', Str ''stack''), (''opcode_bytes'', int_js 1), (''operand_endianness'', Str ''big''),
          (''register_count'', int_js 0),
          (''opcodes'', Arr
            [opcode_js ''01'' ''push'' [operand_js ''v'' 2 True ''immediate''] ''stack_const'' [''v''] next_js,
             opcode_js ''02'' ''jz'' [operand_js ''d'' 1 True ''offset''] ''stack_branch_zero'' []
               (Obj [(''kind'', Str ''branch''), (''target'', Obj [(''operand'', Str ''d''), (''base'', Str ''next'')])]),
             opcode_js ''ff'' ''stop'' [] ''halt'' [] (Obj [(''kind'', Str ''halt'')])])]"
definition sample_image :: js where
  "sample_image =
     Obj [(''format'', Str ''reb-vm-bytecode-v1''), (''image_id'', Str ''image''), (''definition_id'', Str ''sample''),
          (''entry_offsets'', Arr [int_js 0]), (''bytes_hex'', Str ''01fffe02fbff'')]"

lemmas vm_evals = vm_document_def copy.simps NODES_def INPUT_BYTES_def quoted_bytes_def quote_width_def int_text_def
  to_base.simps exact_def integer_def vm_identifier_def identifier_text_def vm_name_def name_text_def between_def
  alpha_def digit_def lower_hex_def nat_of_def int_of_def int_js_def max_safe_def is_safe_integer_def rat_is_int_def
  vm_limits

definition sample_vm :: vm_definition where
  "sample_vm =
     \<lparr>vd_id = ''sample'', vd_architecture = StackMachine, vd_opcode_bytes = 1, vd_little = False,
      vd_register_count = 0,
      vd_opcodes =
        [\<lparr>oc_code = ''01'', oc_mnemonic = ''push'',
          oc_operands = [\<lparr>op_name = ''v'', op_width = 2, op_signed = True, op_kind = Immediate\<rparr>],
          oc_operation = StackConst, oc_args = [''v''], oc_flow = \<lparr>fl_kind = FlowNext, fl_target = None\<rparr>\<rparr>,
         \<lparr>oc_code = ''02'', oc_mnemonic = ''jz'',
          oc_operands = [\<lparr>op_name = ''d'', op_width = 1, op_signed = True, op_kind = Offset\<rparr>],
          oc_operation = StackBranchZero, oc_args = [],
          oc_flow = \<lparr>fl_kind = FlowBranch, fl_target = Some (''d'', NextRelative)\<rparr>\<rparr>,
         \<lparr>oc_code = ''ff'', oc_mnemonic = ''stop'', oc_operands = [], oc_operation = Halt, oc_args = [],
          oc_flow = \<lparr>fl_kind = FlowHalt, fl_target = None\<rparr>\<rparr>],
      vd_value = sample_definition\<rparr>"

definition sample_program :: vm_image where
  "sample_program =
     \<lparr>vi_id = ''image'', vi_definition_id = ''sample'', vi_entry_offsets = [0], vi_bytes_hex = ''01fffe02fbff''\<rparr>"

lemmas sample_js = sample_definition_def opcode_js_def operand_js_def next_js_def

lemma sample_definition_accepted: "parseDefinition parse sample_definition = Inr sample_vm"
proof -
  have "vm_document parse sample_definition = Inr sample_definition" by (simp add: sample_js vm_evals)
  moreover have "definition_header_ok sample_definition"
    by (simp add: definition_header_ok_def sample_js vm_evals)
  moreover have "parse_opcodes StackMachine 1 0 (arr_of (getp sample_definition ''opcodes'')) [] = Inr (vd_opcodes sample_vm)"
    by (simp add: sample_js sample_vm_def parse_opcode_def opcode_shape_ok_def operand_ok_def read_operand_def
        operand_kinds_def find_operand_def semantics_ok_def operation_names_def flow_ok_def has_target_def target_ok_def
        read_flow_def flowKinds_def vm_evals)
  ultimately show ?thesis
    by (simp add: parseDefinition_def) (simp add: sample_js sample_vm_def vm_evals)
qed

lemma sample_image_accepted: "parseImage parse sample_image = Inr sample_program"
proof -
  have "vm_document parse sample_image = Inr sample_image" by (simp add: sample_image_def vm_evals)
  moreover have "image_ok sample_image" by (simp add: image_ok_def hex_bytes_text_def sample_image_def vm_evals)
  ultimately show ?thesis by (simp add: parseImage_def sample_image_def sample_program_def vm_evals)
qed

text \<open>
  C25. Accepted documents are well formed, whatever the text parser is: every opcode of an
  accepted definition has a code of the declared length that no other opcode has, operands
  with distinct names whose sign and register bank fit their kind, arguments that name
  operands of exactly the kinds its operation reads, an operation that fits the architecture,
  and a flow that is the operation's, with a target operand of the right kind exactly when the
  flow has a target; an accepted image is whole bytes within the limit with distinct entries.
\<close>

theorem accepted_documents_typed:
  assumes "parseDefinition parse v = Inr d" "parseImage parse w = Inr i"
  shows "wf_definition d \<and> wf_image i"
  using parseDefinition_wf [OF assms(1)] parseImage_wf [OF assms(2)] by (rule conjI)

lemma accepted_documents_typed_witness:
  "wf_definition sample_vm \<and> wf_image sample_program"
  by (rule accepted_documents_typed [of "\<lambda>s. Inl UndefinedRead", OF sample_definition_accepted sample_image_accepted])

end
