(* ===== verification/VmStatic.thy ===== *)
theory VmStatic
  imports VmDefinition
begin

text \<open>
  The static analysis of a bytecode image: \<open>analyze\<close> of \<open>apps/research-ui/vm_static.js\<close>,
  from linear decoding over edges, entries and reachability to pseudocode. The computations of
  the digests of the inputs are arguments and may fail. Nothing here runs the program that is analysed.
\<close>

section \<open>Data\<close>

record insn_operand = operand_spec +
  io_offset :: nat
  io_bytes_hex :: string
  io_value :: int

record instruction =
  in_id :: string
  in_offset :: nat
  in_size :: nat
  in_bytes_hex :: string
  in_opcode :: string
  in_mnemonic :: string
  in_operands :: "insn_operand list"
  in_operation :: operation
  in_args :: "string list"
  in_semantics_status :: string
  in_flow :: vm_flow

record vm_diagnostic =
  dg_offset :: nat
  dg_code :: string
  dg_message :: string

datatype target_status = Unknown | OutOfRange | Resolved | MidInstruction | Undecoded

fun status_text :: "target_status \<Rightarrow> string" where
  "status_text Unknown = ''unknown''"
| "status_text OutOfRange = ''out_of_range''"
| "status_text Resolved = ''resolved''"
| "status_text MidInstruction = ''mid_instruction''"
| "status_text Undecoded = ''undecoded''"

record vm_edge =
  eg_from :: nat
  eg_to :: "int option"
  eg_kind :: string
  eg_status :: target_status

record pseudo =
  ps_instruction_id :: string
  ps_offset :: nat
  ps_text :: string
  ps_status :: string

section \<open>Decoding\<close>

definition hex_digit_value :: "char \<Rightarrow> nat" where
  "hex_digit_value c = (let k = of_char c in if k < 58 then k - 48 else k - 87)"

text \<open>\<open>bytes_hex.match(/../g)\<close> read by \<open>parseInt(byte, 16)\<close>.\<close>

fun hex_bytes :: "string \<Rightarrow> nat list" where
  "hex_bytes (a # b # s) = (16 * hex_digit_value a + hex_digit_value b) # hex_bytes s"
| "hex_bytes _ = []"

definition hex_slice :: "vm_image \<Rightarrow> nat \<Rightarrow> nat \<Rightarrow> string" where
  "hex_slice img i j = slice (i * 2) (j * 2) (vi_bytes_hex img)"

definition raw_value :: "bool \<Rightarrow> nat list \<Rightarrow> nat \<Rightarrow> nat \<Rightarrow> nat" where
  "raw_value little bytes position width =
     sum_list (map (\<lambda>i. bytes ! (position + i) * 2 ^ (8 * (if little then i else width - i - 1))) [0..<width])"

definition operand_value :: "bool \<Rightarrow> nat list \<Rightarrow> nat \<Rightarrow> operand_spec \<Rightarrow> int" where
  "operand_value little bytes position p =
     (let v = int (raw_value little bytes position (op_width p)) in
      if op_signed p \<and> 2 ^ (op_width p * 8 - 1) \<le> v then v - 2 ^ (op_width p * 8) else v)"

definition read_at :: "vm_definition \<Rightarrow> vm_image \<Rightarrow> nat list \<Rightarrow> nat \<Rightarrow> operand_spec \<Rightarrow> insn_operand" where
  "read_at d img bytes position p =
     operand_spec.extend p
       \<lparr>io_offset = position, io_bytes_hex = hex_slice img position (position + op_width p),
        io_value = operand_value (vd_little d) bytes position p\<rparr>"

fun read_operands :: "vm_definition \<Rightarrow> vm_image \<Rightarrow> nat list \<Rightarrow> nat \<Rightarrow> operand_spec list \<Rightarrow> insn_operand list" where
  "read_operands d img bytes position [] = []"
| "read_operands d img bytes position (p # ps) =
     read_at d img bytes position p # read_operands d img bytes (position + op_width p) ps"

definition invalid_operand :: "vm_definition \<Rightarrow> insn_operand \<Rightarrow> bool" where
  "invalid_operand d p = (op_kind p = Register \<and> int (vd_register_count d) \<le> io_value p)"

definition opcode_size :: "vm_definition \<Rightarrow> opcode_spec \<Rightarrow> nat" where
  "opcode_size d c = vd_opcode_bytes d + sum_list (map op_width (oc_operands c))"

definition find_opcode :: "vm_definition \<Rightarrow> string \<Rightarrow> opcode_spec option" where
  "find_opcode d code = find (\<lambda>c. oc_code c = code) (vd_opcodes d)"

definition make_instruction :: "vm_definition \<Rightarrow> vm_image \<Rightarrow> nat list \<Rightarrow> nat \<Rightarrow> opcode_spec \<Rightarrow> instruction" where
  "make_instruction d img bytes cursor c =
     \<lparr>in_id = ''insn:'' @ to_base 10 cursor, in_offset = cursor, in_size = opcode_size d c,
      in_bytes_hex = hex_slice img cursor (cursor + opcode_size d c),
      in_opcode = hex_slice img cursor (cursor + vd_opcode_bytes d), in_mnemonic = oc_mnemonic c,
      in_operands = read_operands d img bytes (cursor + vd_opcode_bytes d) (oc_operands c),
      in_operation = oc_operation c, in_args = oc_args c,
      in_semantics_status = (if oc_operation c = OpUnknown then ''unknown'' else ''declared''), in_flow = oc_flow c\<rparr>"

record decoded =
  dc_instructions :: "instruction list"
  dc_diagnostics :: "vm_diagnostic list"
  dc_cursor :: nat
  dc_stop :: string

definition stop_at :: "nat \<Rightarrow> string \<Rightarrow> string \<Rightarrow> decoded" where
  "stop_at cursor reason message =
     \<lparr>dc_instructions = [], dc_diagnostics = [\<lparr>dg_offset = cursor, dg_code = reason, dg_message = message\<rparr>],
      dc_cursor = cursor, dc_stop = reason\<rparr>"

text \<open>
  One iteration of the decoding loop past its budget test: the reason to stop, or the
  instruction at the cursor.
\<close>

definition decode_at :: "vm_definition \<Rightarrow> vm_image \<Rightarrow> nat list \<Rightarrow> nat \<Rightarrow> decoded + instruction" where
  "decode_at d img bytes cursor =
     (if length bytes < cursor + vd_opcode_bytes d
      then Inl (stop_at cursor ''truncated_instruction'' ''Incomplete literal opcode bytes; decoding stopped.'')
      else let opcode = hex_slice img cursor (cursor + vd_opcode_bytes d) in
        case find_opcode d opcode of
          None \<Rightarrow>
            Inl (stop_at cursor ''unknown_opcode'' (''Opcode '' @ opcode @ '' has no declaration; no later bytes were guessed.''))
        | Some c \<Rightarrow>
            if length bytes < cursor + opcode_size d c
            then Inl (stop_at cursor ''truncated_instruction'' ''Declared operand bytes extend beyond the retained image.'')
            else let insn = make_instruction d img bytes cursor c in
              if list_ex (invalid_operand d) (in_operands insn)
              then Inl (stop_at cursor ''invalid_operand''
                ''A declared register operand exceeds register_count; decoding stopped before this instruction.'')
              else Inr insn)"

text \<open>The loop; the first argument is the budget left, \<open>budget - instructions.length\<close>.\<close>

fun decode_loop :: "nat \<Rightarrow> vm_definition \<Rightarrow> vm_image \<Rightarrow> nat list \<Rightarrow> nat \<Rightarrow> decoded" where
  "decode_loop left d img bytes cursor =
     (if \<not> cursor < length bytes
      then \<lparr>dc_instructions = [], dc_diagnostics = [], dc_cursor = cursor, dc_stop = ''end''\<rparr>
      else case left of
        0 \<Rightarrow> stop_at cursor ''instruction_budget'' ''Instruction budget reached; remaining bytes were not decoded.''
      | Suc rest \<Rightarrow>
          case decode_at d img bytes cursor of
            Inl stop \<Rightarrow> stop
          | Inr insn \<Rightarrow>
              let r = decode_loop rest d img bytes (cursor + in_size insn)
              in r\<lparr>dc_instructions := insn # dc_instructions r\<rparr>)"

declare decode_loop.simps [simp del]

section \<open>Edges and entries\<close>

definition targetStatus :: "instruction list \<Rightarrow> nat \<Rightarrow> nat \<Rightarrow> int option \<Rightarrow> target_status" where
  "targetStatus insns cursor image_bytes offset =
     (case offset of
        None \<Rightarrow> Unknown
      | Some k \<Rightarrow>
          if k < 0 \<or> int image_bytes \<le> k then OutOfRange
          else if nat k \<in> set (map in_offset insns) then Resolved
          else if k < int cursor then MidInstruction else Undecoded)"

definition flow_target :: "instruction \<Rightarrow> vm_error + int option" where
  "flow_target insn =
     (case fl_target (in_flow insn) of
        None \<Rightarrow> Inr None
      | Some (n, base) \<Rightarrow>
          case find (\<lambda>p. op_name p = n) (in_operands insn) of
            None \<Rightarrow> Inl UndefinedRead
          | Some p \<Rightarrow> Inr (Some (io_value p + (if base = NextRelative then int (in_offset insn + in_size insn) else 0))))"

text \<open>The targets and kinds an instruction passes to \<open>edge\<close>, in order.\<close>

definition flow_edges :: "instruction \<Rightarrow> int option \<Rightarrow> (int option \<times> string) list" where
  "flow_edges insn target =
     (let succ = Some (int (in_offset insn + in_size insn)) in
      case fl_kind (in_flow insn) of
        FlowNext \<Rightarrow> [(succ, ''fallthrough'')]
      | FlowJump \<Rightarrow> [(target, ''jump'')]
      | FlowBranch \<Rightarrow> [(target, ''branch_taken''), (succ, ''branch_not_taken'')]
      | FlowCall \<Rightarrow> [(target, ''call''), (succ, ''call_continuation'')]
      | FlowReturn \<Rightarrow> [(None, ''return'')]
      | FlowUnknown \<Rightarrow> [(None, ''unknown'')]
      | FlowHalt \<Rightarrow> [])"

definition instruction_edges :: "(int option \<Rightarrow> target_status) \<Rightarrow> instruction \<Rightarrow> vm_error + vm_edge list" where
  "instruction_edges status insn =
     bindE (flow_target insn) (\<lambda>target.
       Inr (map (\<lambda>(t, kind). \<lparr>eg_from = in_offset insn, eg_to = t, eg_kind = kind, eg_status = status t\<rparr>)
         (flow_edges insn target)))"

definition signed_text :: "int option \<Rightarrow> string" where
  "signed_text t = (case t of None \<Rightarrow> ''null'' | Some k \<Rightarrow> int_text k)"

definition edge_diagnostic :: "vm_edge \<Rightarrow> vm_diagnostic list" where
  "edge_diagnostic e =
     (if eg_status e \<noteq> Resolved \<and> eg_status e \<noteq> Unknown
      then [\<lparr>dg_offset = eg_from e, dg_code = ''target_'' @ status_text (eg_status e),
             dg_message = eg_kind e @ '' target '' @ signed_text (eg_to e) @ '' is '' @ status_text (eg_status e) @ ''.''\<rparr>]
      else [])"

definition entry_diagnostic :: "nat \<times> target_status \<Rightarrow> vm_diagnostic list" where
  "entry_diagnostic entry =
     (case entry of (offset, st) \<Rightarrow>
        if st \<noteq> Resolved
        then [\<lparr>dg_offset = offset, dg_code = ''entry_'' @ status_text st,
               dg_message = ''Declared entry '' @ to_base 10 offset @ '' is '' @ status_text st @ ''.''\<rparr>]
        else [])"

section \<open>Reachability\<close>

definition successors :: "vm_edge list \<Rightarrow> nat \<Rightarrow> nat list" where
  "successors edges x =
     map (\<lambda>e. nat (the (eg_to e))) (filter (\<lambda>e. eg_status e = Resolved \<and> eg_from e = x) edges)"

text \<open>The work list: the unread part of \<open>pending\<close>, and \<open>reachable\<close>.\<close>

function reach_loop :: "vm_edge list \<Rightarrow> nat list \<Rightarrow> nat list \<Rightarrow> nat list" where
  "reach_loop edges [] reachable = reachable"
| "reach_loop edges (x # pending) reachable =
     (if x \<in> set reachable then reach_loop edges pending reachable
      else let seen = x # reachable
           in reach_loop edges (pending @ filter (\<lambda>y. y \<notin> set seen) (successors edges x)) seen)"
  by pat_completeness auto
termination
proof (relation "measures [\<lambda>(edges, pending, reachable). card (eg_from ` set edges - set reachable),
    \<lambda>(edges, pending, reachable). length pending]", simp, simp)
  fix edges :: "vm_edge list" and x :: nat and pending reachable seen :: "nat list"
  assume new: "x \<notin> set reachable" and seen: "seen = x # reachable"
  let ?froms = "eg_from ` set edges"
  show "((edges, pending @ filter (\<lambda>y. y \<notin> set seen) (successors edges x), seen), edges, x # pending, reachable)
    \<in> measures [\<lambda>(edges, pending, reachable). card (eg_from ` set edges - set reachable),
         \<lambda>(edges, pending, reachable). length pending]"
  proof (cases "x \<in> ?froms")
    case True
    then have "?froms - set seen \<subset> ?froms - set reachable" using new seen by auto
    then have "card (?froms - set seen) < card (?froms - set reachable)" by (simp add: psubset_card_mono)
    then show ?thesis by simp
  next
    case False
    then have "successors edges x = []" by (auto simp: successors_def filter_empty_conv)
    moreover have "?froms - set seen = ?froms - set reachable" using False seen by auto
    ultimately show ?thesis by simp
  qed
qed

section \<open>Pseudocode\<close>

definition address_text :: "int \<Rightarrow> string" where
  "address_text v =
     (if v < 0 then ''-0x'' @ padStart 4 CHR ''0'' (to_base 16 (nat (- v)))
      else ''0x'' @ padStart 4 CHR ''0'' (to_base 16 (nat v)))"

text \<open>
  \<open>values[i]\<close> is \<open>undefined\<close> past the arguments or for an argument that names no operand. In
  \<open>new Map(entries)\<close> the last of several operands of a name would win.
\<close>

definition argument :: "instruction \<Rightarrow> nat \<Rightarrow> int option" where
  "argument insn i =
     (if i < length (in_args insn)
      then map_option io_value (find (\<lambda>p. op_name p = in_args insn ! i) (rev (in_operands insn))) else None)"

definition value_text :: "int option \<Rightarrow> string" where
  "value_text v = (case v of None \<Rightarrow> ''undefined'' | Some k \<Rightarrow> int_text k)"

definition register_text :: "instruction \<Rightarrow> nat \<Rightarrow> string" where
  "register_text insn i = ''r'' @ value_text (argument insn i)"

definition memory_text :: "instruction \<Rightarrow> nat \<Rightarrow> vm_error + string" where
  "memory_text insn i = (case argument insn i of None \<Rightarrow> Inl UndefinedRead | Some k \<Rightarrow> Inr (address_text k))"

definition flowTarget :: "vm_edge list \<Rightarrow> instruction \<Rightarrow> string \<Rightarrow> string" where
  "flowTarget edges insn kind =
     (case find (\<lambda>e. eg_from e = in_offset insn \<and> eg_kind e = kind) edges of
        None \<Rightarrow> ''unknown_target''
      | Some e \<Rightarrow>
          case eg_to e of
            None \<Rightarrow> ''unknown_target''
          | Some k \<Rightarrow>
              if eg_status e = Resolved then address_text k
              else ''unresolved('' @ address_text k @ '', '' @ status_text (eg_status e) @ '')'')"

definition insn_text :: "vm_edge list \<Rightarrow> instruction \<Rightarrow> vm_error + string" where
  "insn_text edges insn =
     (let reg = register_text insn; goto = flowTarget edges insn in
      case in_operation insn of
        OpUnknown \<Rightarrow> Inr (''unknown_semantics('' @ in_mnemonic insn @ '');'')
      | Nop \<Rightarrow> Inr ''nop;''
      | StackConst \<Rightarrow> Inr (''push('' @ value_text (argument insn 0) @ '');'')
      | StackAdd \<Rightarrow> Inr ''right = pop(); left = pop(); push(add(left, right));''
      | StackDrop \<Rightarrow> Inr ''pop();''
      | StackDup \<Rightarrow> Inr ''push(peek());''
      | RegisterConst \<Rightarrow> Inr (reg 0 @ '' = '' @ value_text (argument insn 1) @ '';'')
      | RegisterMove \<Rightarrow> Inr (reg 0 @ '' = '' @ reg 1 @ '';'')
      | RegisterAdd \<Rightarrow> Inr (reg 0 @ '' = add('' @ reg 1 @ '', '' @ reg 2 @ '');'')
      | Load \<Rightarrow> bindE (memory_text insn 1) (\<lambda>a. Inr (reg 0 @ '' = memory['' @ a @ ''];''))
      | Store \<Rightarrow> bindE (memory_text insn 0) (\<lambda>a. Inr (''memory['' @ a @ ''] = '' @ reg 1 @ '';''))
      | Jump \<Rightarrow> Inr (''goto '' @ goto ''jump'' @ '';'')
      | BranchZero \<Rightarrow>
          Inr (''if ('' @ reg 0 @ '' == 0) goto '' @ goto ''branch_taken'' @ ''; else goto '' @ goto ''branch_not_taken'' @ '';'')
      | StackBranchZero \<Rightarrow>
          Inr (''if (pop() == 0) goto '' @ goto ''branch_taken'' @ ''; else goto '' @ goto ''branch_not_taken'' @ '';'')
      | Call \<Rightarrow> Inr (''call '' @ goto ''call'' @ ''; assumed continuation '' @ goto ''call_continuation'' @ '';'')
      | Return \<Rightarrow> Inr ''return unknown_target;''
      | Halt \<Rightarrow> Inr ''halt;'')"

definition flow_name :: "flow_kind \<Rightarrow> string" where
  "flow_name k = (case find (\<lambda>e. snd e = k) flowKinds of Some e \<Rightarrow> fst e | None \<Rightarrow> [])"

definition emit :: "instruction \<Rightarrow> string \<Rightarrow> string \<Rightarrow> pseudo" where
  "emit insn status text =
     \<lparr>ps_instruction_id = in_id insn, ps_offset = in_offset insn, ps_text = text, ps_status = status\<rparr>"

definition instruction_pseudocode :: "vm_edge list \<Rightarrow> instruction \<Rightarrow> vm_error + pseudo list" where
  "instruction_pseudocode edges insn =
     bindE (insn_text edges insn) (\<lambda>text.
       Inr (emit insn (in_semantics_status insn) text #
         (if in_operation insn = OpUnknown \<and> fl_kind (in_flow insn) \<noteq> FlowUnknown
          then [emit insn ''declared'' (''declared flow: '' @ flow_name (fl_kind (in_flow insn)) @ '';'')] else [])))"

section \<open>The analysis\<close>

record cfg_node =
  cn_instruction_id :: string
  cn_offset :: nat
  cn_reachable :: bool

record vm_coverage =
  cv_decoded_bytes :: nat
  cv_total_bytes :: nat
  cv_instruction_count :: nat
  cv_stop_reason :: string
  cv_undecoded_bytes :: nat

text \<open>The SHA-256 digests of the inputs; a source has one only when it was given as text.\<close>

record vm_digests =
  dg_definition :: string
  dg_definition_source :: "string option"
  dg_image :: string
  dg_image_source :: "string option"

record vm_analysis =
  an_definition :: vm_definition
  an_image :: vm_image
  an_digests :: vm_digests
  an_instructions :: "instruction list"
  an_nodes :: "cfg_node list"
  an_edges :: "vm_edge list"
  an_entries :: "(nat \<times> target_status) list"
  an_coverage :: vm_coverage
  an_pseudocode :: "pseudo list"
  an_diagnostics :: "vm_diagnostic list"

definition entry_offsets_of :: "(nat \<times> target_status) list \<Rightarrow> nat list" where
  "entry_offsets_of entries = map fst (filter (\<lambda>e. snd e = Resolved) entries)"

text \<open>
  A digest throws where WebCrypto is unavailable: \<open>json_sha256\<close> of the JSON text of a value,
  \<open>text_sha256\<close> of a source text, \<open>sha256\<close> of bytes.
\<close>

definition source_digest :: "(string \<Rightarrow> vm_error + string) \<Rightarrow> js \<Rightarrow> vm_error + string option" where
  "source_digest text_sha256 v = (case v of Str s \<Rightarrow> bindE (text_sha256 s) (\<lambda>h. Inr (Some h)) | _ \<Rightarrow> Inr None)"

definition input_digests ::
    "(js \<Rightarrow> vm_error + string) \<Rightarrow> (string \<Rightarrow> vm_error + string) \<Rightarrow> (nat list \<Rightarrow> vm_error + string) \<Rightarrow>
     js \<Rightarrow> js \<Rightarrow> vm_definition \<Rightarrow> vm_image \<Rightarrow> vm_error + vm_digests" where
  "input_digests json_sha256 text_sha256 sha256 definition_input image_input d img =
     bindE (json_sha256 (canonical (vd_value d))) (\<lambda>canonical_digest.
     bindE (source_digest text_sha256 definition_input) (\<lambda>definition_digest.
     bindE (sha256 (hex_bytes (vi_bytes_hex img))) (\<lambda>bytes_digest.
     bindE (source_digest text_sha256 image_input) (\<lambda>image_digest.
       Inr \<lparr>dg_definition = canonical_digest, dg_definition_source = definition_digest, dg_image = bytes_digest,
            dg_image_source = image_digest\<rparr>))))"

definition analyze_image :: "vm_digests \<Rightarrow> vm_definition \<Rightarrow> vm_image \<Rightarrow> nat \<Rightarrow> vm_error + vm_analysis" where
  "analyze_image dg d img budget =
     (let bytes = hex_bytes (vi_bytes_hex img);
          dec = decode_loop budget d img bytes 0;
          insns = dc_instructions dec;
          status = targetStatus insns (dc_cursor dec) (length bytes)
      in bindE (mapE (instruction_edges status) insns) (\<lambda>edge_lists.
        let edges = concat edge_lists;
            entries = map (\<lambda>n. (n, status (Some (int n)))) (vi_entry_offsets img);
            reachable = reach_loop edges (entry_offsets_of entries) []
        in bindE (mapE (instruction_pseudocode edges) insns) (\<lambda>pseudocode.
          Inr \<lparr>an_definition = d, an_image = img, an_digests = dg, an_instructions = insns,
               an_nodes = map (\<lambda>i. \<lparr>cn_instruction_id = in_id i, cn_offset = in_offset i,
                 cn_reachable = in_offset i \<in> set reachable\<rparr>) insns,
               an_edges = edges, an_entries = entries,
               an_coverage = \<lparr>cv_decoded_bytes = dc_cursor dec, cv_total_bytes = length bytes,
                 cv_instruction_count = length insns, cv_stop_reason = dc_stop dec,
                 cv_undecoded_bytes = length bytes - dc_cursor dec\<rparr>,
               an_pseudocode = concat pseudocode,
               an_diagnostics =
                 dc_diagnostics dec @ concat (map edge_diagnostic edges) @ concat (map entry_diagnostic entries)\<rparr>)))"

definition settings_ok :: "js \<Rightarrow> bool" where
  "settings_ok s =
     (case s of
        Obj kvs \<Rightarrow>
          list_all (\<lambda>(k, v). k = ''max_instructions'') kvs \<and>
          (has_own s ''max_instructions'' \<longrightarrow> integer (getp s ''max_instructions'') 1 (int INSTRUCTIONS))
      | _ \<Rightarrow> False)"

definition instruction_budget :: "js \<Rightarrow> nat" where
  "instruction_budget s = (if has_own s ''max_instructions'' then nat_of (getp s ''max_instructions'') else INSTRUCTIONS)"

definition analyze ::
    "(string \<Rightarrow> vm_error + js) \<Rightarrow> (js \<Rightarrow> vm_error + string) \<Rightarrow> (string \<Rightarrow> vm_error + string) \<Rightarrow> (nat list \<Rightarrow> vm_error + string) \<Rightarrow> js \<Rightarrow> js \<Rightarrow> js \<Rightarrow> vm_error + vm_analysis" where
  "analyze parse json_sha256 text_sha256 sha256 definition_input image_input options =
     bindE (parseDefinition parse definition_input) (\<lambda>d.
     bindE (parseImage parse image_input) (\<lambda>img.
     bindE (vm_document parse options) (\<lambda>settings.
       if \<not> settings_ok settings
       then Inl (Refused ''max_instructions must be an exact integer from 1 to 4096.'')
       else if vi_definition_id img \<noteq> vd_id d
       then Inl (Refused ''Bytecode image and definition IDs disagree.'')
       else bindE (input_digests json_sha256 text_sha256 sha256 definition_input image_input d img) (\<lambda>dg.
         analyze_image dg d img (instruction_budget settings)))))"

section \<open>Decoding covers a prefix\<close>

lemma length_hex_bytes: "length (hex_bytes s) = length s div 2"
  by (induction s rule: hex_bytes.induct) auto

text \<open>Consecutive instructions from one offset to another.\<close>

fun insn_tiles :: "nat \<Rightarrow> instruction list \<Rightarrow> nat \<Rightarrow> bool" where
  "insn_tiles c [] e = (e = c)"
| "insn_tiles c (i # is) e = (in_offset i = c \<and> insn_tiles (c + in_size i) is e)"

definition decodes :: "vm_definition \<Rightarrow> vm_image \<Rightarrow> nat list \<Rightarrow> instruction \<Rightarrow> bool" where
  "decodes d img bytes i =
     (\<exists>c \<in> set (vd_opcodes d). oc_code c = hex_slice img (in_offset i) (in_offset i + vd_opcode_bytes d) \<and>
        in_offset i + opcode_size d c \<le> length bytes \<and> i = make_instruction d img bytes (in_offset i) c \<and>
        \<not> list_ex (invalid_operand d) (in_operands i))"

lemma decode_at_Inr:
  assumes "decode_at d img bytes cursor = Inr i"
  shows "decodes d img bytes i \<and> in_offset i = cursor \<and> cursor + in_size i \<le> length bytes"
proof -
  obtain c where c: "find_opcode d (hex_slice img cursor (cursor + vd_opcode_bytes d)) = Some c"
    "cursor + opcode_size d c \<le> length bytes" "i = make_instruction d img bytes cursor c"
    "\<not> list_ex (invalid_operand d) (in_operands i)"
    using assms by (auto simp: decode_at_def Let_def split: if_splits option.splits)
  have "c \<in> set (vd_opcodes d)" "oc_code c = hex_slice img cursor (cursor + vd_opcode_bytes d)"
    using c(1) by (auto simp: find_opcode_def find_Some_iff)
  then show ?thesis using c by (auto simp: decodes_def make_instruction_def)
qed

lemma decode_at_Inl:
  assumes "decode_at d img bytes cursor = Inl r"
  shows "dc_instructions r = [] \<and> dc_cursor r = cursor \<and> dc_stop r \<noteq> ''end'' \<and> length (dc_diagnostics r) = 1"
  using assms by (auto simp: decode_at_def stop_at_def Let_def split: if_splits option.splits)

lemma decode_loop_correct:
  assumes "cursor \<le> length bytes"
  shows "insn_tiles cursor (dc_instructions (decode_loop left d img bytes cursor)) (dc_cursor (decode_loop left d img bytes cursor)) \<and>
    dc_cursor (decode_loop left d img bytes cursor) \<le> length bytes \<and>
    (\<forall>i \<in> set (dc_instructions (decode_loop left d img bytes cursor)). decodes d img bytes i) \<and>
    length (dc_instructions (decode_loop left d img bytes cursor)) \<le> left \<and>
    (dc_stop (decode_loop left d img bytes cursor) = ''end'' \<longleftrightarrow>
      dc_cursor (decode_loop left d img bytes cursor) = length bytes) \<and>
    length (dc_diagnostics (decode_loop left d img bytes cursor)) \<le> 1"
  using assms
proof (induction left arbitrary: cursor)
  case 0
  then show ?case by (auto simp: decode_loop.simps stop_at_def)
next
  case (Suc left)
  show ?case
  proof (cases "cursor < length bytes")
    case True
    show ?thesis
    proof (cases "decode_at d img bytes cursor")
      case (Inl r)
      then show ?thesis using True decode_at_Inl [OF Inl] by (simp add: decode_loop.simps [of "Suc left"])
    next
      case (Inr i)
      note step = decode_at_Inr [OF Inr]
      have "cursor + in_size i \<le> length bytes" using step by simp
      from Suc.IH [OF this] show ?thesis
        using True Inr step by (simp add: decode_loop.simps [of "Suc left"] Let_def)
    qed
  qed (use Suc.prems in \<open>simp add: decode_loop.simps\<close>)
qed

lemma insn_tiles_le: "insn_tiles c is e \<Longrightarrow> c \<le> e"
  by (induction "is" arbitrary: c) (auto dest: add_leD1)

lemma hex_slice_append:
  "i \<le> j \<Longrightarrow> j \<le> k \<Longrightarrow> hex_slice img i j @ hex_slice img j k = hex_slice img i k"
  by (simp add: hex_slice_def slice_append_slice)

lemma insn_tiles_bytes:
  assumes "insn_tiles c is e" "\<forall>i \<in> set is. in_bytes_hex i = hex_slice img (in_offset i) (in_offset i + in_size i)"
  shows "concat (map in_bytes_hex is) = hex_slice img c e"
  using assms
proof (induction "is" arbitrary: c)
  case (Cons i "is")
  then have c: "in_offset i = c" "in_bytes_hex i = hex_slice img c (c + in_size i)" "insn_tiles (c + in_size i) is e" by auto
  then have "concat (map in_bytes_hex is) = hex_slice img (c + in_size i) e" using Cons by simp
  then show ?case using insn_tiles_le [OF c(3)] c(2) by (simp add: hex_slice_append)
qed (simp add: hex_slice_def)

lemma decodes_bytes: "decodes d img bytes i \<Longrightarrow> in_bytes_hex i = hex_slice img (in_offset i) (in_offset i + in_size i)"
proof -
  assume "decodes d img bytes i"
  then obtain c where c: "i = make_instruction d img bytes (in_offset i) c" by (auto simp: decodes_def)
  have "in_size i = opcode_size d c" by (subst c) (simp add: make_instruction_def)
  moreover have "in_bytes_hex i = hex_slice img (in_offset i) (in_offset i + opcode_size d c)"
    by (subst c) (simp add: make_instruction_def)
  ultimately show ?thesis by simp
qed

section \<open>Operands\<close>

lemma read_at_simps [simp]:
  "op_name (read_at d img bytes k p) = op_name p" "op_width (read_at d img bytes k p) = op_width p"
  "op_signed (read_at d img bytes k p) = op_signed p" "op_kind (read_at d img bytes k p) = op_kind p"
  "io_offset (read_at d img bytes k p) = k"
  "io_value (read_at d img bytes k p) = operand_value (vd_little d) bytes k p"
  by (simp_all add: read_at_def operand_spec.defs)

lemma read_operands_fields:
  "map op_name (read_operands d img bytes k ps) = map op_name ps"
  "map op_kind (read_operands d img bytes k ps) = map op_kind ps"
  by (induction ps arbitrary: k) auto

lemma read_operands_at:
  "q \<in> set (read_operands d img bytes k ps) \<Longrightarrow>
     \<exists>p \<in> set ps. \<exists>j. k \<le> j \<and> j + op_width p \<le> k + sum_list (map op_width ps) \<and> q = read_at d img bytes j p"
proof (induction ps arbitrary: k)
  case (Cons p ps)
  show ?case
  proof (cases "q = read_at d img bytes k p")
    case True
    then show ?thesis by (intro bexI [of _ p] exI [of _ k]) auto
  next
    case False
    then obtain r j where "r \<in> set ps" "k + op_width p \<le> j"
      "j + op_width r \<le> k + op_width p + sum_list (map op_width ps)" "q = read_at d img bytes j r"
      using Cons.IH [of "k + op_width p"] Cons.prems by auto
    then show ?thesis by (intro bexI [of _ r] exI [of _ j]) auto
  qed
qed simp

text \<open>The bytes of a number in two's complement, least significant position first or last.\<close>

definition byte_at :: "int \<Rightarrow> nat \<Rightarrow> nat" where
  "byte_at v k = nat (v div 256 ^ k mod 256)"

definition encode_operand :: "bool \<Rightarrow> nat \<Rightarrow> int \<Rightarrow> nat list" where
  "encode_operand little width v = map (\<lambda>i. byte_at v (if little then i else width - i - 1)) [0..<width]"

lemma digits_sum:
  fixes f :: "nat \<Rightarrow> int"
  assumes "\<And>k. k < w \<Longrightarrow> 0 \<le> f k \<and> f k < 256" "j < w"
  shows "(\<Sum>k<w. f k * 256 ^ k) div 256 ^ j mod 256 = f j"
  using assms
proof (induction w arbitrary: f j)
  case (Suc w)
  let ?rest = "\<Sum>k<w. f (Suc k) * 256 ^ k"
  have split: "(\<Sum>k<Suc w. f k * 256 ^ k) = f 0 + 256 * ?rest"
    by (subst sum.lessThan_Suc_shift) (simp add: sum_distrib_left mult.assoc mult.left_commute)
  have f0: "0 \<le> f 0" "f 0 < 256" using Suc.prems(1) [of 0] by auto
  show ?case
  proof (cases j)
    case 0
    have "(f 0 + 256 * ?rest) mod 256 = f 0" using f0 by simp
    then show ?thesis unfolding split 0 by simp
  next
    case (Suc i)
    have "(f 0 + 256 * ?rest) div 256 = ?rest" using f0 by simp
    moreover have "(\<Sum>k<w. f (Suc k) * 256 ^ k) div 256 ^ i mod 256 = f (Suc i)"
      using Suc.IH [of "\<lambda>k. f (Suc k)" i] Suc.prems Suc by simp
    ultimately show ?thesis unfolding split Suc by (simp add: zdiv_zmult2_eq)
  qed
qed simp

lemma digits_bound:
  fixes f :: "nat \<Rightarrow> int"
  assumes "\<And>k. k < w \<Longrightarrow> 0 \<le> f k \<and> f k < 256"
  shows "0 \<le> (\<Sum>k<w. f k * 256 ^ k) \<and> (\<Sum>k<w. f k * 256 ^ k) < 256 ^ w"
  using assms
proof (induction w)
  case (Suc w)
  then have ih: "0 \<le> (\<Sum>k<w. f k * 256 ^ k)" "(\<Sum>k<w. f k * 256 ^ k) < 256 ^ w" by auto
  have "0 \<le> f w" "f w \<le> 255" using Suc.prems [of w] by auto
  then have "0 \<le> f w * 256 ^ w" "f w * 256 ^ w \<le> 255 * (256 :: int) ^ w" by (simp_all add: mult_right_mono)
  then show ?case using ih by (simp, linarith)
qed simp

lemma byte_at_wrap: "k < w \<Longrightarrow> byte_at (v - 256 ^ w) k = byte_at v k"
proof -
  assume k: "k < w"
  then obtain m where w: "w = Suc (k + m)" using less_iff_Suc_add by auto
  have "(256 :: int) ^ w = 256 ^ k * (256 * 256 ^ m)" by (simp add: w power_add)
  then have "(v - 256 ^ w) div 256 ^ k = v div 256 ^ k - 256 * 256 ^ m"
    using div_mult_self2 [of "256 ^ k" v "- (256 * 256 ^ m)"] by simp
  moreover have "(v div 256 ^ k - 256 * 256 ^ m) mod 256 = v div 256 ^ k mod 256"
    using mod_mult_self2 [of "v div 256 ^ k" 256 "- (256 ^ m)"] by simp
  ultimately show ?thesis by (simp add: byte_at_def)
qed

definition place :: "bool \<Rightarrow> nat \<Rightarrow> nat \<Rightarrow> nat" where
  "place little width k = (if little then k else width - k - 1)"

lemma raw_value_sum:
  "int (raw_value little bytes pos w) = (\<Sum>k<w. int (bytes ! (pos + place little w k)) * 256 ^ k)"
proof -
  have p: "(2 :: nat) ^ (8 * n) = 256 ^ n" for n by (simp add: power_mult)
  have "raw_value little bytes pos w = (\<Sum>i<w. bytes ! (pos + i) * 256 ^ (place little w i))"
    by (simp add: raw_value_def interv_sum_list_conv_sum_set_nat atLeast0LessThan p place_def)
  also have "\<dots> = (\<Sum>k<w. bytes ! (pos + place little w k) * 256 ^ k)"
  proof (cases little)
    case False
    have "(\<Sum>i<w. bytes ! (pos + i) * 256 ^ (w - Suc i)) =
        (\<Sum>i<w. (\<lambda>k. bytes ! (pos + (w - Suc k)) * 256 ^ k) (w - Suc i))"
      by (rule sum.cong) auto
    also have "\<dots> = (\<Sum>k<w. bytes ! (pos + (w - Suc k)) * 256 ^ k)" by (rule sum.nat_diff_reindex)
    finally show ?thesis using False by (simp add: place_def)
  qed (simp add: place_def)
  finally show ?thesis by simp
qed

lemma operand_value_encodes:
  assumes "\<forall>b \<in> set bytes. b < 256" "pos + op_width p \<le> length bytes"
  shows "encode_operand little (op_width p) (operand_value little bytes pos p) = slice pos (pos + op_width p) bytes"
proof (rule nth_equalityI)
  let ?w = "op_width p"
  let ?f = "\<lambda>k. int (bytes ! (pos + place little ?w k))"
  show "length (encode_operand little ?w (operand_value little bytes pos p)) = length (slice pos (pos + ?w) bytes)"
    using assms(2) by (simp add: encode_operand_def)
  fix i assume "i < length (encode_operand little ?w (operand_value little bytes pos p))"
  then have i: "i < ?w" by (simp add: encode_operand_def)
  let ?k = "if little then i else ?w - i - 1"
  have k: "?k < ?w" "place little ?w ?k = i" using i by (auto simp: place_def)
  have digit: "0 \<le> ?f j \<and> ?f j < 256" if "j < ?w" for j
  proof -
    have "place little ?w j < ?w" using that by (auto simp: place_def)
    then have "bytes ! (pos + place little ?w j) < 256" using assms by simp
    then show ?thesis by simp
  qed
  have raw: "byte_at (int (raw_value little bytes pos ?w)) ?k = bytes ! (pos + i)"
    unfolding byte_at_def raw_value_sum using digits_sum [of ?w ?f ?k] digit k by simp
  have w: "(2 :: int) ^ (?w * 8) = 256 ^ ?w" by (simp add: mult.commute [of ?w] power_mult)
  define v where "v = int (raw_value little bytes pos ?w)"
  have "operand_value little bytes pos p \<in> {v, v - 256 ^ ?w}"
    by (auto simp: operand_value_def v_def Let_def w)
  then have "byte_at (operand_value little bytes pos p) ?k = bytes ! (pos + i)"
    using raw byte_at_wrap [OF k(1), of v] unfolding v_def [symmetric] by (metis empty_iff insert_iff)
  then show "encode_operand little ?w (operand_value little bytes pos p) ! i = slice pos (pos + ?w) bytes ! i"
    using i assms(2) by (cases little) (simp_all add: encode_operand_def slice_nth)
qed

lemma operand_value_range:
  assumes "\<forall>b \<in> set bytes. b < 256" "pos + op_width p \<le> length bytes" "0 < op_width p"
  shows "if op_signed p
    then - (2 ^ (8 * op_width p - 1)) \<le> operand_value little bytes pos p \<and>
      operand_value little bytes pos p < 2 ^ (8 * op_width p - 1)
    else 0 \<le> operand_value little bytes pos p \<and> operand_value little bytes pos p < 2 ^ (8 * op_width p)"
proof -
  let ?w = "op_width p"
  let ?f = "\<lambda>k. int (bytes ! (pos + place little ?w k))"
  have digit: "0 \<le> ?f j \<and> ?f j < 256" if "j < ?w" for j
  proof -
    have "place little ?w j < ?w" using that by (auto simp: place_def)
    then have "bytes ! (pos + place little ?w j) < 256" using assms by simp
    then show ?thesis by simp
  qed
  have w: "(2 :: int) ^ (8 * ?w) = 256 ^ ?w" by (simp add: power_mult)
  have "8 * ?w = Suc (8 * ?w - 1)" using assms(3) by simp
  then have half: "(2 :: int) ^ (8 * ?w) = 2 * 2 ^ (8 * ?w - 1)" by (metis power_Suc)
  have "0 \<le> int (raw_value little bytes pos ?w)" "int (raw_value little bytes pos ?w) < 2 ^ (8 * ?w)"
    unfolding raw_value_sum w using digits_bound [of ?w ?f] digit by auto
  then show ?thesis using half by (simp add: operand_value_def Let_def mult.commute [of ?w])
qed

lemma hex_digit_value_less: "lower_hex c \<Longrightarrow> hex_digit_value c < 16"
  by (auto simp: lower_hex_def digit_def between_def hex_digit_value_def Let_def)

lemma hex_bytes_less: "list_all lower_hex s \<Longrightarrow> b \<in> set (hex_bytes s) \<Longrightarrow> b < 256"
proof (induction s rule: hex_bytes.induct)
  case (1 a c s)
  then show ?case using hex_digit_value_less [of a] hex_digit_value_less [of c] by auto
qed auto

end
