(* ===== verification/VmStaticClaims.thy ===== *)
theory VmStaticClaims
  imports VmStatic
begin

text \<open>
  What an analysis of \<open>VmStatic\<close> establishes: decoding, operand values, limits, reachability
  and that accepted inputs always have an analysis.
\<close>

section \<open>Parts of an analysis\<close>

lemma settings_budget: "settings_ok s \<Longrightarrow> instruction_budget s \<le> INSTRUCTIONS"
  using integer_nat(3) [of "getp s ''max_instructions''" 1 INSTRUCTIONS]
  by (cases s) (auto simp: settings_ok_def instruction_budget_def)

lemma analyzeE:
  assumes "analyze parse json_sha256 text_sha256 sha256 v w options = Inr a"
  obtains d img s dg where "parseDefinition parse v = Inr d" "parseImage parse w = Inr img"
    "vm_document parse options = Inr s" "settings_ok s" "vi_definition_id img = vd_id d"
    "input_digests json_sha256 text_sha256 sha256 v w d img = Inr dg" "analyze_image dg d img (instruction_budget s) = Inr a"
    "wf_definition d" "wf_image img" "instruction_budget s \<le> INSTRUCTIONS"
  using assms settings_budget parseDefinition_wf [of parse v] parseImage_wf [of parse w]
  by (auto simp: analyze_def result_simps split: if_splits)

lemma analyze_imageE:
  assumes "analyze_image dg d img budget = Inr a"
  obtains dec edge_lists texts where
    "dec = decode_loop budget d img (hex_bytes (vi_bytes_hex img)) 0"
    "an_definition a = d" "an_image a = img" "an_instructions a = dc_instructions dec"
    "mapE (instruction_edges (targetStatus (dc_instructions dec) (dc_cursor dec) (length (hex_bytes (vi_bytes_hex img)))))
       (dc_instructions dec) = Inr edge_lists"
    "an_edges a = concat edge_lists"
    "an_entries a = map (\<lambda>n. (n, targetStatus (dc_instructions dec) (dc_cursor dec)
       (length (hex_bytes (vi_bytes_hex img))) (Some (int n)))) (vi_entry_offsets img)"
    "an_nodes a = map (\<lambda>i. \<lparr>cn_instruction_id = in_id i, cn_offset = in_offset i,
       cn_reachable = in_offset i \<in> set (reach_loop (an_edges a) (entry_offsets_of (an_entries a)) [])\<rparr>) (dc_instructions dec)"
    "mapE (instruction_pseudocode (an_edges a)) (dc_instructions dec) = Inr texts" "an_pseudocode a = concat texts"
    "an_coverage a = \<lparr>cv_decoded_bytes = dc_cursor dec, cv_total_bytes = length (hex_bytes (vi_bytes_hex img)),
       cv_instruction_count = length (dc_instructions dec), cv_stop_reason = dc_stop dec,
       cv_undecoded_bytes = length (hex_bytes (vi_bytes_hex img)) - dc_cursor dec\<rparr>"
    "an_diagnostics a = dc_diagnostics dec @ concat (map edge_diagnostic (an_edges a)) @
       concat (map entry_diagnostic (an_entries a))"
  using assms by (auto simp: analyze_image_def Let_def result_simps)

lemma decode_image:
  fixes budget d img
  defines "dec \<equiv> decode_loop budget d img (hex_bytes (vi_bytes_hex img)) 0"
  shows "insn_tiles 0 (dc_instructions dec) (dc_cursor dec)" "dc_cursor dec \<le> length (hex_bytes (vi_bytes_hex img))"
    "\<forall>i \<in> set (dc_instructions dec). decodes d img (hex_bytes (vi_bytes_hex img)) i"
    "length (dc_instructions dec) \<le> budget"
    "dc_stop dec = ''end'' \<longleftrightarrow> dc_cursor dec = length (hex_bytes (vi_bytes_hex img))"
    "length (dc_diagnostics dec) \<le> 1"
  unfolding dec_def using decode_loop_correct [of 0 "hex_bytes (vi_bytes_hex img)" budget d img] by auto

section \<open>Decoding\<close>

text \<open>How an instruction renders the declaration it was decoded from.\<close>

definition declared_as :: "opcode_spec \<Rightarrow> instruction \<Rightarrow> bool" where
  "declared_as c i =
     (in_opcode i = oc_code c \<and> in_mnemonic i = oc_mnemonic c \<and> in_operation i = oc_operation c \<and>
      in_args i = oc_args c \<and> in_flow i = oc_flow c \<and>
      map op_name (in_operands i) = map op_name (oc_operands c) \<and>
      map op_kind (in_operands i) = map op_kind (oc_operands c))"

lemma decodes_declared:
  assumes "decodes d img bytes i"
  obtains c where "c \<in> set (vd_opcodes d)" "declared_as c i" "in_size i = opcode_size d c"
    "in_operands i = read_operands d img bytes (in_offset i + vd_opcode_bytes d) (oc_operands c)"
    "in_offset i + opcode_size d c \<le> length bytes"
proof -
  from assms obtain c where c: "c \<in> set (vd_opcodes d)"
    "oc_code c = hex_slice img (in_offset i) (in_offset i + vd_opcode_bytes d)"
    "in_offset i + opcode_size d c \<le> length bytes" "i = make_instruction d img bytes (in_offset i) c"
    by (auto simp: decodes_def)
  have f: "in_opcode i = oc_code c" "in_mnemonic i = oc_mnemonic c" "in_operation i = oc_operation c"
    "in_args i = oc_args c" "in_flow i = oc_flow c" "in_size i = opcode_size d c"
    "in_operands i = read_operands d img bytes (in_offset i + vd_opcode_bytes d) (oc_operands c)"
    by (subst c(4), simp add: make_instruction_def c(2))+
  show ?thesis by (rule that [of c]) (use c f in \<open>simp_all add: declared_as_def read_operands_fields\<close>)
qed


section \<open>Operand values\<close>

text \<open>
  C27. Operand values are read exactly: every operand of an analysis encodes, in the declared
  byte order and two's complement, to the bytes at its offset, lies inside its instruction,
  and its value is in the range of its width and sign, a register number within the bank.
\<close>

theorem operands_roundtrip:
  assumes "analyze parse json_sha256 text_sha256 sha256 v w options = Inr a" "i \<in> set (an_instructions a)" "p \<in> set (in_operands i)"
  shows "encode_operand (vd_little (an_definition a)) (op_width p) (io_value p) =
      slice (io_offset p) (io_offset p + op_width p) (hex_bytes (vi_bytes_hex (an_image a))) \<and>
    in_offset i < io_offset p \<and> io_offset p + op_width p \<le> in_offset i + in_size i \<and>
    (if op_signed p
     then - (2 ^ (8 * op_width p - 1)) \<le> io_value p \<and> io_value p < 2 ^ (8 * op_width p - 1)
     else 0 \<le> io_value p \<and> io_value p < 2 ^ (8 * op_width p)) \<and>
    (op_kind p = Register \<longrightarrow> 0 \<le> io_value p \<and> io_value p < int (vd_register_count (an_definition a)))"
proof -
  obtain d img s dg where a: "analyze_image dg d img (instruction_budget s) = Inr a"
    and d: "wf_definition d" and img: "wf_image img"
    using assms(1) by (elim analyzeE)
  obtain dec where dec: "dec = decode_loop (instruction_budget s) d img (hex_bytes (vi_bytes_hex img)) 0"
    and parts: "an_definition a = d" "an_image a = img" "an_instructions a = dc_instructions dec"
    using a by (elim analyze_imageE)
  let ?bytes = "hex_bytes (vi_bytes_hex img)"
  have i: "decodes d img ?bytes i"
    using decode_image(3) [of "instruction_budget s" d img] assms(2) by (simp add: parts dec)
  obtain c where c: "c \<in> set (vd_opcodes d)" "in_size i = opcode_size d c"
    "in_operands i = read_operands d img ?bytes (in_offset i + vd_opcode_bytes d) (oc_operands c)"
    "in_offset i + opcode_size d c \<le> length ?bytes"
    using i by (elim decodes_declared)
  obtain q j where q: "q \<in> set (oc_operands c)" "in_offset i + vd_opcode_bytes d \<le> j"
    "j + op_width q \<le> in_offset i + opcode_size d c" "p = read_at d img ?bytes j q"
    using read_operands_at [OF assms(3) [unfolded c(3)]] unfolding opcode_size_def add.assoc [symmetric] by blast
  have "wf_operand (vd_register_count d) q"
    using d c(1) q(1) by (auto simp: wf_definition_def list_all_iff wf_opcode_def)
  then have wq: "0 < op_width q" "op_kind q = Register \<Longrightarrow> \<not> op_signed q" by (auto simp: wf_operand_def)
  have ob: "0 < vd_opcode_bytes d" using d by (auto simp: wf_definition_def)
  have bytes: "\<forall>b \<in> set ?bytes. b < 256" using img hex_bytes_less by (auto simp: wf_image_def)
  have end_q: "j + op_width q \<le> length ?bytes" using q(3) c(4) by simp
  have valid: "\<not> invalid_operand d p"
    using i assms(3) by (auto simp: decodes_def list_ex_iff)
  note range = operand_value_range [OF bytes end_q wq(1), of "vd_little d"]
  show ?thesis
    using operand_value_encodes [OF bytes end_q, of "vd_little d"] range q(2,3) ob valid wq(2)
    by (cases "op_signed q") (auto simp: parts q(4) c(2) invalid_operand_def)
qed

section \<open>Limits\<close>

lemma length_concat_le: "\<forall>xs \<in> set xss. length xs \<le> k \<Longrightarrow> length (concat xss) \<le> k * length xss"
  by (induction xss) auto

lemma length_concat_map_le: "(\<And>x. x \<in> set xs \<Longrightarrow> length (f x) \<le> k) \<Longrightarrow> length (concat (map f xs)) \<le> k * length xs"
  using length_concat_le [of "map f xs" k] by simp

lemma mapE_lengths:
  assumes "mapE f xs = Inr ys" "\<And>x y. f x = Inr y \<Longrightarrow> length y \<le> k"
  shows "length (concat ys) \<le> k * length xs"
proof -
  have "\<forall>y \<in> set ys. length y \<le> k" using mapE_set [OF assms(1)] assms(2) by blast
  from length_concat_le [OF this] show ?thesis by (simp add: mapE_length [OF assms(1)])
qed

lemma instruction_edges_le: "instruction_edges status i = Inr es \<Longrightarrow> length es \<le> 2"
  by (cases "fl_kind (in_flow i)") (auto simp: instruction_edges_def flow_edges_def Let_def result_simps)

lemma instruction_pseudocode_le: "instruction_pseudocode edges i = Inr ps \<Longrightarrow> length ps \<le> 2"
  by (auto simp: instruction_pseudocode_def result_simps split: if_splits)

text \<open>
  The declared limits are exactly sufficient: no analysis has more than 4096 instructions
  and nodes, 8192 edges, 8192 lines of pseudocode or 8257 diagnostics, which is one stop
  reason, one per edge and one per entry.
\<close>

theorem analysis_within_limits:
  assumes "analyze parse json_sha256 text_sha256 sha256 v w options = Inr a"
  shows "length (an_instructions a) \<le> INSTRUCTIONS \<and> length (an_nodes a) \<le> INSTRUCTIONS \<and>
    length (an_edges a) \<le> EDGES \<and> length (an_pseudocode a) \<le> PSEUDOCODE \<and>
    length (an_entries a) \<le> ENTRIES \<and> length (an_diagnostics a) \<le> DIAGNOSTICS"
proof -
  obtain d img s dg where a: "analyze_image dg d img (instruction_budget s) = Inr a"
    and img: "wf_image img" and s: "instruction_budget s \<le> INSTRUCTIONS"
    using assms by (elim analyzeE)
  obtain dec edge_lists texts where dec: "dec = decode_loop (instruction_budget s) d img (hex_bytes (vi_bytes_hex img)) 0"
    and insns: "an_instructions a = dc_instructions dec"
    and el: "mapE (instruction_edges (targetStatus (dc_instructions dec) (dc_cursor dec)
        (length (hex_bytes (vi_bytes_hex img))))) (dc_instructions dec) = Inr edge_lists"
    and edges: "an_edges a = concat edge_lists"
    and entries: "an_entries a = map (\<lambda>n. (n, targetStatus (dc_instructions dec) (dc_cursor dec)
       (length (hex_bytes (vi_bytes_hex img))) (Some (int n)))) (vi_entry_offsets img)"
    and nodes: "an_nodes a = map (\<lambda>i. \<lparr>cn_instruction_id = in_id i, cn_offset = in_offset i,
       cn_reachable = in_offset i \<in> set (reach_loop (an_edges a) (entry_offsets_of (an_entries a)) [])\<rparr>) (dc_instructions dec)"
    and tx: "mapE (instruction_pseudocode (an_edges a)) (dc_instructions dec) = Inr texts" "an_pseudocode a = concat texts"
    and dg: "an_diagnostics a = dc_diagnostics dec @ concat (map edge_diagnostic (an_edges a)) @
       concat (map entry_diagnostic (an_entries a))"
    using a by (elim analyze_imageE)
  have n: "length (dc_instructions dec) \<le> INSTRUCTIONS" and d1: "length (dc_diagnostics dec) \<le> 1"
    using decode_image(4,6) [of "instruction_budget s" d img] s by (simp_all add: dec)
  have e: "length (an_edges a) \<le> 2 * length (dc_instructions dec)"
    unfolding edges by (rule mapE_lengths [OF el]) (rule instruction_edges_le)
  have t: "length (an_pseudocode a) \<le> 2 * length (dc_instructions dec)"
    unfolding tx(2) by (rule mapE_lengths [OF tx(1)]) (rule instruction_pseudocode_le)
  have en: "length (an_entries a) \<le> ENTRIES" using img by (simp add: entries wf_image_def)
  have d2: "length (concat (map edge_diagnostic (an_edges a))) \<le> 1 * length (an_edges a)"
    by (rule length_concat_map_le) (simp add: edge_diagnostic_def)
  have d3: "length (concat (map entry_diagnostic (an_entries a))) \<le> 1 * length (an_entries a)"
    by (rule length_concat_map_le) (auto simp: entry_diagnostic_def split: prod.splits)
  have "length (an_diagnostics a) \<le> 1 + 2 * INSTRUCTIONS + ENTRIES"
    unfolding dg using d1 d2 d3 e n en by simp
  then show ?thesis using n e t en by (simp add: vm_limits insns nodes)
qed

section \<open>Reachability\<close>

lemma reach_loop_sound: "set (reach_loop edges pending R) \<subseteq> set R \<union> {y. \<exists>x \<in> set pending. (x, y) \<in> {(x, y). y \<in> set (successors edges x)}\<^sup>*}"
proof (induction edges pending R rule: reach_loop.induct)
  case (2 edges x pending R)
  let ?E = "{(x, y). y \<in> set (successors edges x)}"
  show ?case
  proof (cases "x \<in> set R")
    case True
    then show ?thesis using 2(1) by auto
  next
    case False
    have ih: "set (reach_loop edges (pending @ filter (\<lambda>y. y \<notin> set (x # R)) (successors edges x)) (x # R))
        \<subseteq> set (x # R) \<union> {y. \<exists>z \<in> set (pending @ filter (\<lambda>y. y \<notin> set (x # R)) (successors edges x)). (z, y) \<in> ?E\<^sup>*}"
      by (rule 2(2) [OF False refl])
    have step: "(z, y) \<in> ?E\<^sup>* \<Longrightarrow> z \<in> set (successors edges x) \<Longrightarrow> (x, y) \<in> ?E\<^sup>*" for z y
      by (rule converse_rtrancl_into_rtrancl [of x z]) auto
    have eq: "reach_loop edges (x # pending) R =
        reach_loop edges (pending @ filter (\<lambda>y. y \<notin> set (x # R)) (successors edges x)) (x # R)"
      using False by (simp add: Let_def)
    show ?thesis unfolding eq using ih step by fastforce
  qed
qed simp

lemma reach_loop_keeps: "set R \<union> set pending \<subseteq> set (reach_loop edges pending R)"
  by (induction edges pending R rule: reach_loop.induct) (auto simp: Let_def)

lemma reach_loop_closed:
  assumes "\<And>x y. x \<in> set R \<Longrightarrow> y \<in> set (successors edges x) \<Longrightarrow> y \<in> set R \<union> set pending"
  shows "x \<in> set (reach_loop edges pending R) \<Longrightarrow> y \<in> set (successors edges x) \<Longrightarrow> y \<in> set (reach_loop edges pending R)"
  using assms
proof (induction edges pending R rule: reach_loop.induct)
  case (2 edges z pending R)
  show ?case
  proof (cases "z \<in> set R")
    case True
    then show ?thesis using 2(1) [OF True] 2(3-5) by auto
  next
    case False
    have eq: "reach_loop edges (z # pending) R =
        reach_loop edges (pending @ filter (\<lambda>y. y \<notin> set (z # R)) (successors edges z)) (z # R)"
      using False by (simp add: Let_def)
    show ?thesis unfolding eq
    proof (rule 2(2) [OF False refl])
      show "x \<in> set (reach_loop edges (pending @ filter (\<lambda>y. y \<notin> set (z # R)) (successors edges z)) (z # R))"
        using 2(3) unfolding eq .
      show "y \<in> set (successors edges x)" by (rule 2(4))
      show "v \<in> set (z # R) \<union> set (pending @ filter (\<lambda>y. y \<notin> set (z # R)) (successors edges z))"
        if "u \<in> set (z # R)" "v \<in> set (successors edges u)" for u v
        using that 2(5) by auto
    qed
  qed
qed auto

lemma reach_loop_correct:
  "set (reach_loop edges pending []) = {y. \<exists>x \<in> set pending. (x, y) \<in> {(x, y). y \<in> set (successors edges x)}\<^sup>*}"
proof
  let ?S = "set (reach_loop edges pending [])" and ?E = "{(x, y). y \<in> set (successors edges x)}"
  show "?S \<subseteq> {y. \<exists>x \<in> set pending. (x, y) \<in> ?E\<^sup>*}" using reach_loop_sound [of edges pending "[]"] by simp
  have "y \<in> ?S" if "(x, y) \<in> ?E\<^sup>*" "x \<in> ?S" for x y
    using that by (induction rule: rtrancl_induct) (use reach_loop_closed [of "[]" edges pending] in auto)
  then show "{y. \<exists>x \<in> set pending. (x, y) \<in> ?E\<^sup>*} \<subseteq> ?S" using reach_loop_keeps [of "[]" pending edges] by auto
qed

text \<open>The resolved edges as a relation on offsets.\<close>

definition resolved_edges :: "vm_analysis \<Rightarrow> (nat \<times> nat) set" where
  "resolved_edges a =
     {(x, y). \<exists>e \<in> set (an_edges a). eg_status e = Resolved \<and> eg_from e = x \<and> nat (the (eg_to e)) = y}"

lemma successors_edges: "{(x, y). y \<in> set (successors (an_edges a) x)} = resolved_edges a"
  by (auto simp: resolved_edges_def successors_def)

lemma targetStatus_Resolved:
  "targetStatus insns cursor n t = Resolved \<longleftrightarrow>
     (\<exists>i \<in> set insns. t = Some (int (in_offset i)) \<and> in_offset i < n)"
proof (cases t)
  case (Some k)
  show ?thesis
  proof (cases "k < 0")
    case False
    then obtain m where "k = int m" by (metis not_less nonneg_int_cases)
    then show ?thesis using Some by (auto simp: targetStatus_def)
  qed (use Some in \<open>auto simp: targetStatus_def\<close>)
qed (simp add: targetStatus_def)

text \<open>
  C28. Reachability is exactly graph reachability: a node is marked reachable if and only if
  its offset can be reached from a resolved entry along resolved edges, and resolved edges
  lead to starts of instructions only, never into the middle of one.
\<close>

theorem reachable_is_closure:
  assumes "analyze parse json_sha256 text_sha256 sha256 v w options = Inr a"
  shows "(\<forall>n \<in> set (an_nodes a). cn_reachable n \<longleftrightarrow>
      (\<exists>entry. (entry, Resolved) \<in> set (an_entries a) \<and> (entry, cn_offset n) \<in> (resolved_edges a)\<^sup>*)) \<and>
    (\<forall>e \<in> set (an_edges a). eg_status e = Resolved \<longrightarrow>
      (\<exists>i \<in> set (an_instructions a). eg_to e = Some (int (in_offset i)))) \<and>
    map cn_offset (an_nodes a) = map in_offset (an_instructions a)"
proof -
  obtain d img s dg where a: "analyze_image dg d img (instruction_budget s) = Inr a"
    using assms by (elim analyzeE)
  obtain dec edge_lists where dec: "dec = decode_loop (instruction_budget s) d img (hex_bytes (vi_bytes_hex img)) 0"
    and insns: "an_instructions a = dc_instructions dec"
    and el: "mapE (instruction_edges (targetStatus (dc_instructions dec) (dc_cursor dec)
        (length (hex_bytes (vi_bytes_hex img))))) (dc_instructions dec) = Inr edge_lists"
    and edges: "an_edges a = concat edge_lists"
    and nodes: "an_nodes a = map (\<lambda>i. \<lparr>cn_instruction_id = in_id i, cn_offset = in_offset i,
       cn_reachable = in_offset i \<in> set (reach_loop (an_edges a) (entry_offsets_of (an_entries a)) [])\<rparr>) (dc_instructions dec)"
    using a by (elim analyze_imageE)
  have "\<exists>i \<in> set (dc_instructions dec). eg_to e = Some (int (in_offset i))"
    if e: "e \<in> set (an_edges a)" "eg_status e = Resolved" for e
  proof -
    obtain es where es: "es \<in> set edge_lists" "e \<in> set es" using e(1) by (auto simp: edges)
    then obtain i where "instruction_edges (targetStatus (dc_instructions dec) (dc_cursor dec)
        (length (hex_bytes (vi_bytes_hex img)))) i = Inr es" using mapE_set [OF el] by blast
    then have "eg_status e = targetStatus (dc_instructions dec) (dc_cursor dec) (length (hex_bytes (vi_bytes_hex img))) (eg_to e)"
      using es(2) by (auto simp: instruction_edges_def result_simps)
    then show ?thesis using e(2) by (metis targetStatus_Resolved)
  qed
  moreover have "set (entry_offsets_of (an_entries a)) = {n. (n, Resolved) \<in> set (an_entries a)}"
    by (force simp: entry_offsets_of_def)
  ultimately show ?thesis
    by (auto simp: insns nodes reach_loop_correct successors_edges)
qed

section \<open>Accepted inputs have an analysis\<close>

lemma find_known: "n \<in> set (map f xs) \<Longrightarrow> \<exists>x. find (\<lambda>p. f p = n) xs = Some x"
  by (metis (mono_tags, lifting) find_None_iff imageE not_None_eq set_map)

lemma operand_known:
  "operand_has_kind (oc_operands c) n k \<Longrightarrow> declared_as c i \<Longrightarrow> n \<in> set (map op_name (in_operands i))"
  by (auto simp: operand_has_kind_def declared_as_def find_operand_def find_Some_iff)

lemma argument_known:
  assumes "wf_opcode arch ob regs c" "declared_as c i" "k < length (operationRoles (oc_operation c))"
  shows "\<exists>v. argument i k = Some v"
proof -
  have args: "in_args i = oc_args c" using assms(2) by (simp add: declared_as_def)
  have all: "list_all2 (operand_has_kind (oc_operands c)) (oc_args c) (operationRoles (oc_operation c))"
    using assms(1) by (simp add: wf_opcode_def)
  then have k: "k < length (oc_args c)" using assms(3) by (simp add: list_all2_lengthD)
  have "operand_has_kind (oc_operands c) (oc_args c ! k) (operationRoles (oc_operation c) ! k)"
    by (rule list_all2_nthD [OF all k])
  then have "oc_args c ! k \<in> set (map op_name (in_operands i))" by (rule operand_known [OF _ assms(2)])
  then have "\<exists>p. find (\<lambda>p. op_name p = oc_args c ! k) (rev (in_operands i)) = Some p"
    by (intro find_known) (simp add: rev_map [symmetric])
  then show ?thesis using k by (auto simp: argument_def args)
qed

lemma flow_target_known:
  assumes "wf_opcode arch ob regs c" "declared_as c i"
  shows "\<exists>t. flow_target i = Inr t"
proof (cases "fl_target (oc_flow c)")
  case None
  then show ?thesis using assms(2) by (simp add: flow_target_def declared_as_def)
next
  case (Some t)
  obtain n base where t: "t = (n, base)" by fastforce
  have "operand_has_kind (oc_operands c) n (if base = Absolute then Address else Offset)"
    using assms(1) Some t by (auto simp: wf_opcode_def wf_flow_def)
  then have "\<exists>p. find (\<lambda>p. op_name p = n) (in_operands i) = Some p"
    by (intro find_known operand_known [OF _ assms(2)])
  then show ?thesis using assms(2) Some t by (auto simp: flow_target_def declared_as_def)
qed

lemma insn_text_known:
  assumes "wf_opcode arch ob regs c" "declared_as c i"
  shows "\<exists>t. insn_text edges i = Inr t"
proof -
  have op: "in_operation i = oc_operation c" using assms(2) by (simp add: declared_as_def)
  have arg: "k < length (operationRoles (in_operation i)) \<Longrightarrow> \<exists>v. argument i k = Some v" for k
    using argument_known [OF assms, of k] by (simp add: op)
  show ?thesis
    using arg [of 0] arg [of 1]
    by (cases "in_operation i") (auto simp: insn_text_def Let_def memory_text_def)
qed

lemma mapE_total: "(\<And>x. x \<in> set xs \<Longrightarrow> \<exists>y. f x = Inr y) \<Longrightarrow> \<exists>ys. mapE f xs = Inr ys"
proof -
  assume "\<And>x. x \<in> set xs \<Longrightarrow> \<exists>y. f x = Inr y"
  then have "mapE f xs = Inr (map (\<lambda>x. projr (f x)) xs)" by (intro mapE_map) force
  then show ?thesis by blast
qed

lemma analyze_image_total:
  assumes d: "wf_definition d"
  shows "\<exists>a. analyze_image dg d img budget = Inr a"
proof -
  define dec where "dec = decode_loop budget d img (hex_bytes (vi_bytes_hex img)) 0"
  have known: "\<exists>c arch ob regs. wf_opcode arch ob regs c \<and> declared_as c i" if "i \<in> set (dc_instructions dec)" for i
  proof -
    have "decodes d img (hex_bytes (vi_bytes_hex img)) i"
      using decode_image(3) [of budget d img] that by (simp add: dec_def)
    then obtain c where "c \<in> set (vd_opcodes d)" "declared_as c i" by (elim decodes_declared)
    moreover have "\<forall>c \<in> set (vd_opcodes d). wf_opcode (vd_architecture d) (vd_opcode_bytes d) (vd_register_count d) c"
      using d by (simp add: wf_definition_def list_all_iff)
    ultimately have "wf_opcode (vd_architecture d) (vd_opcode_bytes d) (vd_register_count d) c \<and> declared_as c i" by simp
    then show ?thesis by (intro exI)
  qed
  obtain es where es: "mapE (instruction_edges (targetStatus (dc_instructions dec) (dc_cursor dec)
      (length (hex_bytes (vi_bytes_hex img))))) (dc_instructions dec) = Inr es"
  proof -
    have "\<exists>e. instruction_edges status i = Inr e" if i: "i \<in> set (dc_instructions dec)" for status i
    proof -
      obtain t where "flow_target i = Inr t" using known [OF i] flow_target_known by blast
      then show ?thesis by (simp add: instruction_edges_def)
    qed
    then show thesis using mapE_total [of "dc_instructions dec"] that by meson
  qed
  obtain ts where ts: "mapE (instruction_pseudocode (concat es)) (dc_instructions dec) = Inr ts"
  proof -
    have "\<exists>t. instruction_pseudocode edges i = Inr t" if i: "i \<in> set (dc_instructions dec)" for edges i
    proof -
      obtain t where "insn_text edges i = Inr t" using known [OF i] insn_text_known by blast
      then show ?thesis by (simp add: instruction_pseudocode_def)
    qed
    then show thesis using mapE_total [of "dc_instructions dec"] that by meson
  qed
  show ?thesis using es ts by (simp add: analyze_image_def Let_def dec_def)
qed

lemma analyze_total:
  assumes "parseDefinition parse v = Inr d" "parseImage parse w = Inr img" "vm_document parse options = Inr s"
    "settings_ok s" "vi_definition_id img = vd_id d" "input_digests json_sha256 text_sha256 sha256 v w d img = Inr dg"
  shows "\<exists>a. analyze parse json_sha256 text_sha256 sha256 v w options = Inr a"
  using assms analyze_image_total [OF parseDefinition_wf [OF assms(1)]] by (simp add: analyze_def)

text \<open>
  C29. Every accepted program gets its analysis: \<open>analyze\<close> returns a result exactly when the
  definition, the image and the options are accepted and name the same definition, and their
  digests can be computed; after that nothing can fail, no target or argument read is undefined
  and all loops end.
\<close>

theorem accepted_programs_analyzed:
  "(\<exists>a. analyze parse json_sha256 text_sha256 sha256 v w options = Inr a) \<longleftrightarrow>
    (\<exists>d img s dg. parseDefinition parse v = Inr d \<and> parseImage parse w = Inr img \<and> vm_document parse options = Inr s \<and>
       settings_ok s \<and> vi_definition_id img = vd_id d \<and> input_digests json_sha256 text_sha256 sha256 v w d img = Inr dg)"
  using analyze_total [of parse v] by (meson analyzeE)

section \<open>The sample program\<close>

definition sample_options :: js where
  "sample_options = Obj [(''max_instructions'', int_js 3)]"

lemma sample_accepted:
  "vm_document parse sample_options = Inr sample_options" "settings_ok sample_options"
  "instruction_budget sample_options = 3" "vi_definition_id sample_program = vd_id sample_vm"
  by (simp_all add: sample_options_def settings_ok_def instruction_budget_def has_own_def sample_program_def
      sample_vm_def vm_evals)

lemma sample_digests:
  "input_digests (\<lambda>v. Inr []) (\<lambda>s. Inr []) (\<lambda>b. Inr []) sample_definition sample_image sample_vm sample_program =
     Inr \<lparr>dg_definition = [], dg_definition_source = None, dg_image = [], dg_image_source = None\<rparr>"
  by (simp add: input_digests_def source_digest_def sample_definition_def sample_image_def)

lemma sample_analyzed:
  "\<exists>a. analyze parse (\<lambda>v. Inr []) (\<lambda>s. Inr []) (\<lambda>b. Inr []) sample_definition sample_image sample_options = Inr a"
  by (rule analyze_total [OF sample_definition_accepted sample_image_accepted sample_accepted(1,2,4) sample_digests])

lemma decode_atI:
  assumes "find_opcode d (hex_slice img k (k + vd_opcode_bytes d)) = Some c" "k + opcode_size d c \<le> length bytes"
    "\<not> list_ex (invalid_operand d) (in_operands (make_instruction d img bytes k c))"
  shows "decode_at d img bytes k = Inr (make_instruction d img bytes k c)"
  using assms by (simp add: decode_at_def Let_def opcode_size_def)

lemma in_size_make [simp]: "in_size (make_instruction d img bytes k c) = opcode_size d c"
  by (simp add: make_instruction_def)

lemma decode_loop_next:
  assumes "k < length bytes" "decode_at d img bytes k = Inr i"
  shows "decode_loop (Suc n) d img bytes k =
    (let r = decode_loop n d img bytes (k + in_size i) in r\<lparr>dc_instructions := i # dc_instructions r\<rparr>)"
  using assms by (simp add: decode_loop.simps [of "Suc n"])

definition sample_instruction :: "nat \<Rightarrow> nat \<Rightarrow> instruction" where
  "sample_instruction k n = make_instruction sample_vm sample_program [1, 255, 254, 2, 251, 255] k (vd_opcodes sample_vm ! n)"

lemma sample_bytes: "hex_bytes (vi_bytes_hex sample_program) = [1, 255, 254, 2, 251, 255]"
  by (simp add: sample_program_def hex_digit_value_def)

lemma sample_steps:
  "decode_at sample_vm sample_program [1, 255, 254, 2, 251, 255] 0 = Inr (sample_instruction 0 0)"
  "decode_at sample_vm sample_program [1, 255, 254, 2, 251, 255] 3 = Inr (sample_instruction 3 1)"
  "decode_at sample_vm sample_program [1, 255, 254, 2, 251, 255] 5 = Inr (sample_instruction 5 2)"
  unfolding sample_instruction_def
  by (rule decode_atI; simp add: find_opcode_def hex_slice_def slice_def opcode_size_def make_instruction_def
        sample_vm_def sample_program_def invalid_operand_def)+

lemma sample_sizes: "in_size (sample_instruction 0 0) = 3" "in_size (sample_instruction 3 1) = 2" "in_size (sample_instruction 5 2) = 1"
  by (simp_all add: sample_instruction_def opcode_size_def sample_vm_def)

lemma sample_instructions:
  assumes "analyze parse json_sha256 text_sha256 sha256 sample_definition sample_image sample_options = Inr a"
  shows "an_instructions a = [sample_instruction 0 0, sample_instruction 3 1, sample_instruction 5 2]"
    and "an_definition a = sample_vm" and "an_image a = sample_program"
proof -
  obtain dg where "analyze_image dg sample_vm sample_program 3 = Inr a"
    using assms by (auto simp: analyze_def bindE_Inr_iff sample_definition_accepted sample_image_accepted sample_accepted)
  then obtain dec where dec: "dec = decode_loop 3 sample_vm sample_program (hex_bytes (vi_bytes_hex sample_program)) 0"
    and a: "an_definition a = sample_vm" "an_image a = sample_program" "an_instructions a = dc_instructions dec"
    by (elim analyze_imageE)
  show "an_definition a = sample_vm" "an_image a = sample_program" using a by simp_all
  show "an_instructions a = [sample_instruction 0 0, sample_instruction 3 1, sample_instruction 5 2]"
  proof -
    have three: "decode_loop 3 = decode_loop (Suc (Suc (Suc 0)))" by (simp add: numeral_3_eq_3)
    show ?thesis unfolding a(3) dec sample_bytes three
      by (simp add: decode_loop_next sample_steps sample_sizes Let_def decode_loop.simps [of 0] del: One_nat_def)
  qed
qed

definition sample_analysis_is :: "vm_analysis \<Rightarrow> bool" where
  "sample_analysis_is a =
     (analyze (\<lambda>s. Inl UndefinedRead) (\<lambda>v. Inr []) (\<lambda>s. Inr []) (\<lambda>b. Inr []) sample_definition sample_image sample_options = Inr a)"


lemma operands_roundtrip_witness:
  "\<exists>a i p. sample_analysis_is a \<and> i \<in> set (an_instructions a) \<and> p \<in> set (in_operands i) \<and> io_value p = - 2 \<and>
     encode_operand False 2 (io_value p) = [255, 254]"
proof -
  obtain a where a: "analyze (\<lambda>s. Inl UndefinedRead) (\<lambda>v. Inr []) (\<lambda>s. Inr []) (\<lambda>b. Inr []) sample_definition sample_image sample_options = Inr a"
    using sample_analyzed by blast
  let ?i = "sample_instruction 0 0"
  let ?p = "read_at sample_vm sample_program [1, 255, 254, 2, 251, 255] 1 (hd (oc_operands (hd (vd_opcodes sample_vm))))"
  have i: "?i \<in> set (an_instructions a)" by (simp add: sample_instructions [OF a])
  have p: "?p \<in> set (in_operands ?i)" by (simp add: sample_instruction_def make_instruction_def sample_vm_def)
  have f: "op_width ?p = 2" "io_offset ?p = 1" "io_value ?p = - 2"
    by (simp_all add: sample_vm_def operand_value_def raw_value_def upt_rec [of _ "Suc (Suc 0)"] numeral_2_eq_2 Let_def)
  show ?thesis
    using operands_roundtrip [OF a i p] a i p f sample_bytes
    by (intro exI [of _ a] exI [of _ ?i] exI [of _ ?p])
      (simp add: sample_analysis_is_def sample_instructions [OF a] slice_def, simp add: sample_vm_def)
qed

lemma analysis_within_limits_witness:
  "\<exists>a. sample_analysis_is a \<and> length (an_edges a) \<le> EDGES \<and> length (an_diagnostics a) \<le> DIAGNOSTICS"
proof -
  obtain a where a: "analyze (\<lambda>s. Inl UndefinedRead) (\<lambda>v. Inr []) (\<lambda>s. Inr []) (\<lambda>b. Inr []) sample_definition sample_image sample_options = Inr a"
    using sample_analyzed by blast
  show ?thesis using analysis_within_limits [OF a] a by (intro exI [of _ a]) (simp add: sample_analysis_is_def)
qed

lemma reachable_is_closure_witness:
  "\<exists>a. sample_analysis_is a \<and> map cn_offset (an_nodes a) = [0, 3, 5] \<and>
     (\<forall>n \<in> set (an_nodes a). cn_reachable n \<longleftrightarrow>
        (\<exists>entry. (entry, Resolved) \<in> set (an_entries a) \<and> (entry, cn_offset n) \<in> (resolved_edges a)\<^sup>*))"
proof -
  obtain a where a: "analyze (\<lambda>s. Inl UndefinedRead) (\<lambda>v. Inr []) (\<lambda>s. Inr []) (\<lambda>b. Inr []) sample_definition sample_image sample_options = Inr a"
    using sample_analyzed by blast
  have "map in_offset (an_instructions a) = [0, 3, 5]"
    by (simp add: sample_instructions [OF a] sample_instruction_def make_instruction_def)
  then show ?thesis
    using reachable_is_closure [OF a] a by (intro exI [of _ a]) (simp add: sample_analysis_is_def)
qed

end
