(* ===== verification/VmTrace.thy ===== *)
theory VmTrace
  imports "HOL-Library.Multiset" VmDefinition
begin

text \<open>
  Supplied execution traces: \<open>state\<close>, \<open>trace\<close>, \<open>predict\<close>, \<open>effects\<close> and the snapshot cells of
  \<open>apps/research-ui/vm_semantics.js\<close>. A trace is a validated document; \<open>predict\<close> is the
  declared meaning of one operation, whose only error is \<open>None\<close> (unsupported).
\<close>

section \<open>Data\<close>

record vm_state =
  st_pc :: nat
  st_halted :: bool
  st_registers :: "int option list"
  st_stack :: "int option list"
  st_memory :: "(nat \<times> int option) list"

record vm_step =
  sp_sequence :: nat
  sp_opcode :: string
  sp_operands :: "int list"
  sp_size :: nat
  sp_before :: vm_state
  sp_after :: vm_state
  sp_refs :: "string list"

record trace_identity =
  ti_trace_id :: string
  ti_investigation_id :: string
  ti_finding_id :: string
  ti_artifact_id :: string
  ti_artifact_sha256 :: string
  ti_scope_id :: string
  ti_backend :: string

record trace_coverage =
  tc_complete :: bool
  tc_dropped_steps :: nat
  tc_limitations :: "string list"

record vm_trace =
  tr_identity :: trace_identity
  tr_architecture :: architecture
  tr_coverage :: trace_coverage
  tr_steps :: "vm_step list"

section \<open>Validation\<close>

definition int32 :: "js \<Rightarrow> bool" where
  "int32 v = (is_integer v \<and> - 2147483648 \<le> num_of v \<and> num_of v \<le> 2147483647)"

definition vm_count :: "js \<Rightarrow> bool" where
  "vm_count v = (is_safe_integer v \<and> 0 \<le> num_of v)"

definition vm_value :: "js \<Rightarrow> bool" where
  "vm_value v = (v = Null \<or> int32 v)"

definition value_of :: "js \<Rightarrow> int option" where
  "value_of v = (if v = Null then None else Some (int_of v))"

text \<open>A memory cell is \<open>[address, value]\<close>; addresses rise from the one read before, \<open>-1\<close> at first.\<close>

definition cell_ok :: "int \<Rightarrow> js \<Rightarrow> bool" where
  "cell_ok previous c =
     (is_arr c \<and> length (arr_of c) = 2 \<and> vm_count (arr_of c ! 0) \<and> num_of (arr_of c ! 0) \<le> 65535 \<and>
      previous < int_of (arr_of c ! 0) \<and> vm_value (arr_of c ! 1))"

fun read_cells :: "int \<Rightarrow> js list \<Rightarrow> vm_error + (nat \<times> int option) list" where
  "read_cells previous [] = Inr []"
| "read_cells previous (c # cs) =
     (if \<not> cell_ok previous c then Inl (Refused ''Memory must contain sorted unique bounded addresses'')
      else bindE (read_cells (int_of (arr_of c ! 0)) cs) (\<lambda>cells.
        Inr ((nat_of (arr_of c ! 0), value_of (arr_of c ! 1)) # cells)))"

definition state_shape_ok :: "js \<Rightarrow> bool" where
  "state_shape_ok v =
     (exact v [''pc'', ''halted'', ''registers'', ''stack'', ''memory''] \<and>
      vm_count (getp v ''pc'') \<and> num_of (getp v ''pc'') \<le> 65535 \<and> is_bool (getp v ''halted'') \<and>
      is_arr (getp v ''registers'') \<and> length (arr_of (getp v ''registers'')) \<le> 64 \<and>
      list_all vm_value (arr_of (getp v ''registers'')) \<and>
      is_arr (getp v ''stack'') \<and> length (arr_of (getp v ''stack'')) \<le> 128 \<and>
      list_all vm_value (arr_of (getp v ''stack'')) \<and>
      is_arr (getp v ''memory'') \<and> length (arr_of (getp v ''memory'')) \<le> 256)"

definition read_state :: "js \<Rightarrow> vm_error + vm_state" where
  "read_state v =
     (if \<not> state_shape_ok v then Inl (Refused ''Invalid bounded VM state'')
      else bindE (read_cells (- 1) (arr_of (getp v ''memory''))) (\<lambda>cells.
        Inr \<lparr>st_pc = nat_of (getp v ''pc''), st_halted = truthy (getp v ''halted''),
             st_registers = map value_of (arr_of (getp v ''registers'')),
             st_stack = map value_of (arr_of (getp v ''stack'')), st_memory = cells\<rparr>))"

text \<open>\<open>check(v, depth)\<close>; a success is the number of nodes entered so far.\<close>

fun check_value :: "js \<Rightarrow> nat \<Rightarrow> nat \<Rightarrow> vm_error + nat"
  and check_items :: "js list \<Rightarrow> nat \<Rightarrow> nat \<Rightarrow> vm_error + nat"
  and check_members :: "(string \<times> js) list \<Rightarrow> nat \<Rightarrow> nat \<Rightarrow> vm_error + nat" where
  "check_value v depth nodes =
     (if 600000 < Suc nodes \<or> 64 < depth then Inl (Refused ''Trace structure exceeds bounds'')
      else case v of
        Num _ \<Rightarrow> if is_safe_integer v then Inr (Suc nodes) else Inl (Refused ''Trace numbers must be exact safe integers'')
      | Arr xs \<Rightarrow> check_items xs (Suc depth) (Suc nodes)
      | Obj kvs \<Rightarrow> check_members kvs (Suc depth) (Suc nodes)
      | Undef \<Rightarrow> Inl (Refused ''Trace must contain JSON values only'')
      | _ \<Rightarrow> Inr (Suc nodes))"
| "check_items [] depth nodes = Inr nodes"
| "check_items (x # xs) depth nodes = bindE (check_value x depth nodes) (check_items xs depth)"
| "check_members [] depth nodes = Inr nodes"
| "check_members ((k, x) # xs) depth nodes = bindE (check_value x depth nodes) (check_members xs depth)"

declare check_value.simps [simp del]

definition opcode_text :: "string \<Rightarrow> bool" where
  "opcode_text s = (even (length s) \<and> 2 \<le> length s \<and> length s \<le> 16 \<and> list_all lower_hex s)"

definition identity_keys :: "string list" where
  "identity_keys = [''trace_id'', ''investigation_id'', ''finding_id'', ''artifact_id'', ''scope_id'']"

definition trace_header_ok :: "js \<Rightarrow> bool" where
  "trace_header_ok v =
     (let ident = getp v ''identity''; cov = getp v ''coverage''; sha = getp ident ''artifact_sha256'' in
      exact v [''format'', ''identity'', ''architecture'', ''coverage'', ''steps''] \<and>
      getp v ''format'' = Str ''reb-vm-trace-v1'' \<and> one_of [''stack'', ''register''] (getp v ''architecture'') \<and>
      exact ident [''trace_id'', ''investigation_id'', ''finding_id'', ''artifact_id'', ''artifact_sha256'',
                   ''scope_id'', ''backend''] \<and>
      one_of [''fixture'', ''native'', ''cdp'', ''external''] (getp ident ''backend'') \<and>
      is_str sha \<and> length (str_of sha) = 64 \<and> list_all lower_hex (str_of sha) \<and>
      list_all (\<lambda>k. vm_identifier (getp ident k)) identity_keys \<and>
      exact cov [''complete'', ''dropped_steps'', ''limitations''] \<and> is_bool (getp cov ''complete'') \<and>
      vm_count (getp cov ''dropped_steps'') \<and> is_arr (getp cov ''limitations'') \<and>
      length (arr_of (getp cov ''limitations'')) \<le> 16 \<and>
      list_all (\<lambda>x. is_str x \<and> length (str_of x) \<le> 256) (arr_of (getp cov ''limitations'')) \<and>
      is_arr (getp v ''steps'') \<and> length (arr_of (getp v ''steps'')) \<le> 256 \<and> arr_of (getp v ''steps'') \<noteq> [])"

definition step_shape_ok :: "js \<Rightarrow> bool" where
  "step_shape_ok v =
     (let ops = getp v ''operands''; refs = getp v ''evidence_refs'' in
      exact v [''sequence'', ''opcode'', ''operands'', ''instruction_size'', ''before'', ''after'', ''evidence_refs''] \<and>
      vm_count (getp v ''sequence'') \<and> is_str (getp v ''opcode'') \<and> opcode_text (str_of (getp v ''opcode'')) \<and>
      is_arr ops \<and> length (arr_of ops) \<le> 8 \<and> list_all int32 (arr_of ops) \<and>
      is_integer (getp v ''instruction_size'') \<and> 1 \<le> num_of (getp v ''instruction_size'') \<and>
      num_of (getp v ''instruction_size'') \<le> 64 \<and>
      is_arr refs \<and> 1 \<le> length (arr_of refs) \<and> length (arr_of refs) \<le> 8 \<and> list_all vm_identifier (arr_of refs))"

definition read_step :: "js \<Rightarrow> vm_error + vm_step" where
  "read_step v =
     (if \<not> step_shape_ok v then Inl (Refused ''Invalid bounded VM step'')
      else bindE (read_state (getp v ''before'')) (\<lambda>before. bindE (read_state (getp v ''after'')) (\<lambda>after.
        Inr \<lparr>sp_sequence = nat_of (getp v ''sequence''), sp_opcode = str_of (getp v ''opcode''),
             sp_operands = map int_of (arr_of (getp v ''operands'')), sp_size = nat_of (getp v ''instruction_size''),
             sp_before = before, sp_after = after, sp_refs = map str_of (arr_of (getp v ''evidence_refs''))\<rparr>)))"

text \<open>The checks of a step against the step before it.\<close>

definition follow_checks :: "bool \<Rightarrow> vm_step option \<Rightarrow> vm_step \<Rightarrow> (bool \<times> vm_error) list" where
  "follow_checks whole previous s =
     (case previous of
        None \<Rightarrow> []
      | Some p \<Rightarrow>
          [(sp_sequence s \<le> sp_sequence p, Refused ''Steps must have increasing unique sequence IDs''),
           (sp_sequence s = sp_sequence p + 1 \<and> sp_after p \<noteq> sp_before s, Refused ''Adjacent supplied states disagree''),
           (sp_sequence s \<noteq> sp_sequence p + 1 \<and> whole, Refused ''Complete coverage cannot contain sequence gaps'')]) @
     [(st_halted (sp_before s), Refused ''A halted state cannot execute a step'')]"

fun read_steps :: "bool \<Rightarrow> vm_step option \<Rightarrow> js list \<Rightarrow> vm_error + vm_step list" where
  "read_steps whole previous [] = Inr []"
| "read_steps whole previous (v # vs) =
     bindE (read_step v) (\<lambda>s. bindE (first_failure (follow_checks whole previous s)) (\<lambda>u.
       bindE (read_steps whole (Some s) vs) (\<lambda>ss. Inr (s # ss))))"

definition read_identity :: "js \<Rightarrow> trace_identity" where
  "read_identity v =
     \<lparr>ti_trace_id = str_of (getp v ''trace_id''), ti_investigation_id = str_of (getp v ''investigation_id''),
      ti_finding_id = str_of (getp v ''finding_id''), ti_artifact_id = str_of (getp v ''artifact_id''),
      ti_artifact_sha256 = str_of (getp v ''artifact_sha256''), ti_scope_id = str_of (getp v ''scope_id''),
      ti_backend = str_of (getp v ''backend'')\<rparr>"

definition read_coverage :: "js \<Rightarrow> trace_coverage" where
  "read_coverage v =
     \<lparr>tc_complete = truthy (getp v ''complete''), tc_dropped_steps = nat_of (getp v ''dropped_steps''),
      tc_limitations = map str_of (arr_of (getp v ''limitations''))\<rparr>"

definition vm_trace_of :: "js \<Rightarrow> vm_error + vm_trace" where
  "vm_trace_of v =
     bindE (check_value v 0 0) (\<lambda>nodes.
       if 1048576 < json_bytes v then Inl (Refused ''Trace exceeds 1 MiB'')
       else if \<not> trace_header_ok v then Inl (Refused ''Invalid reb-vm-trace-v1 identity, coverage or bounds'')
       else let cov = read_coverage (getp v ''coverage'') in
         if tc_complete cov \<and> tc_dropped_steps cov \<noteq> 0 then Inl (Refused ''Complete coverage cannot include dropped steps'')
         else bindE (read_steps (tc_complete cov) None (arr_of (getp v ''steps''))) (\<lambda>steps.
           Inr \<lparr>tr_identity = read_identity (getp v ''identity''),
                tr_architecture = (if getp v ''architecture'' = Str ''stack'' then StackMachine else RegisterMachine),
                tr_coverage = cov, tr_steps = steps\<rparr>))"

section \<open>Prediction\<close>

definition operations :: "operation list" where
  "operations = [StackConst, StackAdd, RegisterConst, RegisterAdd, Load, Store, Jump, BranchZero, Halt]"

text \<open>\<open>x | 0\<close>.\<close>

definition wrap32 :: "int \<Rightarrow> int" where
  "wrap32 x = (x + 2147483648) mod 4294967296 - 2147483648"

definition register_value :: "vm_state \<Rightarrow> int \<Rightarrow> int option" where
  "register_value s i =
     (if 0 \<le> i \<and> nat i < length (st_registers s) then st_registers s ! nat i else None)"

definition destination :: "vm_state \<Rightarrow> int \<Rightarrow> nat option" where
  "destination s i = (if 0 \<le> i \<and> nat i < length (st_registers s) then Some (nat i) else None)"

definition address :: "int \<Rightarrow> nat option" where
  "address i = (if 0 \<le> i \<and> i \<le> 65535 then Some (nat i) else None)"

definition pop_value :: "vm_state \<Rightarrow> (int \<times> vm_state) option" where
  "pop_value s =
     (if st_stack s = [] then None
      else Option.bind (last (st_stack s)) (\<lambda>v. Some (v, s\<lparr>st_stack := butlast (st_stack s)\<rparr>)))"

definition push_value :: "int \<Rightarrow> vm_state \<Rightarrow> vm_state" where
  "push_value v s = s\<lparr>st_stack := st_stack s @ [Some v]\<rparr>"

definition set_register :: "nat \<Rightarrow> int \<Rightarrow> vm_state \<Rightarrow> vm_state" where
  "set_register i v s = s\<lparr>st_registers := (st_registers s)[i := Some v]\<rparr>"

definition store_cell :: "nat \<Rightarrow> int \<Rightarrow> vm_state \<Rightarrow> vm_state option" where
  "store_cell a v s =
     (if a \<in> set (map fst (st_memory s))
      then Some (s\<lparr>st_memory := map (\<lambda>c. if fst c = a then (a, Some v) else c) (st_memory s)\<rparr>)
      else if 256 \<le> length (st_memory s) then None
      else Some (s\<lparr>st_memory := sort_key fst (st_memory s @ [(a, Some v)])\<rparr>))"

text \<open>The cases of the \<open>switch\<close>, on the state whose program counter has been advanced.\<close>

fun perform :: "operation \<Rightarrow> int list \<Rightarrow> nat \<Rightarrow> vm_state \<Rightarrow> vm_state option" where
  "perform StackConst [v] pc s = (if 128 \<le> length (st_stack s) then None else Some (push_value v s))"
| "perform StackAdd [] pc s =
     Option.bind (pop_value s) (\<lambda>(right, s'). Option.bind (pop_value s') (\<lambda>(left, s'').
       Some (push_value (wrap32 (left + right)) s'')))"
| "perform RegisterConst [r, v] pc s = map_option (\<lambda>d. set_register d v s) (destination s r)"
| "perform RegisterAdd [r, a, b] pc s =
     Option.bind (register_value s a) (\<lambda>left. Option.bind (register_value s b) (\<lambda>right.
       map_option (\<lambda>d. set_register d (wrap32 (left + right)) s) (destination s r)))"
| "perform Load [r, m] pc s =
     Option.bind (address m) (\<lambda>a. Option.bind (Option.bind (map_of (st_memory s) a) id) (\<lambda>v.
       map_option (\<lambda>d. set_register d v s) (destination s r)))"
| "perform Store [m, r] pc s =
     Option.bind (address m) (\<lambda>a. Option.bind (register_value s r) (\<lambda>v. store_cell a v s))"
| "perform Jump [t] pc s = map_option (\<lambda>a. s\<lparr>st_pc := a\<rparr>) (address t)"
| "perform BranchZero [r, t] pc s =
     Option.bind (register_value s r) (\<lambda>v. Option.bind (address t) (\<lambda>a. Some (if v = 0 then s\<lparr>st_pc := a\<rparr> else s)))"
| "perform Halt [] pc s = Some (s\<lparr>st_pc := pc, st_halted := True\<rparr>)"
| "perform _ _ pc s = None"

definition wrong_architecture :: "operation \<Rightarrow> architecture \<Rightarrow> bool" where
  "wrong_architecture op arch =
     (op \<in> {StackConst, StackAdd, StackDrop, StackDup, StackBranchZero} \<and> arch \<noteq> StackMachine \<or>
      op \<in> {RegisterConst, RegisterMove, RegisterAdd} \<and> arch \<noteq> RegisterMachine)"

definition predict :: "vm_step \<Rightarrow> operation \<Rightarrow> architecture \<Rightarrow> vm_state option" where
  "predict s op arch =
     (if wrong_architecture op arch then None
      else let b = sp_before s in
        Option.bind (perform op (sp_operands s) (st_pc b) (b\<lparr>st_pc := st_pc b + sp_size s\<rparr>)) (\<lambda>n.
          if 65535 < st_pc n then None else Some n))"

section \<open>Bounded states\<close>

definition int32_range :: "int \<Rightarrow> bool" where
  "int32_range x = (- 2147483648 \<le> x \<and> x \<le> 2147483647)"

definition wf_cells :: "vm_state \<Rightarrow> bool" where
  "wf_cells s =
     (length (st_registers s) \<le> 64 \<and> list_all (pred_option int32_range) (st_registers s) \<and>
      length (st_stack s) \<le> 128 \<and> list_all (pred_option int32_range) (st_stack s) \<and>
      length (st_memory s) \<le> 256 \<and> sorted_wrt (<) (map fst (st_memory s)) \<and>
      list_all (\<lambda>c. fst c \<le> 65535 \<and> pred_option int32_range (snd c)) (st_memory s))"

definition wf_state :: "vm_state \<Rightarrow> bool" where
  "wf_state s = (st_pc s \<le> 65535 \<and> wf_cells s)"

lemma wrap32_range: "int32_range (wrap32 x)"
proof -
  have "0 \<le> (x + 2147483648) mod 4294967296" "(x + 2147483648) mod 4294967296 < 4294967296" by simp_all
  then show ?thesis unfolding int32_range_def wrap32_def by linarith
qed

lemma wrap32_exact: "int32_range x \<Longrightarrow> wrap32 x = x"
  by (simp add: int32_range_def wrap32_def)

lemma pop_value_wf:
  assumes "wf_cells s" "pop_value s = Some (v, n)"
  shows "wf_cells n \<and> int32_range v \<and> length (st_stack n) < 128 \<and> st_registers n = st_registers s \<and>
    st_halted n = st_halted s"
proof -
  have ne: "st_stack s \<noteq> []" and v: "last (st_stack s) = Some v" and n: "n = s\<lparr>st_stack := butlast (st_stack s)\<rparr>"
    using assms(2) by (auto simp: pop_value_def bind_eq_Some_conv split: if_splits)
  have "pred_option int32_range (last (st_stack s))"
    using assms(1) ne by (simp add: wf_cells_def list_all_iff)
  moreover have "list_all (pred_option int32_range) (butlast (st_stack s))"
    using assms(1) by (auto simp: wf_cells_def list_all_iff dest: in_set_butlastD)
  moreover have "length (butlast (st_stack s)) < 128"
    using assms(1) ne by (cases "st_stack s" rule: rev_cases) (auto simp: wf_cells_def)
  ultimately show ?thesis using assms(1) by (simp add: wf_cells_def n v)
qed

lemma push_value_wf:
  "wf_cells s \<Longrightarrow> length (st_stack s) < 128 \<Longrightarrow> int32_range v \<Longrightarrow> wf_cells (push_value v s)"
  by (simp add: wf_cells_def push_value_def)

lemma set_register_wf: "wf_cells s \<Longrightarrow> int32_range v \<Longrightarrow> wf_cells (set_register i v s)"
proof -
  assume s: "wf_cells s" and v: "int32_range v"
  have "list_all (pred_option int32_range) ((st_registers s)[i := Some v])"
    using s v set_update_subset_insert [of "st_registers s" i "Some v"] by (auto simp: wf_cells_def list_all_iff)
  then show ?thesis using s by (simp add: wf_cells_def set_register_def)
qed

lemma store_cell_wf:
  assumes "wf_cells s" "a \<le> 65535" "int32_range v" "store_cell a v s = Some n"
  shows "wf_cells n \<and> st_registers n = st_registers s \<and> st_halted n = st_halted s"
proof (cases "a \<in> set (map fst (st_memory s))")
  case True
  then have n: "n = s\<lparr>st_memory := map (\<lambda>c. if fst c = a then (a, Some v) else c) (st_memory s)\<rparr>"
    using assms(4) by (simp add: store_cell_def)
  have "map fst (map (\<lambda>c. if fst c = a then (a, Some v) else c) (st_memory s)) = map fst (st_memory s)"
    by (induction "st_memory s") auto
  then have "sorted_wrt (<) (map fst (map (\<lambda>c. if fst c = a then (a, Some v) else c) (st_memory s)))"
    using assms(1) by (simp add: wf_cells_def del: map_map)
  then show ?thesis using assms(1-3) by (auto simp: n wf_cells_def list_all_iff simp del: map_map)
next
  case False
  then have few: "length (st_memory s) < 256" and n: "n = s\<lparr>st_memory := sort_key fst (st_memory s @ [(a, Some v)])\<rparr>"
    using assms(4) by (auto simp: store_cell_def split: if_splits)
  have "distinct (map fst (st_memory s))" using assms(1) by (simp add: wf_cells_def strict_sorted_iff)
  then have d: "distinct (map fst (st_memory s @ [(a, Some v)]))" using False by simp
  have "mset (map fst (sort_key fst (st_memory s @ [(a, Some v)]))) = mset (map fst (st_memory s @ [(a, Some v)]))"
    by (simp only: mset_map mset_sort)
  then have "distinct (map fst (sort_key fst (st_memory s @ [(a, Some v)])))"
    using d mset_eq_imp_distinct_iff by blast
  then have "sorted_wrt (<) (map fst (sort_key fst (st_memory s @ [(a, Some v)])))"
    by (simp add: strict_sorted_iff)
  then show ?thesis using assms(1-3) few by (auto simp: n wf_cells_def list_all_iff)
qed

lemma register_value_range: "wf_cells s \<Longrightarrow> register_value s i = Some v \<Longrightarrow> int32_range v"
  by (auto simp: register_value_def wf_cells_def list_all_length split: if_splits dest!: spec [of _ "nat i"])

lemma wf_cells_pc [simp]: "wf_cells (s\<lparr>st_pc := p\<rparr>) = wf_cells s" "wf_cells (s\<lparr>st_pc := p, st_halted := h\<rparr>) = wf_cells s"
  by (simp_all add: wf_cells_def)

lemma address_le: "address m = Some a \<Longrightarrow> a \<le> 65535"
  by (auto simp: address_def split: if_splits)

lemmas perform_evals = bind_eq_Some_conv push_value_def set_register_def

lemma perform_wf:
  assumes "perform op operands pc s = Some n" "wf_cells s" "list_all int32_range operands"
  shows "wf_cells n \<and> length (st_registers n) = length (st_registers s) \<and>
    st_halted n = (op = Halt \<or> st_halted s)"
  using assms
proof (induction op operands pc s rule: perform.induct)
  case (1 v pc s)
  then show ?case using push_value_wf [of s v] by (auto simp: push_value_def split: if_splits)
next
  case (2 pc s)
  then obtain r s1 l s2 where r: "pop_value s = Some (r, s1)" and l: "pop_value s1 = Some (l, s2)"
    and n: "n = push_value (wrap32 (l + r)) s2" by (auto simp: bind_eq_Some_conv)
  have s1: "wf_cells s1" "st_registers s1 = st_registers s" "st_halted s1 = st_halted s"
    using pop_value_wf [OF 2(2) r] by auto
  have s2: "wf_cells s2 \<and> length (st_stack s2) < 128 \<and> st_registers s2 = st_registers s1 \<and> st_halted s2 = st_halted s1"
    using pop_value_wf [OF s1(1) l] by auto
  then have "wf_cells n" unfolding n by (intro push_value_wf wrap32_range) simp_all
  then show ?case using s1 s2 by (simp add: n push_value_def)
next
  case (3 r v pc s)
  then show ?case using set_register_wf [of s v] by (auto simp: set_register_def)
next
  case (4 r a b pc s)
  then show ?case using set_register_wf [of s, OF _ wrap32_range] by (auto simp: bind_eq_Some_conv set_register_def)
next
  case (5 r m pc s)
  then obtain a v d where m: "map_of (st_memory s) a = Some (Some v)" and n: "n = set_register d v s"
    by (auto simp: bind_eq_Some_conv)
  have "int32_range v" using 5(2) map_of_SomeD [OF m] by (auto simp: wf_cells_def list_all_iff)
  from set_register_wf [OF 5(2) this] show ?case by (simp add: n) (simp add: set_register_def)
next
  case (6 m r pc s)
  then obtain a v where "address m = Some a" "register_value s r = Some v" "store_cell a v s = Some n"
    by (auto simp: bind_eq_Some_conv)
  from store_cell_wf [OF 6(2) address_le [OF this(1)] register_value_range [OF 6(2) this(2)] this(3)]
  show ?case by simp
qed (auto simp: bind_eq_Some_conv split: if_splits)

lemma perform_unsupported: "op \<notin> set operations \<Longrightarrow> perform op operands pc s = None"
  by (cases op) (auto simp: operations_def)

lemma predict_wf:
  assumes "predict s op arch = Some n" "wf_state (sp_before s)" "list_all int32_range (sp_operands s)"
  shows "wf_state n \<and> length (st_registers n) = length (st_registers (sp_before s)) \<and>
    st_halted n = (op = Halt \<or> st_halted (sp_before s))"
proof -
  let ?b = "(sp_before s)\<lparr>st_pc := st_pc (sp_before s) + sp_size s\<rparr>"
  have p: "perform op (sp_operands s) (st_pc (sp_before s)) ?b = Some n" "st_pc n \<le> 65535"
    using assms(1) by (auto simp: predict_def Let_def bind_eq_Some_conv split: if_splits)
  have "wf_cells ?b" using assms(2) by (simp add: wf_state_def)
  from perform_wf [OF p(1) this assms(3)] p(2) show ?thesis by (simp add: wf_state_def)
qed

section \<open>Accepted traces\<close>

lemma int32_in_range: "int32 v \<Longrightarrow> int32_range (int_of v)"
proof -
  assume "int32 v"
  then obtain r where v: "v = Num (Fin r)" "- 2147483648 \<le> r" "r \<le> 2147483647"
    by (auto simp: int32_def is_integer_def split: js.splits jsnum.splits)
  then have "\<lfloor>- 2147483648 :: rat\<rfloor> \<le> \<lfloor>r\<rfloor>" "\<lfloor>r\<rfloor> \<le> \<lfloor>2147483647 :: rat\<rfloor>" by (simp_all only: floor_mono)
  then show ?thesis by (simp add: int32_range_def int_of_def v(1))
qed

lemma value_of_range: "vm_value v \<Longrightarrow> pred_option int32_range (value_of v)"
  by (auto simp: vm_value_def value_of_def int32_in_range)

lemma floor_nat_bounds:
  assumes "of_nat lo \<le> (r :: rat)" "r \<le> of_nat hi"
  shows "0 \<le> \<lfloor>r\<rfloor>" "lo \<le> nat \<lfloor>r\<rfloor>" "nat \<lfloor>r\<rfloor> \<le> hi"
proof -
  have lo: "int lo \<le> \<lfloor>r\<rfloor>" using assms(1) by (simp add: le_floor_iff)
  moreover have "\<lfloor>r\<rfloor> \<le> \<lfloor>of_nat hi :: rat\<rfloor>" by (rule floor_mono [OF assms(2)])
  ultimately have "0 \<le> \<lfloor>r\<rfloor> \<and> lo \<le> nat \<lfloor>r\<rfloor> \<and> nat \<lfloor>r\<rfloor> \<le> hi" unfolding floor_of_nat by linarith
  then show "0 \<le> \<lfloor>r\<rfloor>" "lo \<le> nat \<lfloor>r\<rfloor>" "nat \<lfloor>r\<rfloor> \<le> hi" by blast+
qed

lemma count_le: "vm_count v \<Longrightarrow> num_of v \<le> 65535 \<Longrightarrow> 0 \<le> int_of v \<and> nat_of v \<le> 65535"
  using floor_nat_bounds [of 0 "num_of v" 65535] by (simp add: vm_count_def int_of_def nat_of_def)

lemma read_cells_wf:
  assumes "read_cells previous cs = Inr cells"
  shows "length cells = length cs \<and> sorted_wrt (<) (map fst cells) \<and> (\<forall>c \<in> set cells. previous < int (fst c)) \<and>
    list_all (\<lambda>c. fst c \<le> 65535 \<and> pred_option int32_range (snd c)) cells"
  using assms
proof (induction cs arbitrary: previous cells)
  case (Cons c cs)
  then obtain ds where ok: "cell_ok previous c" and ds: "read_cells (int_of (arr_of c ! 0)) cs = Inr ds"
    and cells: "cells = (nat_of (arr_of c ! 0), value_of (arr_of c ! 1)) # ds"
    by (auto simp: result_simps split: if_splits)
  have a: "0 \<le> int_of (arr_of c ! 0)" "nat_of (arr_of c ! 0) \<le> 65535" "previous < int_of (arr_of c ! 0)"
    using ok count_le by (auto simp: cell_ok_def)
  have "int (nat_of (arr_of c ! 0)) = int_of (arr_of c ! 0)" using a by (simp add: nat_of_def)
  then show ?case
    using Cons.IH [OF ds] a ok value_of_range by (auto simp: cells cell_ok_def)
qed simp

lemma read_state_wf: "read_state v = Inr s \<Longrightarrow> wf_state s"
proof -
  assume "read_state v = Inr s"
  then obtain cells where ok: "state_shape_ok v" and c: "read_cells (- 1) (arr_of (getp v ''memory'')) = Inr cells"
    and s: "s = \<lparr>st_pc = nat_of (getp v ''pc''), st_halted = truthy (getp v ''halted''),
      st_registers = map value_of (arr_of (getp v ''registers'')),
      st_stack = map value_of (arr_of (getp v ''stack'')), st_memory = cells\<rparr>"
    by (auto simp: read_state_def result_simps split: if_splits)
  show ?thesis
    using ok read_cells_wf [OF c] count_le [of "getp v ''pc''"]
    by (simp add: s wf_state_def wf_cells_def state_shape_ok_def list_all_iff value_of_range)
qed

definition wf_step :: "vm_step \<Rightarrow> bool" where
  "wf_step s =
     (wf_state (sp_before s) \<and> wf_state (sp_after s) \<and> \<not> st_halted (sp_before s) \<and>
      list_all int32_range (sp_operands s) \<and> length (sp_operands s) \<le> 8 \<and> 1 \<le> sp_size s \<and> sp_size s \<le> 64 \<and>
      sp_refs s \<noteq> [] \<and> opcode_text (sp_opcode s))"

text \<open>Neighbouring steps: sequence numbers rise, consecutive ones agree on the state between them.\<close>

definition follows :: "bool \<Rightarrow> vm_step \<Rightarrow> vm_step \<Rightarrow> bool" where
  "follows whole p s =
     (sp_sequence p < sp_sequence s \<and> (sp_sequence s = Suc (sp_sequence p) \<longrightarrow> sp_after p = sp_before s) \<and>
      (whole \<longrightarrow> sp_sequence s = Suc (sp_sequence p)))"

fun linked :: "bool \<Rightarrow> vm_step option \<Rightarrow> vm_step list \<Rightarrow> bool" where
  "linked whole previous [] = True"
| "linked whole previous (s # ss) =
     ((case previous of None \<Rightarrow> True | Some p \<Rightarrow> follows whole p s) \<and> linked whole (Some s) ss)"

lemma read_step_wf:
  assumes "read_step v = Inr s" "\<not> st_halted (sp_before s)"
  shows "wf_step s"
proof -
  obtain b a where ok: "step_shape_ok v" and b: "read_state (getp v ''before'') = Inr b"
    and a: "read_state (getp v ''after'') = Inr a"
    and s: "s = \<lparr>sp_sequence = nat_of (getp v ''sequence''), sp_opcode = str_of (getp v ''opcode''),
      sp_operands = map int_of (arr_of (getp v ''operands'')), sp_size = nat_of (getp v ''instruction_size''),
      sp_before = b, sp_after = a, sp_refs = map str_of (arr_of (getp v ''evidence_refs''))\<rparr>"
    using assms(1) by (auto simp: read_step_def result_simps split: if_splits)
  have "1 \<le> nat_of (getp v ''instruction_size'') \<and> nat_of (getp v ''instruction_size'') \<le> 64"
    using ok floor_nat_bounds [of 1 "num_of (getp v ''instruction_size'')" 64]
    by (simp add: nat_of_def int_of_def step_shape_ok_def Let_def)
  then show ?thesis
    using ok read_state_wf [OF b] read_state_wf [OF a] assms(2)
    by (auto simp: s wf_step_def step_shape_ok_def Let_def list_all_iff int32_in_range)
qed

lemma follow_checks_ok:
  assumes "first_failure (follow_checks whole previous s) = Inr u"
  shows "\<not> st_halted (sp_before s) \<and> (case previous of None \<Rightarrow> True | Some p \<Rightarrow> follows whole p s)"
proof (cases previous)
  case (Some p)
  have ok: "\<forall>c \<in> set (follow_checks whole previous s). \<not> fst c" using assms by (auto simp: result_simps)
  show ?thesis using ok by (auto simp: Some follow_checks_def follows_def not_le)
next
  case None
  then show ?thesis using assms by (simp add: follow_checks_def split: if_splits)
qed

lemma read_steps_wf:
  assumes "read_steps whole previous vs = Inr ss"
  shows "list_all wf_step ss \<and> linked whole previous ss \<and> length ss = length vs"
  using assms
proof (induction vs arbitrary: previous ss)
  case (Cons v vs)
  then obtain s rest where s: "read_step v = Inr s" and c: "first_failure (follow_checks whole previous s) = Inr ()"
    and r: "read_steps whole (Some s) vs = Inr rest" and ss: "ss = s # rest"
    by (auto simp: result_simps)
  have "\<not> st_halted (sp_before s)" "case previous of None \<Rightarrow> True | Some p \<Rightarrow> follows whole p s"
    using follow_checks_ok [OF c] by simp_all
  then show ?case using Cons.IH [OF r] read_step_wf [OF s] by (simp add: ss)
qed simp

definition wf_trace :: "vm_trace \<Rightarrow> bool" where
  "wf_trace t =
     (tr_steps t \<noteq> [] \<and> length (tr_steps t) \<le> 256 \<and> list_all wf_step (tr_steps t) \<and>
      linked (tc_complete (tr_coverage t)) None (tr_steps t) \<and>
      (tc_complete (tr_coverage t) \<longrightarrow> tc_dropped_steps (tr_coverage t) = 0))"

lemma trace_wf: "vm_trace_of v = Inr t \<Longrightarrow> wf_trace t"
proof -
  assume "vm_trace_of v = Inr t"
  then obtain ss where ok: "trace_header_ok v"
    and cov: "\<not> (tc_complete (read_coverage (getp v ''coverage'')) \<and> tc_dropped_steps (read_coverage (getp v ''coverage'')) \<noteq> 0)"
    and ss: "read_steps (tc_complete (read_coverage (getp v ''coverage''))) None (arr_of (getp v ''steps'')) = Inr ss"
    and t: "tr_coverage t = read_coverage (getp v ''coverage'')" "tr_steps t = ss"
    by (auto simp: vm_trace_of_def Let_def result_simps split: if_splits)
  have "length ss = length (arr_of (getp v ''steps''))" using read_steps_wf [OF ss] by simp
  then have "ss \<noteq> [] \<and> length ss \<le> 256" using ok by (auto simp: trace_header_ok_def Let_def)
  then show ?thesis using cov read_steps_wf [OF ss] by (auto simp: wf_trace_def t)
qed

end
