(* ===== verification/VmReports.thy ===== *)
theory VmReports
  imports VmTrace
begin

text \<open>
  Reports over accepted traces: \<open>effects\<close>, snapshot cells, \<open>step\<close>, \<open>compareSteps\<close>,
  \<open>occurrences\<close>, \<open>validate\<close>, \<open>inspect\<close> and \<open>observedPath\<close> of
  \<open>apps/research-ui/vm_semantics.js\<close>. Locations \<open>registers:3\<close> are values of a datatype whose
  linear order is \<open>locationOrder\<close>; constant members of the reports (formats, trust and
  equivalence flags) are left out.
\<close>

section \<open>Locations and cells\<close>

datatype vm_location = LocPc | LocHalted | LocRegister nat | LocStack nat | LocMemory nat

text \<open>The index in \<open>namespaces\<close> and the number after the colon.\<close>

fun location_rank :: "vm_location \<Rightarrow> nat" where
  "location_rank LocPc = 0"
| "location_rank LocHalted = 1"
| "location_rank (LocRegister _) = 2"
| "location_rank (LocStack _) = 3"
| "location_rank (LocMemory _) = 4"

fun location_index :: "vm_location \<Rightarrow> nat" where
  "location_index (LocRegister i) = i"
| "location_index (LocStack i) = i"
| "location_index (LocMemory i) = i"
| "location_index _ = 0"

lemma location_eqI: "location_rank a = location_rank b \<Longrightarrow> location_index a = location_index b \<Longrightarrow> a = b"
  by (cases a; cases b) auto

instantiation vm_location :: linorder
begin

definition less_eq_vm_location :: "vm_location \<Rightarrow> vm_location \<Rightarrow> bool" where
  "less_eq_vm_location a b =
     (location_rank a < location_rank b \<or> location_rank a = location_rank b \<and> location_index a \<le> location_index b)"

definition less_vm_location :: "vm_location \<Rightarrow> vm_location \<Rightarrow> bool" where
  "less_vm_location a b =
     (location_rank a < location_rank b \<or> location_rank a = location_rank b \<and> location_index a < location_index b)"

instance
  by standard (auto simp: less_eq_vm_location_def less_vm_location_def intro: location_eqI)

end

fun location_text :: "vm_location \<Rightarrow> string" where
  "location_text LocPc = ''pc''"
| "location_text LocHalted = ''halted''"
| "location_text (LocRegister i) = ''registers:'' @ to_base 10 i"
| "location_text (LocStack i) = ''stack:'' @ to_base 10 i"
| "location_text (LocMemory i) = ''memory:'' @ to_base 10 i"

text \<open>\<open>(0|[1-9][0-9]*)$\<close> and \<open>Number\<close> of the match.\<close>

definition index_text :: "string \<Rightarrow> bool" where
  "index_text s = (s \<noteq> [] \<and> list_all digit s \<and> (hd s = CHR ''0'' \<longrightarrow> s = ''0''))"

definition index_value :: "string \<Rightarrow> nat" where
  "index_value s = foldl (\<lambda>n c. 10 * n + (of_char c - 48)) 0 s"

definition after_prefix :: "string \<Rightarrow> string \<Rightarrow> string option" where
  "after_prefix p s = (if prefix p s then Some (drop (length p) s) else None)"

definition parse_index :: "string \<Rightarrow> nat \<Rightarrow> (nat \<Rightarrow> vm_location) \<Rightarrow> vm_error + vm_location" where
  "parse_index s bound mk =
     (if \<not> index_text s then Inl (Refused ''Expected pc, halted, registers:N, stack:N or memory:N'')
      else if bound < index_value s then Inl (Refused ''VM location index exceeds its namespace bounds'')
      else Inr (mk (index_value s)))"

definition parse_location :: "js \<Rightarrow> vm_error + vm_location" where
  "parse_location input =
     (if input = Str ''pc'' then Inr LocPc else if input = Str ''halted'' then Inr LocHalted
      else if \<not> is_str input \<or> 12 < length (str_of input) then Inl (Refused ''Expected an exact VM location'')
      else let s = str_of input in
        case after_prefix ''registers:'' s of
          Some t \<Rightarrow> parse_index t 63 LocRegister
        | None \<Rightarrow>
          case after_prefix ''stack:'' s of
            Some t \<Rightarrow> parse_index t 127 LocStack
          | None \<Rightarrow>
            case after_prefix ''memory:'' s of
              Some t \<Rightarrow> parse_index t 65535 LocMemory
            | None \<Rightarrow> Inl (Refused ''Expected pc, halted, registers:N, stack:N or memory:N''))"

text \<open>A cell value is a number, a boolean or \<open>null\<close>.\<close>

datatype cell_value = CellNumber int | CellBool bool | CellNull

record cell =
  cell_present :: bool
  cell_content :: cell_value

fun cell_of :: "int option \<Rightarrow> cell_value" where
  "cell_of None = CellNull"
| "cell_of (Some v) = CellNumber v"

definition recorded :: "cell_value \<Rightarrow> cell" where
  "recorded v = \<lparr>cell_present = True, cell_content = v\<rparr>"

definition absent :: cell where
  "absent = \<lparr>cell_present = False, cell_content = CellNull\<rparr>"

definition snapshotCells :: "vm_state \<Rightarrow> (vm_location \<times> cell) list" where
  "snapshotCells s =
     [(LocPc, recorded (CellNumber (int (st_pc s)))), (LocHalted, recorded (CellBool (st_halted s)))] @
     map (\<lambda>(i, v). (LocRegister i, recorded (cell_of v))) (enumerate 0 (st_registers s)) @
     map (\<lambda>(i, v). (LocStack i, recorded (cell_of v))) (enumerate 0 (st_stack s)) @
     map (\<lambda>(a, v). (LocMemory a, recorded (cell_of v))) (st_memory s)"

definition cellAt :: "(vm_location \<times> cell) list \<Rightarrow> vm_location \<Rightarrow> cell" where
  "cellAt cells key = (case map_of cells key of Some c \<Rightarrow> c | None \<Rightarrow> absent)"

definition changed :: "cell \<Rightarrow> cell \<Rightarrow> bool" where
  "changed a b = (cell_present a \<noteq> cell_present b \<or> cell_content a \<noteq> cell_content b)"

datatype observation_status = Different | StatusUnknown | ObservedEqual

definition observationStatus :: "cell \<Rightarrow> cell \<Rightarrow> observation_status" where
  "observationStatus a b =
     (if cell_present a \<noteq> cell_present b then Different
      else if \<not> cell_present a \<or> cell_content a = CellNull \<or> cell_content b = CellNull then StatusUnknown
      else if cell_content a = cell_content b then ObservedEqual else Different)"

section \<open>Effects\<close>

record change =
  ch_location :: vm_location
  ch_before :: cell_value
  ch_after :: cell_value
  ch_presence :: "(bool \<times> bool) option"

definition nth_or_none :: "'a list \<Rightarrow> nat \<Rightarrow> 'a option" where
  "nth_or_none xs i = (if i < length xs then Some (xs ! i) else None)"

text \<open>\<open>x ?? null\<close> of an element that may be \<open>undefined\<close>.\<close>

definition element_value :: "int option option \<Rightarrow> cell_value" where
  "element_value x = (case x of None \<Rightarrow> CellNull | Some v \<Rightarrow> cell_of v)"

definition list_effects :: "(nat \<Rightarrow> vm_location) \<Rightarrow> int option list \<Rightarrow> int option list \<Rightarrow> change list" where
  "list_effects loc before after =
     concat (map (\<lambda>i.
       if nth_or_none before i \<noteq> nth_or_none after i
       then [\<lparr>ch_location = loc i, ch_before = element_value (nth_or_none before i),
              ch_after = element_value (nth_or_none after i),
              ch_presence = Some (i < length before, i < length after)\<rparr>]
       else []) [0..<max (length before) (length after)])"

definition js_set :: "'a list \<Rightarrow> 'a list" where
  "js_set xs = foldl (\<lambda>s x. set_add x s) [] xs"

definition memory_effects :: "(nat \<times> int option) list \<Rightarrow> (nat \<times> int option) list \<Rightarrow> change list" where
  "memory_effects a b =
     concat (map (\<lambda>i.
       if map_of a i \<noteq> map_of b i
       then [\<lparr>ch_location = LocMemory i, ch_before = element_value (map_of a i), ch_after = element_value (map_of b i),
              ch_presence = Some (map_of a i \<noteq> None, map_of b i \<noteq> None)\<rparr>]
       else []) (sort (js_set (map fst a @ map fst b))))"

definition effects :: "vm_step \<Rightarrow> change list" where
  "effects s =
     (let b = sp_before s; a = sp_after s in
      (if st_pc b \<noteq> st_pc a
       then [\<lparr>ch_location = LocPc, ch_before = CellNumber (int (st_pc b)), ch_after = CellNumber (int (st_pc a)),
              ch_presence = None\<rparr>] else []) @
      (if st_halted b \<noteq> st_halted a
       then [\<lparr>ch_location = LocHalted, ch_before = CellBool (st_halted b), ch_after = CellBool (st_halted a),
              ch_presence = None\<rparr>] else []) @
      list_effects LocRegister (st_registers b) (st_registers a) @
      list_effects LocStack (st_stack b) (st_stack a) @
      memory_effects (st_memory b) (st_memory a))"

section \<open>Selected steps\<close>

definition has_gap :: "vm_step list \<Rightarrow> bool" where
  "has_gap steps = list_ex (\<lambda>(p, s). sp_sequence s \<noteq> sp_sequence p + 1) (zip steps (tl steps))"

definition reportWarnings :: "vm_trace \<Rightarrow> string list" where
  "reportWarnings t =
     [''Supplied identity and origin are not authenticated.'',
      ''Snapshots establish differences only, not reads, intermediate writes or causal dependence.'',
      ''A different status can mean supplied observation availability differs, not that runtime values are known to differ.'',
      ''Unknown or absent cells do not establish equal values; observed equality is not semantic equivalence.''] @
     (if \<not> tc_complete (tr_coverage t) then [''Trace coverage is incomplete; omitted execution is unknown.''] else []) @
     (if tc_dropped_steps (tr_coverage t) \<noteq> 0
      then [''Reported dropped steps: '' @ to_base 10 (tc_dropped_steps (tr_coverage t)) @ ''.''] else []) @
     (if has_gap (tr_steps t)
      then [''Retained sequence gaps exist; neighboring retained steps are not necessarily consecutive execution.''] else []) @
     (if tc_limitations (tr_coverage t) \<noteq> []
      then [''Supplied coverage limitations apply; see coverage.limitations.''] else [])"

record step_cell =
  sc_location :: vm_location
  sc_before :: cell
  sc_after :: cell
  sc_changed :: bool
  sc_status :: observation_status

record step_report =
  sr_identity :: trace_identity
  sr_architecture :: architecture
  sr_step :: vm_step
  sr_cells :: "step_cell list"
  sr_changes :: "change list"
  sr_previous :: "nat option"
  sr_next :: "nat option"
  sr_warnings :: "string list"

definition union_keys :: "(vm_location \<times> 'a) list \<Rightarrow> (vm_location \<times> 'a) list \<Rightarrow> vm_location list" where
  "union_keys a b = sort (js_set (map fst a @ map fst b))"

definition step_cells :: "vm_step \<Rightarrow> step_cell list" where
  "step_cells s =
     (let before = snapshotCells (sp_before s); after = snapshotCells (sp_after s) in
      map (\<lambda>l. let a = cellAt before l; b = cellAt after l in
        \<lparr>sc_location = l, sc_before = a, sc_after = b, sc_changed = changed a b, sc_status = observationStatus a b\<rparr>)
        (union_keys before after))"

definition find_index :: "('a \<Rightarrow> bool) \<Rightarrow> 'a list \<Rightarrow> nat option" where
  "find_index p xs = find (\<lambda>i. p (xs ! i)) [0..<length xs]"

definition selectedStep :: "vm_trace \<Rightarrow> js \<Rightarrow> vm_error + step_report" where
  "selectedStep t sequence =
     (if \<not> vm_count sequence then Inl (Refused ''Expected an exact nonnegative safe-integer sequence'')
      else case find_index (\<lambda>s. sp_sequence s = nat_of sequence) (tr_steps t) of
        None \<Rightarrow> Inl (Refused ''Step not retained'')
      | Some i \<Rightarrow>
          let s = tr_steps t ! i in
          Inr \<lparr>sr_identity = tr_identity t, sr_architecture = tr_architecture t, sr_step = s, sr_cells = step_cells s,
               sr_changes = effects s,
               sr_previous = (if i = 0 then None else Some (sp_sequence (tr_steps t ! (i - 1)))),
               sr_next = map_option sp_sequence (nth_or_none (tr_steps t) (i + 1)),
               sr_warnings = reportWarnings t\<rparr>)"

definition step :: "js \<Rightarrow> js \<Rightarrow> vm_error + step_report" where
  "step input sequence = bindE (vm_trace_of input) (\<lambda>t. selectedStep t sequence)"

section \<open>Comparison of two steps\<close>

record compared_cell =
  cc_location :: vm_location
  cc_left_before :: cell
  cc_left_after :: cell
  cc_right_before :: cell
  cc_right_after :: cell
  cc_before_status :: observation_status
  cc_after_status :: observation_status
  cc_status :: observation_status

record step_comparison =
  sm_left :: step_report
  sm_right :: step_report
  sm_cells :: "compared_cell list"
  sm_warnings :: "string list"

definition join_status :: "observation_status \<Rightarrow> observation_status \<Rightarrow> observation_status" where
  "join_status a b =
     (if Different \<in> {a, b} then Different else if StatusUnknown \<in> {a, b} then StatusUnknown else ObservedEqual)"

definition compared :: "(vm_location \<times> step_cell) list \<Rightarrow> (vm_location \<times> step_cell) list \<Rightarrow> vm_location \<Rightarrow> compared_cell" where
  "compared a b l =
     (let lb = (case map_of a l of Some c \<Rightarrow> sc_before c | None \<Rightarrow> absent);
          la = (case map_of a l of Some c \<Rightarrow> sc_after c | None \<Rightarrow> absent);
          rb = (case map_of b l of Some c \<Rightarrow> sc_before c | None \<Rightarrow> absent);
          ra = (case map_of b l of Some c \<Rightarrow> sc_after c | None \<Rightarrow> absent)
      in \<lparr>cc_location = l, cc_left_before = lb, cc_left_after = la, cc_right_before = rb, cc_right_after = ra,
          cc_before_status = observationStatus lb rb, cc_after_status = observationStatus la ra,
          cc_status = join_status (observationStatus lb rb) (observationStatus la ra)\<rparr>)"

definition differingIdentity :: "trace_identity \<Rightarrow> trace_identity \<Rightarrow> string list" where
  "differingIdentity a b =
     (if ti_investigation_id a \<noteq> ti_investigation_id b then [''investigation_id''] else []) @
     (if ti_finding_id a \<noteq> ti_finding_id b then [''finding_id''] else []) @
     (if ti_artifact_id a \<noteq> ti_artifact_id b then [''artifact_id''] else []) @
     (if ti_artifact_sha256 a \<noteq> ti_artifact_sha256 b then [''artifact_sha256''] else []) @
     (if ti_scope_id a \<noteq> ti_scope_id b then [''scope_id''] else [])"

definition compareSteps :: "js \<Rightarrow> js \<Rightarrow> js \<Rightarrow> js \<Rightarrow> vm_error + step_comparison" where
  "compareSteps left_input left_sequence right_input right_sequence =
     bindE (step left_input left_sequence) (\<lambda>left. bindE (step right_input right_sequence) (\<lambda>right.
       let a = map (\<lambda>c. (sc_location c, c)) (sr_cells left); b = map (\<lambda>c. (sc_location c, c)) (sr_cells right);
           differing = differingIdentity (sr_identity left) (sr_identity right)
       in Inr \<lparr>sm_left = left, sm_right = right, sm_cells = map (compared a b) (union_keys a b),
            sm_warnings =
              js_set (sr_warnings left @ sr_warnings right) @
              [''Only the two explicitly selected sequence IDs are compared; no instruction, location or trace alignment is inferred.'',
               ''Matching location names compare supplied namespaces and indices, not proven corresponding runtime storage.'',
               ''PC values and instruction sizes use capture-adapter-defined units; units may differ between traces.'',
               ''Matching supplied identities, artifact hashes or exact input-file hashes do not establish trace alignment or corresponding execution.''] @
              (if differing \<noteq> []
               then [''Supplied evidence identities differ: '' @ join_with '', '' differing @ ''. Cross-source correspondence is unproven.'']
               else []) @
              (if sr_architecture left \<noteq> sr_architecture right
               then [''Selected traces use different architectures; location names do not establish corresponding semantics.'']
               else [])\<rparr>))"

section \<open>Occurrences\<close>

record occurrence =
  on_sequence :: nat
  on_step_opcode :: string
  on_before :: cell
  on_after :: cell
  on_changed :: bool
  on_status :: observation_status
  on_refs :: "string list"

record occurrence_page =
  og_location :: vm_location
  og_items :: "occurrence list"
  og_total :: nat
  og_page :: nat
  og_next_page :: "nat option"
  og_refs :: "string list"

definition observations :: "vm_trace \<Rightarrow> vm_location \<Rightarrow> occurrence list" where
  "observations t key =
     concat (map (\<lambda>s.
       let before = cellAt (snapshotCells (sp_before s)) key; after = cellAt (snapshotCells (sp_after s)) key in
       if cell_present before \<or> cell_present after
       then [\<lparr>on_sequence = sp_sequence s, on_step_opcode = sp_opcode s, on_before = before, on_after = after,
              on_changed = changed before after, on_status = observationStatus before after, on_refs = sp_refs s\<rparr>]
       else []) (tr_steps t))"

definition occurrences :: "js \<Rightarrow> js \<Rightarrow> js \<Rightarrow> js \<Rightarrow> vm_error + occurrence_page" where
  "occurrences input selected page page_size =
     bindE (vm_trace_of input) (\<lambda>t. bindE (parse_location selected) (\<lambda>key.
       if \<not> (vm_count page \<and> is_integer page_size \<and> 1 \<le> num_of page_size \<and> num_of page_size \<le> 64 \<and>
             num_of page * num_of page_size \<le> max_safe)
       then Inl (Refused ''Expected a nonnegative safe page and page size 1-64'')
       else
         let obs = observations t key; size = nat_of page_size; offset = nat_of page * size;
             items = slice offset (offset + size) obs
         in Inr \<lparr>og_location = key, og_items = items, og_total = length obs, og_page = nat_of page,
                 og_next_page = (if offset + length items < length obs then Some (nat_of page + 1) else None),
                 og_refs = js_set (concat (map on_refs items))\<rparr>))"

section \<open>Hypotheses\<close>

datatype validation_status = NoMapping | Unsupported | Matched | Contradicted

record validation =
  va_sequence :: nat
  va_opcode :: string
  va_operation :: "operation option"
  va_status :: validation_status
  va_expected :: "vm_state option"
  va_observed :: vm_state

definition operation_word :: "operation \<Rightarrow> string" where
  "operation_word op = (case find (\<lambda>e. snd e = op) operation_names of Some e \<Rightarrow> fst e | None \<Rightarrow> [])"

definition operation_of :: "js \<Rightarrow> operation option" where
  "operation_of v = (case v of Str s \<Rightarrow> find (\<lambda>op. operation_word op = s) operations | _ \<Rightarrow> None)"

fun read_mappings :: "vm_step list \<Rightarrow> js list \<Rightarrow> (string \<times> operation) list \<Rightarrow> vm_error + (string \<times> operation) list" where
  "read_mappings steps [] maps = Inr maps"
| "read_mappings steps (m # ms) maps =
     (case operation_of (getp m ''operation'') of
        Some op \<Rightarrow>
          if exact m [''opcode'', ''operation''] \<and> is_str (getp m ''opcode'') \<and>
             list_ex (\<lambda>s. sp_opcode s = str_of (getp m ''opcode'')) steps \<and>
             map_of maps (str_of (getp m ''opcode'')) = None
          then read_mappings steps ms (maps @ [(str_of (getp m ''opcode''), op)])
          else Inl (Refused ''Invalid or duplicate opcode hypothesis'')
      | None \<Rightarrow> Inl (Refused ''Invalid or duplicate opcode hypothesis''))"

definition validate_step :: "architecture \<Rightarrow> (string \<times> operation) list \<Rightarrow> vm_step \<Rightarrow> validation" where
  "validate_step arch maps s =
     (let op = map_of maps (sp_opcode s);
          expected = Option.bind op (\<lambda>f. predict s f arch)
      in \<lparr>va_sequence = sp_sequence s, va_opcode = sp_opcode s, va_operation = op,
          va_status = (case op of None \<Rightarrow> NoMapping | Some f \<Rightarrow>
            (case expected of None \<Rightarrow> Unsupported | Some n \<Rightarrow> if n = sp_after s then Matched else Contradicted)),
          va_expected = expected, va_observed = sp_after s\<rparr>)"

definition hypotheses_ok :: "vm_trace \<Rightarrow> js \<Rightarrow> bool" where
  "hypotheses_ok t h =
     (exact h [''format'', ''trace_id'', ''mappings''] \<and> getp h ''format'' = Str ''reb-vm-hypothesis-v1'' \<and>
      getp h ''trace_id'' = Str (ti_trace_id (tr_identity t)) \<and> is_arr (getp h ''mappings'') \<and>
      length (arr_of (getp h ''mappings'')) \<le> 256)"

definition validate :: "js \<Rightarrow> js \<Rightarrow> vm_error + validation list" where
  "validate input hypotheses =
     bindE (vm_trace_of input) (\<lambda>t.
       if \<not> hypotheses_ok t hypotheses then Inl (Refused ''Invalid hypothesis identity or bounds'')
       else bindE (read_mappings (tr_steps t) (arr_of (getp hypotheses ''mappings'')) []) (\<lambda>maps.
         Inr (map (validate_step (tr_architecture t) maps) (tr_steps t))))"

record opcode_report =
  op_report_opcode :: string
  op_observations :: nat
  op_sequences :: "nat list"
  op_candidates :: "operation list"

record step_summary =
  ss_sequence :: nat
  ss_opcode :: string
  ss_operands :: "int list"
  ss_from :: nat
  ss_to :: nat
  ss_changes :: "change list"
  ss_refs :: "string list"

record inspection =
  is_opcodes :: "opcode_report list"
  is_steps :: "step_summary list"

definition fits :: "architecture \<Rightarrow> operation \<Rightarrow> vm_step \<Rightarrow> bool" where
  "fits arch op s = (predict s op arch = Some (sp_after s))"

definition inspect_opcode :: "vm_trace \<Rightarrow> string \<Rightarrow> opcode_report" where
  "inspect_opcode t opcode =
     (let steps = filter (\<lambda>s. sp_opcode s = opcode) (tr_steps t)
      in \<lparr>op_report_opcode = opcode, op_observations = length steps, op_sequences = map sp_sequence steps,
          op_candidates = filter (\<lambda>op. list_all (fits (tr_architecture t) op) steps) operations\<rparr>)"

definition inspect :: "js \<Rightarrow> vm_error + inspection" where
  "inspect input =
     bindE (vm_trace_of input) (\<lambda>t.
       Inr \<lparr>is_opcodes = map (inspect_opcode t) (js_set (map sp_opcode (tr_steps t))),
            is_steps = map (\<lambda>s. \<lparr>ss_sequence = sp_sequence s, ss_opcode = sp_opcode s, ss_operands = sp_operands s,
              ss_from = st_pc (sp_before s), ss_to = st_pc (sp_after s), ss_changes = effects s,
              ss_refs = sp_refs s\<rparr>) (tr_steps t)\<rparr>)"

section \<open>The observed path\<close>

datatype pc_movement = HaltedSnapshot | MatchesAdvance | DiffersFromAdvance

record path_node =
  pn_sequence :: nat
  pn_pc_before :: nat
  pn_pc_after :: nat
  pn_opcode :: string
  pn_operands :: "int list"
  pn_size :: nat
  pn_refs :: "string list"
  pn_halted_after :: bool
  pn_advance :: "nat option"
  pn_movement :: pc_movement

record path_edge =
  pe_from :: nat
  pe_to :: nat
  pe_observed_pc :: nat
  pe_refs :: "string list"

record path_gap =
  pg_before :: nat
  pg_after :: nat
  pg_missing :: nat

record observed_path =
  pa_nodes :: "path_node list"
  pa_edges :: "path_edge list"
  pa_gaps :: "path_gap list"

definition path_node_of :: "vm_step \<Rightarrow> path_node" where
  "path_node_of s =
     (let advance = st_pc (sp_before s) + sp_size s in
      \<lparr>pn_sequence = sp_sequence s, pn_pc_before = st_pc (sp_before s), pn_pc_after = st_pc (sp_after s),
       pn_opcode = sp_opcode s, pn_operands = sp_operands s, pn_size = sp_size s, pn_refs = sp_refs s,
       pn_halted_after = st_halted (sp_after s), pn_advance = (if advance \<le> 65535 then Some advance else None),
       pn_movement = (if st_halted (sp_after s) then HaltedSnapshot
         else if st_pc (sp_after s) = advance then MatchesAdvance else DiffersFromAdvance)\<rparr>)"

definition path_edge_of :: "vm_step \<times> vm_step \<Rightarrow> path_edge list" where
  "path_edge_of ps =
     (case ps of (p, s) \<Rightarrow>
        if sp_sequence s = sp_sequence p + 1
        then [\<lparr>pe_from = sp_sequence p, pe_to = sp_sequence s, pe_observed_pc = st_pc (sp_after p),
               pe_refs = js_set (sp_refs p @ sp_refs s)\<rparr>]
        else [])"

definition path_gap_of :: "vm_step \<times> vm_step \<Rightarrow> path_gap list" where
  "path_gap_of ps =
     (case ps of (p, s) \<Rightarrow>
        if sp_sequence s = sp_sequence p + 1 then []
        else [\<lparr>pg_before = sp_sequence p, pg_after = sp_sequence s, pg_missing = sp_sequence s - sp_sequence p - 1\<rparr>])"

definition observedPath :: "js \<Rightarrow> vm_error + observed_path" where
  "observedPath input =
     bindE (vm_trace_of input) (\<lambda>t.
       let steps = tr_steps t; pairs = zip steps (tl steps) in
       Inr \<lparr>pa_nodes = map path_node_of steps, pa_edges = concat (map path_edge_of pairs),
            pa_gaps = concat (map path_gap_of pairs)\<rparr>)"

end
