(* ===== verification/VmReportClaims.thy ===== *)
theory VmReportClaims
  imports VmReports
begin

text \<open>
  What the reports of \<open>VmReports\<close> promise: predictions stay inside the bounds of an accepted
  state, candidates are the hypotheses that validate, and the two routines that show what a
  step changed agree.
\<close>

section \<open>A sample trace\<close>

definition state_js :: "nat \<Rightarrow> bool \<Rightarrow> js list \<Rightarrow> js list \<Rightarrow> js" where
  "state_js pc halted stack memory =
     Obj [(''pc'', int_js pc), (''halted'', Bool halted), (''registers'', Arr []), (''stack'', Arr stack),
          (''memory'', Arr memory)]"

definition step_js :: "nat \<Rightarrow> string \<Rightarrow> js list \<Rightarrow> nat \<Rightarrow> js \<Rightarrow> js \<Rightarrow> js" where
  "step_js sequence opcode operands width before after =
     Obj [(''sequence'', int_js sequence), (''opcode'', Str opcode), (''operands'', Arr operands),
          (''instruction_size'', int_js width), (''before'', before), (''after'', after),
          (''evidence_refs'', Arr [Str ''e''])]"

definition sample_identity :: js where
  "sample_identity =
     Obj [(''trace_id'', Str ''t''), (''investigation_id'', Str ''i''), (''finding_id'', Str ''f''),
          (''artifact_id'', Str ''a''), (''artifact_sha256'', Str (replicate 64 CHR ''0'')), (''scope_id'', Str ''s''),
          (''backend'', Str ''fixture'')]"

definition sample_trace :: js where
  "sample_trace =
     Obj [(''format'', Str ''reb-vm-trace-v1''), (''identity'', sample_identity), (''architecture'', Str ''stack''),
          (''coverage'', Obj [(''complete'', Bool True), (''dropped_steps'', int_js 0), (''limitations'', Arr [])]),
          (''steps'', Arr
            [step_js 0 ''01'' [int_js 5] 2 (state_js 0 False [] []) (state_js 2 False [int_js 5] []),
             step_js 1 ''ff'' [] 1 (state_js 2 False [int_js 5] []) (state_js 2 True [int_js 5] [])])]"

definition sample_state :: "nat \<Rightarrow> bool \<Rightarrow> int option list \<Rightarrow> vm_state" where
  "sample_state pc halted stack =
     \<lparr>st_pc = pc, st_halted = halted, st_registers = [], st_stack = stack, st_memory = []\<rparr>"

definition sample_steps_of_trace :: "vm_step list" where
  "sample_steps_of_trace =
     [\<lparr>sp_sequence = 0, sp_opcode = ''01'', sp_operands = [5], sp_size = 2, sp_before = sample_state 0 False [],
       sp_after = sample_state 2 False [Some 5], sp_refs = [''e'']\<rparr>,
      \<lparr>sp_sequence = 1, sp_opcode = ''ff'', sp_operands = [], sp_size = 1, sp_before = sample_state 2 False [Some 5],
       sp_after = sample_state 2 True [Some 5], sp_refs = [''e'']\<rparr>]"

lemmas trace_js = sample_trace_def sample_identity_def step_js_def state_js_def
lemmas trace_evals = check_value.simps vm_count_def int32_def vm_value_def value_of_def is_integer_def opcode_text_def
  vm_evals

lemma sample_states:
  "read_state (state_js 0 False [] []) = Inr (sample_state 0 False [])"
  "read_state (state_js 2 False [int_js 5] []) = Inr (sample_state 2 False [Some 5])"
  "read_state (state_js 2 True [int_js 5] []) = Inr (sample_state 2 True [Some 5])"
  by (simp_all add: read_state_def state_shape_ok_def state_js_def sample_state_def trace_evals)

lemma sample_step_values:
  "read_step (step_js 0 ''01'' [int_js 5] 2 (state_js 0 False [] []) (state_js 2 False [int_js 5] [])) =
     Inr (sample_steps_of_trace ! 0)"
  "read_step (step_js 1 ''ff'' [] 1 (state_js 2 False [int_js 5] []) (state_js 2 True [int_js 5] [])) =
     Inr (sample_steps_of_trace ! 1)"
  by (simp_all add: read_step_def step_shape_ok_def step_js_def sample_states) (simp_all add: sample_steps_of_trace_def trace_evals)

lemma sample_trace_checked: "\<exists>n. check_value sample_trace 0 0 = Inr n" "json_bytes sample_trace \<le> 1048576"
  by (simp_all add: trace_js trace_evals sum_list_replicate)

lemma sample_trace_accepted: "\<exists>t. vm_trace_of sample_trace = Inr t \<and> tr_steps t = sample_steps_of_trace \<and>
    tr_architecture t = StackMachine \<and> ti_trace_id (tr_identity t) = ''t''"
proof -
  have "trace_header_ok sample_trace"
    by (simp add: trace_header_ok_def sample_trace_def sample_identity_def identity_keys_def trace_evals)
      (simp add: list_all_iff lower_hex_def digit_def between_def)
  moreover have "read_steps True None (arr_of (getp sample_trace ''steps'')) = Inr sample_steps_of_trace"
    by (simp add: sample_trace_def sample_step_values del: One_nat_def) (simp add: sample_steps_of_trace_def follow_checks_def sample_state_def)
  ultimately show ?thesis
    using sample_trace_checked
    by (auto simp: vm_trace_of_def) (auto simp: sample_trace_def read_coverage_def read_identity_def sample_identity_def trace_evals)
qed

section \<open>Prediction\<close>

text \<open>
  C30. A prediction is again a bounded state. Every step of an accepted trace starts from and
  ends in states with a program counter of 16 bits, at most 64 registers, 128 stack entries
  and 256 cells in strictly rising addresses, all values of 32 bits; whatever \<open>predict\<close> gives
  for any operation is such a state too, with as many registers, halted exactly after \<open>halt\<close>,
  and it predicts nothing for an operation outside its list.
\<close>

theorem predictions_bounded:
  assumes "vm_trace_of v = Inr t" "s \<in> set (tr_steps t)" "predict s op arch = Some n"
  shows "wf_state (sp_before s) \<and> wf_state (sp_after s) \<and> wf_state n \<and>
    length (st_registers n) = length (st_registers (sp_before s)) \<and> (st_halted n \<longleftrightarrow> op = Halt) \<and> op \<in> set operations"
proof -
  have s: "wf_step s" using trace_wf [OF assms(1)] assms(2) by (simp add: wf_trace_def list_all_iff)
  then have "wf_state n \<and> length (st_registers n) = length (st_registers (sp_before s)) \<and>
      st_halted n = (op = Halt \<or> st_halted (sp_before s))"
    by (intro predict_wf [OF assms(3)]) (simp_all add: wf_step_def)
  moreover have "op \<in> set operations"
    using assms(3) perform_unsupported by (force simp: predict_def Let_def bind_eq_Some_conv split: if_splits)
  ultimately show ?thesis using s by (simp add: wf_step_def)
qed

lemma sample_predictions:
  "predict (sample_steps_of_trace ! 0) StackConst StackMachine = Some (sample_state 2 False [Some 5])"
  "predict (sample_steps_of_trace ! 1) Halt StackMachine = Some (sample_state 2 True [Some 5])"
  by (simp_all add: predict_def wrong_architecture_def sample_steps_of_trace_def sample_state_def push_value_def)

lemma predictions_bounded_witness:
  "wf_state (sample_state 2 False [Some 5]) \<and> StackConst \<in> set operations"
proof -
  obtain t where t: "vm_trace_of sample_trace = Inr t" "tr_steps t = sample_steps_of_trace"
    using sample_trace_accepted by blast
  have "sample_steps_of_trace ! 0 \<in> set (tr_steps t)" by (simp add: t(2) sample_steps_of_trace_def)
  from predictions_bounded [OF t(1) this sample_predictions(1)] show ?thesis by simp
qed

section \<open>Candidates and hypotheses\<close>

text \<open>The hypothesis document that maps one opcode to one operation.\<close>

definition single_hypothesis :: "vm_trace \<Rightarrow> string \<Rightarrow> operation \<Rightarrow> js" where
  "single_hypothesis t opcode op =
     Obj [(''format'', Str ''reb-vm-hypothesis-v1''), (''trace_id'', Str (ti_trace_id (tr_identity t))),
          (''mappings'', Arr [Obj [(''opcode'', Str opcode), (''operation'', Str (operation_word op))]])]"

lemma operation_of_word: "op \<in> set operations \<Longrightarrow> operation_of (Str (operation_word op)) = Some op"
  by (auto simp: operations_def operation_of_def operation_word_def operation_names_def)

lemma validate_single:
  assumes "vm_trace_of v = Inr t" "opcode \<in> set (map sp_opcode (tr_steps t))" "op \<in> set operations"
  shows "validate v (single_hypothesis t opcode op) = Inr (map (validate_step (tr_architecture t) [(opcode, op)]) (tr_steps t))"
proof -
  have "list_ex (\<lambda>s. sp_opcode s = opcode) (tr_steps t)" using assms(2) by (auto simp: list_ex_iff)
  then have "read_mappings (tr_steps t) [Obj [(''opcode'', Str opcode), (''operation'', Str (operation_word op))]] [] =
      Inr [(opcode, op)]"
    using operation_of_word [OF assms(3)] by (simp add: exact_def)
  then show ?thesis
    by (simp add: validate_def assms(1) hypotheses_ok_def) (simp add: single_hypothesis_def exact_def)
qed

lemma validate_step_matched:
  "va_status (validate_step arch [(opcode, op)] s) = Matched \<longleftrightarrow> sp_opcode s = opcode \<and> fits arch op s"
  by (auto simp: validate_step_def fits_def Let_def split: option.splits)

lemma js_set_fold: "set (foldl (\<lambda>s x. set_add x s) acc xs) = set acc \<union> set xs \<and>
    (distinct acc \<longrightarrow> distinct (foldl (\<lambda>s x. set_add x s) acc xs))"
  by (induction xs arbitrary: acc) auto

lemma set_js_set [simp]: "set (js_set xs) = set xs" and distinct_js_set [simp]: "distinct (js_set xs)"
  using js_set_fold [of "[]" xs] by (simp_all add: js_set_def)

text \<open>
  C31. The inspector's candidates are exactly the hypotheses that validate: for every opcode of
  an accepted trace and every operation the report has one entry, and it lists the operation
  as a candidate if and only if the validator marks every step with that opcode as matched
  under the hypothesis that maps the opcode to the operation.
\<close>

theorem candidates_validate:
  assumes "vm_trace_of v = Inr t" "opcode \<in> set (map sp_opcode (tr_steps t))" "op \<in> set operations"
  shows "\<exists>i r. inspect v = Inr i \<and> validate v (single_hypothesis t opcode op) = Inr r \<and>
    length (filter (\<lambda>x. op_report_opcode x = opcode) (is_opcodes i)) = 1 \<and>
    (\<forall>x \<in> set (is_opcodes i). op_report_opcode x = opcode \<longrightarrow>
      (op \<in> set (op_candidates x) \<longleftrightarrow> (\<forall>y \<in> set r. va_opcode y = opcode \<longrightarrow> va_status y = Matched)))"
proof -
  let ?ops = "map (inspect_opcode t) (js_set (map sp_opcode (tr_steps t)))"
  let ?r = "map (validate_step (tr_architecture t) [(opcode, op)]) (tr_steps t)"
  have name: "op_report_opcode (inspect_opcode t c) = c" for c by (simp add: inspect_opcode_def Let_def)
  have "length (filter (\<lambda>c. c = opcode) (js_set (map sp_opcode (tr_steps t)))) = 1"
    using distinct_length_filter [of "js_set (map sp_opcode (tr_steps t))" "\<lambda>c. c = opcode"] assms(2)
    by (simp add: Int_absorb2 Collect_conv_if)
  then have one: "length (filter (\<lambda>x. op_report_opcode x = opcode) ?ops) = 1" by (simp add: filter_map comp_def name)
  have op: "va_opcode (validate_step (tr_architecture t) [(opcode, op)] s) = sp_opcode s" for s
    by (simp add: validate_step_def Let_def)
  have cand: "op \<in> set (op_candidates (inspect_opcode t opcode)) \<longleftrightarrow>
      (\<forall>s \<in> set (tr_steps t). sp_opcode s = opcode \<longrightarrow> fits (tr_architecture t) op s)"
    using assms(3) by (auto simp: inspect_opcode_def Let_def list_all_iff)
  have "(\<forall>y \<in> set ?r. va_opcode y = opcode \<longrightarrow> va_status y = Matched) \<longleftrightarrow>
      (\<forall>s \<in> set (tr_steps t). sp_opcode s = opcode \<longrightarrow> fits (tr_architecture t) op s)"
    using op by (simp add: validate_step_matched)
  then have "\<forall>x \<in> set ?ops. op_report_opcode x = opcode \<longrightarrow>
      (op \<in> set (op_candidates x) \<longleftrightarrow> (\<forall>y \<in> set ?r. va_opcode y = opcode \<longrightarrow> va_status y = Matched))"
    using cand by (auto simp: name)
  then show ?thesis
    using one validate_single [OF assms] by (simp add: inspect_def assms(1) del: filter_map)
qed

lemma candidates_validate_witness:
  "\<exists>t i r. vm_trace_of sample_trace = Inr t \<and> inspect sample_trace = Inr i \<and>
     validate sample_trace (single_hypothesis t ''ff'' Halt) = Inr r \<and>
     length (filter (\<lambda>x. op_report_opcode x = ''ff'') (is_opcodes i)) = 1"
proof -
  obtain t where t: "vm_trace_of sample_trace = Inr t" "tr_steps t = sample_steps_of_trace"
    using sample_trace_accepted by blast
  have "''ff'' \<in> set (map sp_opcode (tr_steps t))" "Halt \<in> set operations"
    by (simp_all add: t(2) sample_steps_of_trace_def operations_def)
  from candidates_validate [OF t(1) this] t(1) show ?thesis by blast
qed

end
