(* ===== verification/VmLedger.thy ===== *)
theory VmLedger
  imports VmDefinition
begin

text \<open>
  Opcode ledgers: what a researcher asserts about the opcodes of a definition, checked against
  the definition and counted, as \<open>inspectWithHash\<close> of \<open>apps/research-ui/vm_opcode_ledger.js\<close>
  does. The strict JSON parser of \<open>captured_client.js\<close>, which also lists the number tokens it
  read, and the SHA-256 digest of a text are the arguments \<open>parse_tokens\<close> and \<open>hash\<close>.
\<close>

section \<open>Data\<close>

datatype assertion_status = Observed | Inferred | Unmodeled

datatype test_status = TestNotRun | TestPassed | TestFailed | TestInconclusive

definition assertion_names :: "(string \<times> assertion_status) list" where
  "assertion_names = [(''observed'', Observed), (''inferred'', Inferred), (''unmodeled'', Unmodeled)]"

definition test_names :: "(string \<times> test_status) list" where
  "test_names =
     [(''not_run'', TestNotRun), (''passed'', TestPassed), (''failed'', TestFailed), (''inconclusive'', TestInconclusive)]"

type_synonym evidence_ref = "string \<times> string option"

record ledger_entry =
  le_opcode :: string
  le_status :: assertion_status
  le_meaning :: "string option"
  le_handler :: "(string \<times> nat) option"
  le_operand_format :: "string option"
  le_source_refs :: "evidence_ref list"
  le_test_status :: test_status
  le_test_refs :: "evidence_ref list"
  le_questions :: "string list"

record coverage_row =
  cv_opcode :: string
  cv_status :: assertion_status
  cv_present :: bool
  cv_operation :: operation
  cv_meaning :: "string option"
  cv_test :: test_status
  cv_operands :: "operand_spec list"
  cv_little :: bool

record ledger_counts =
  lc_observed :: nat
  lc_inferred :: nat
  lc_unmodeled :: nat
  lc_missing :: nat

record ledger_analysis =
  la_source_sha256 :: string
  la_definition_sha256 :: string
  la_executes_imported_code :: bool
  la_references_verified :: bool
  la_tests_executed :: bool
  la_ledger :: js
  la_total :: nat
  la_counts :: ledger_counts
  la_opcodes :: "coverage_row list"

definition LEDGER_BYTES :: nat where "LEDGER_BYTES = 1048576"
definition LEDGER_ENTRIES :: nat where "LEDGER_ENTRIES = 256"
definition LEDGER_REFERENCES :: nat where "LEDGER_REFERENCES = 16"
definition LEDGER_QUESTIONS :: nat where "LEDGER_QUESTIONS = 16"
definition LEDGER_TEXT :: nat where "LEDGER_TEXT = 1024"

definition ledger_refusal :: vm_error where
  "ledger_refusal = Refused ''Invalid bounded reb-vm-opcode-ledger-v1 or mismatched definition.''"

section \<open>Checks\<close>

definition utf8_bytes :: "string \<Rightarrow> nat" where
  "utf8_bytes s = sum_list (map (\<lambda>c. if (of_char c :: nat) < 128 then 1 else 2) s)"

text \<open>
  Characters here are the first 256 code points, so the control classes of \<open>text\<close> that remain
  are the two control blocks, and a text has as many code points as characters.
\<close>

definition ledger_text :: "js \<Rightarrow> bool" where
  "ledger_text v =
     (is_str v \<and> str_of v \<noteq> '''' \<and> length (str_of v) \<le> LEDGER_TEXT \<and>
      list_all (\<lambda>c. let k = (of_char c :: nat) in \<not> k \<le> 31 \<and> \<not> (127 \<le> k \<and> k \<le> 159)) (str_of v))"

text \<open>\<open>/^(0|[1-9][0-9]*)$/\<close> and \<open>Number.isSafeInteger(Number(token))\<close>.\<close>

definition decimal_value :: "string \<Rightarrow> nat" where
  "decimal_value s = foldl (\<lambda>n c. 10 * n + (of_char c - 48)) 0 s"

definition plain_number :: "string \<Rightarrow> bool" where
  "plain_number s =
     (list_all digit s \<and> (s = ''0'' \<or> s \<noteq> '''' \<and> hd s \<noteq> CHR ''0'') \<and> decimal_value s \<le> 9007199254740991)"

definition text_or_null :: "js \<Rightarrow> bool" where
  "text_or_null v = (v = Null \<or> ledger_text v)"

definition text_option :: "js \<Rightarrow> string option" where
  "text_option v = (if v = Null then None else Some (str_of v))"

definition handler_ok :: "js \<Rightarrow> bool" where
  "handler_ok v =
     (v = Null \<or>
      exact v [''artifact_id'', ''byte_offset''] \<and> vm_identifier (getp v ''artifact_id'') \<and>
      is_safe_integer (getp v ''byte_offset'') \<and> 0 \<le> num_of (getp v ''byte_offset''))"

definition read_handler :: "js \<Rightarrow> (string \<times> nat) option" where
  "read_handler v = (if v = Null then None else Some (str_of (getp v ''artifact_id''), nat_of (getp v ''byte_offset'')))"

text \<open>References of one list, \<open>seen\<close> being those already read.\<close>

definition ref_ok :: "js \<Rightarrow> bool" where
  "ref_ok v =
     (exact v [''artifact_id'', ''event_id''] \<and> vm_identifier (getp v ''artifact_id'') \<and>
      (getp v ''event_id'' = Null \<or> vm_identifier (getp v ''event_id'')))"

definition read_ref :: "js \<Rightarrow> evidence_ref" where
  "read_ref v = (str_of (getp v ''artifact_id''), text_option (getp v ''event_id''))"

fun read_refs :: "js list \<Rightarrow> evidence_ref list \<Rightarrow> vm_error + evidence_ref list" where
  "read_refs [] seen = Inr seen"
| "read_refs (v # vs) seen =
     (if \<not> ref_ok v \<or> read_ref v \<in> set seen then Inl ledger_refusal else read_refs vs (seen @ [read_ref v]))"

definition read_ref_list :: "js \<Rightarrow> vm_error + evidence_ref list" where
  "read_ref_list v =
     (if \<not> is_arr v \<or> LEDGER_REFERENCES < length (arr_of v) then Inl ledger_refusal else read_refs (arr_of v) [])"

definition entry_fields_ok :: "string list \<Rightarrow> string list \<Rightarrow> js \<Rightarrow> bool" where
  "entry_fields_ok codes earlier v =
     (exact v [''opcode'', ''status'', ''meaning'', ''handler_location'', ''operand_format'', ''source_refs'', ''test_status'',
               ''test_refs'', ''unresolved_questions''] \<and>
      one_of codes (getp v ''opcode'') \<and> \<not> one_of earlier (getp v ''opcode'') \<and>
      one_of (map fst assertion_names) (getp v ''status'') \<and>
      text_or_null (getp v ''meaning'') \<and>
      \<not> (if getp v ''status'' = Str ''unmodeled'' then getp v ''meaning'' \<noteq> Null else getp v ''meaning'' = Null) \<and>
      text_or_null (getp v ''operand_format'') \<and>
      one_of (map fst test_names) (getp v ''test_status''))"

definition read_entry :: "string list \<Rightarrow> string list \<Rightarrow> js \<Rightarrow> vm_error + ledger_entry" where
  "read_entry codes earlier v =
     (if \<not> entry_fields_ok codes earlier v \<or> \<not> handler_ok (getp v ''handler_location'') then Inl ledger_refusal
      else
        bindE (read_ref_list (getp v ''source_refs'')) (\<lambda>source_refs.
        bindE (read_ref_list (getp v ''test_refs'')) (\<lambda>test_refs.
          let questions = getp v ''unresolved_questions'' in
          if getp v ''status'' \<noteq> Str ''unmodeled'' \<and> source_refs = [] \<or>
             (if getp v ''test_status'' = Str ''not_run'' then test_refs \<noteq> [] else test_refs = []) \<or>
             \<not> is_arr questions \<or> LEDGER_QUESTIONS < length (arr_of questions) \<or> \<not> list_all ledger_text (arr_of questions)
          then Inl ledger_refusal
          else Inr \<lparr>le_opcode = str_of (getp v ''opcode''),
                    le_status = the (map_of assertion_names (str_of (getp v ''status''))),
                    le_meaning = text_option (getp v ''meaning''), le_handler = read_handler (getp v ''handler_location''),
                    le_operand_format = text_option (getp v ''operand_format''), le_source_refs = source_refs,
                    le_test_status = the (map_of test_names (str_of (getp v ''test_status''))), le_test_refs = test_refs,
                    le_questions = map str_of (arr_of questions)\<rparr>)))"

fun read_entries :: "string list \<Rightarrow> js list \<Rightarrow> ledger_entry list \<Rightarrow> vm_error + ledger_entry list" where
  "read_entries codes [] entries = Inr entries"
| "read_entries codes (v # vs) entries =
     bindE (read_entry codes (map le_opcode entries) v) (\<lambda>e. read_entries codes vs (entries @ [e]))"

section \<open>Coverage\<close>

definition find_entry :: "ledger_entry list \<Rightarrow> string \<Rightarrow> ledger_entry option" where
  "find_entry entries code = find (\<lambda>e. le_opcode e = code) entries"

definition coverage_row_of :: "vm_definition \<Rightarrow> ledger_entry list \<Rightarrow> opcode_spec \<Rightarrow> coverage_row" where
  "coverage_row_of d entries op =
     (let entry = find_entry entries (oc_code op) in
      \<lparr>cv_opcode = oc_code op, cv_status = (case entry of Some e \<Rightarrow> le_status e | None \<Rightarrow> Unmodeled),
       cv_present = (entry \<noteq> None), cv_operation = oc_operation op,
       cv_meaning = (case entry of Some e \<Rightarrow> le_meaning e | None \<Rightarrow> None),
       cv_test = (case entry of Some e \<Rightarrow> le_test_status e | None \<Rightarrow> TestNotRun),
       cv_operands = oc_operands op, cv_little = vd_little d\<rparr>)"

definition count_row :: "ledger_counts \<Rightarrow> coverage_row \<Rightarrow> ledger_counts" where
  "count_row c r =
     (let c = (case cv_status r of Observed \<Rightarrow> c\<lparr>lc_observed := Suc (lc_observed c)\<rparr>
               | Inferred \<Rightarrow> c\<lparr>lc_inferred := Suc (lc_inferred c)\<rparr>
               | Unmodeled \<Rightarrow> c\<lparr>lc_unmodeled := Suc (lc_unmodeled c)\<rparr>)
      in if cv_present r then c else c\<lparr>lc_missing := Suc (lc_missing c)\<rparr>)"

fun coverage_loop :: "vm_definition \<Rightarrow> ledger_entry list \<Rightarrow> opcode_spec list \<Rightarrow> ledger_counts \<Rightarrow> coverage_row list \<Rightarrow>
    ledger_counts \<times> coverage_row list" where
  "coverage_loop d entries [] counts rows = (counts, rows)"
| "coverage_loop d entries (op # ops) counts rows =
     (let r = coverage_row_of d entries op in coverage_loop d entries ops (count_row counts r) (rows @ [r]))"

section \<open>Inspection\<close>

definition ledger_header_ok :: "(js \<Rightarrow> string) \<Rightarrow> js \<Rightarrow> vm_definition \<Rightarrow> js \<Rightarrow> bool" where
  "ledger_header_ok hash definition_text d v =
     (exact v [''format'', ''definition_id'', ''definition_source_sha256'', ''entries''] \<and>
      getp v ''format'' = Str ''reb-vm-opcode-ledger-v1'' \<and> getp v ''definition_id'' = Str (vd_id d) \<and>
      getp v ''definition_source_sha256'' = Str (hash definition_text) \<and>
      is_arr (getp v ''entries'') \<and> length (arr_of (getp v ''entries'')) \<le> LEDGER_ENTRIES)"

definition inspectWithHash ::
  "(string \<Rightarrow> vm_error + (js \<times> string list)) \<Rightarrow> (string \<Rightarrow> vm_error + js) \<Rightarrow> js \<Rightarrow> js \<Rightarrow> (js \<Rightarrow> string) \<Rightarrow> vm_error + ledger_analysis" where
  "inspectWithHash parse_tokens parse input definition_text hash =
     (case input of
        Str s \<Rightarrow>
          if LEDGER_BYTES < utf8_bytes s then Inl ledger_refusal
          else
            bindE (parse_tokens s) (\<lambda>(v, tokens).
            if \<not> list_all plain_number tokens then Inl ledger_refusal
            else
              bindE (parseDefinition parse definition_text) (\<lambda>d.
              if \<not> ledger_header_ok hash definition_text d v then Inl ledger_refusal
              else
                bindE (read_entries (map oc_code (vd_opcodes d)) (arr_of (getp v ''entries'')) []) (\<lambda>entries.
                let (counts, rows) = coverage_loop d entries (vd_opcodes d)
                      \<lparr>lc_observed = 0, lc_inferred = 0, lc_unmodeled = 0, lc_missing = 0\<rparr> []
                in Inr \<lparr>la_source_sha256 = hash input, la_definition_sha256 = hash definition_text,
                        la_executes_imported_code = False, la_references_verified = False, la_tests_executed = False,
                        la_ledger = v, la_total = length (vd_opcodes d), la_counts = counts, la_opcodes = rows\<rparr>)))
      | _ \<Rightarrow> Inl ledger_refusal)"

text \<open>The empty ledger of a definition.\<close>

definition createLedger :: "(string \<Rightarrow> vm_error + js) \<Rightarrow> js \<Rightarrow> (js \<Rightarrow> string) \<Rightarrow> vm_error + js" where
  "createLedger parse definition_text hash =
     bindE (parseDefinition parse definition_text) (\<lambda>d.
       if \<not> is_str definition_text then Inl ledger_refusal
       else Inr (Obj [(''format'', Str ''reb-vm-opcode-ledger-v1''), (''definition_id'', Str (vd_id d)),
                      (''definition_source_sha256'', Str (hash definition_text)), (''entries'', Arr [])]))"

text \<open>\<open>inspectLedger\<close> hashes both texts and bounds their lengths first.\<close>

definition inspectLedger ::
  "(string \<Rightarrow> vm_error + (js \<times> string list)) \<Rightarrow> (string \<Rightarrow> vm_error + js) \<Rightarrow> js \<Rightarrow> js \<Rightarrow> (js \<Rightarrow> string) \<Rightarrow> vm_error + ledger_analysis" where
  "inspectLedger parse_tokens parse input definition_text sha256 =
     (if \<not> is_str input \<or> LEDGER_BYTES < length (str_of input) \<or> \<not> is_str definition_text \<or>
         LEDGER_BYTES < length (str_of definition_text)
      then Inl ledger_refusal
      else
        bindE (parseDefinition parse definition_text) (\<lambda>_.
          inspectWithHash parse_tokens parse input definition_text
            (\<lambda>v. if v = definition_text then sha256 definition_text else sha256 input)))"

section \<open>What an accepted ledger guarantees\<close>

definition entry_ok :: "string list \<Rightarrow> ledger_entry \<Rightarrow> bool" where
  "entry_ok codes e =
     (le_opcode e \<in> set codes \<and> (le_status e = Unmodeled) = (le_meaning e = None) \<and>
      (le_status e = Unmodeled \<or> le_source_refs e \<noteq> []) \<and> (le_test_status e = TestNotRun) = (le_test_refs e = []) \<and>
      distinct (le_source_refs e) \<and> distinct (le_test_refs e) \<and>
      length (le_source_refs e) \<le> LEDGER_REFERENCES \<and> length (le_test_refs e) \<le> LEDGER_REFERENCES \<and>
      length (le_questions e) \<le> LEDGER_QUESTIONS)"

lemma read_refs_distinct:
  "read_refs vs seen = Inr refs \<Longrightarrow> distinct seen \<Longrightarrow> distinct refs \<and> length refs = length seen + length vs"
  by (induction vs seen rule: read_refs.induct) (auto split: if_splits)

lemma read_ref_list_ok: "read_ref_list v = Inr refs \<Longrightarrow> distinct refs \<and> length refs \<le> LEDGER_REFERENCES"
  by (auto simp: read_ref_list_def dest: read_refs_distinct split: if_splits)

lemma status_unmodeled:
  "one_of (map fst assertion_names) v \<Longrightarrow> (the (map_of assertion_names (str_of v)) = Unmodeled) = (v = Str ''unmodeled'')"
  by (auto simp: one_of_Str assertion_names_def)

lemma status_not_run:
  "one_of (map fst test_names) v \<Longrightarrow> (the (map_of test_names (str_of v)) = TestNotRun) = (v = Str ''not_run'')"
  by (auto simp: one_of_Str test_names_def)

lemma read_entry_ok:
  assumes "read_entry codes earlier v = Inr e"
  shows "entry_ok codes e \<and> le_opcode e \<notin> set earlier"
proof -
  obtain sr tr where f: "entry_fields_ok codes earlier v" and s: "read_ref_list (getp v ''source_refs'') = Inr sr"
    and t: "read_ref_list (getp v ''test_refs'') = Inr tr"
    and g: "\<not> (getp v ''status'' \<noteq> Str ''unmodeled'' \<and> sr = [] \<or>
             (if getp v ''test_status'' = Str ''not_run'' then tr \<noteq> [] else tr = []) \<or>
             \<not> is_arr (getp v ''unresolved_questions'') \<or> LEDGER_QUESTIONS < length (arr_of (getp v ''unresolved_questions'')) \<or>
             \<not> list_all ledger_text (arr_of (getp v ''unresolved_questions'')))"
    and e: "e = \<lparr>le_opcode = str_of (getp v ''opcode''),
                    le_status = the (map_of assertion_names (str_of (getp v ''status''))),
                    le_meaning = text_option (getp v ''meaning''), le_handler = read_handler (getp v ''handler_location''),
                    le_operand_format = text_option (getp v ''operand_format''), le_source_refs = sr,
                    le_test_status = the (map_of test_names (str_of (getp v ''test_status''))), le_test_refs = tr,
                    le_questions = map str_of (arr_of (getp v ''unresolved_questions''))\<rparr>"
    using assms by (auto simp: read_entry_def Let_def result_simps split: if_splits)
  have st: "one_of (map fst assertion_names) (getp v ''status'')" "one_of (map fst test_names) (getp v ''test_status'')"
    and op: "str_of (getp v ''opcode'') \<in> set codes" "str_of (getp v ''opcode'') \<notin> set earlier"
    and me: "(getp v ''status'' = Str ''unmodeled'') = (getp v ''meaning'' = Null)"
    using f by (auto simp: entry_fields_ok_def one_of_Str split: if_splits)
  show ?thesis
    using g op me read_ref_list_ok [OF s] read_ref_list_ok [OF t]
    by (auto simp: e entry_ok_def status_unmodeled [OF st(1)] status_not_run [OF st(2)] text_option_def split: if_splits)
qed

lemma read_entries_ok:
  "read_entries codes vs entries = Inr es \<Longrightarrow> list_all (entry_ok codes) entries \<Longrightarrow> distinct (map le_opcode entries) \<Longrightarrow>
     list_all (entry_ok codes) es \<and> distinct (map le_opcode es) \<and> length es = length entries + length vs"
proof (induction codes vs entries rule: read_entries.induct)
  case (2 codes v vs entries)
  then obtain e where e: "read_entry codes (map le_opcode entries) v = Inr e" "read_entries codes vs (entries @ [e]) = Inr es"
    by (auto simp: result_simps)
  then show ?case using 2(1) [OF e(2)] 2(3,4) read_entry_ok [OF e(1)] by auto
qed simp

definition status_count :: "assertion_status \<Rightarrow> coverage_row list \<Rightarrow> nat" where
  "status_count st rows = length (filter (\<lambda>r. cv_status r = st) rows)"

lemma coverage_loop_spec:
  "coverage_loop d entries ops c rows =
    (let new = map (coverage_row_of d entries) ops in
     (\<lparr>lc_observed = lc_observed c + status_count Observed new, lc_inferred = lc_inferred c + status_count Inferred new,
       lc_unmodeled = lc_unmodeled c + status_count Unmodeled new,
       lc_missing = lc_missing c + length (filter (\<lambda>r. \<not> cv_present r) new)\<rparr>, rows @ new))"
proof (induction ops arbitrary: c rows)
  case (Cons op ops)
  show ?case
    by (cases "cv_status (coverage_row_of d entries op)"; cases "cv_present (coverage_row_of d entries op)")
      (simp_all add: Cons Let_def count_row_def status_count_def)
qed (simp add: status_count_def)

lemma find_entry_None: "find_entry entries code = None \<longleftrightarrow> code \<notin> set (map le_opcode entries)"
  by (auto simp: find_entry_def find_None_iff)

lemma find_entry_Some: "find_entry entries code = Some e \<Longrightarrow> e \<in> set entries \<and> le_opcode e = code"
  by (auto simp: find_entry_def find_Some_iff)

lemma coverage_row_present: "cv_present (coverage_row_of d entries op) = (oc_code op \<in> set (map le_opcode entries))"
  using find_entry_None [of entries "oc_code op"] by (auto simp: coverage_row_of_def Let_def)

lemma missing_entries:
  assumes "distinct (map oc_code ops)" "distinct (map le_opcode entries)" "set (map le_opcode entries) \<subseteq> set (map oc_code ops)"
  shows "length (filter (\<lambda>r. \<not> cv_present r) (map (coverage_row_of d entries) ops)) + length entries = length ops"
proof -
  let ?P = "\<lambda>code. code \<in> set (map le_opcode entries)"
  have "length (filter ?P (map oc_code ops)) = card (set (filter ?P (map oc_code ops)))"
    by (rule distinct_card [symmetric]) (rule distinct_filter [OF assms(1)])
  also have "set (filter ?P (map oc_code ops)) = set (map le_opcode entries)" using assms(3) by auto
  also have "card \<dots> = length entries" using distinct_card [OF assms(2)] by simp
  finally have "length (filter ?P (map oc_code ops)) = length entries" .
  moreover have "length (filter (\<lambda>r. \<not> cv_present r) (map (coverage_row_of d entries) ops)) = length (filter (\<lambda>c. \<not> ?P c) (map oc_code ops))"
    by (simp add: filter_map comp_def coverage_row_present)
  ultimately show ?thesis using sum_length_filter_compl [of ?P "map oc_code ops"] by simp
qed

text \<open>A ledger with one observed opcode of three.\<close>

definition sample_ledger :: js where
  "sample_ledger =
     Obj [(''format'', Str ''reb-vm-opcode-ledger-v1''), (''definition_id'', Str ''sample''),
          (''definition_source_sha256'', Str ''00''),
          (''entries'', Arr
            [Obj [(''opcode'', Str ''01''), (''status'', Str ''observed''), (''meaning'', Str ''push''), (''handler_location'', Null),
                  (''operand_format'', Null),
                  (''source_refs'', Arr [Obj [(''artifact_id'', Str ''a1''), (''event_id'', Null)]]),
                  (''test_status'', Str ''not_run''), (''test_refs'', Arr []), (''unresolved_questions'', Arr [])]])]"

lemma sample_ledger_accepted:
  "\<exists>a. inspectWithHash (\<lambda>s. Inr (sample_ledger, [])) (\<lambda>s. Inl UndefinedRead) (Str ''ledger'') sample_definition (\<lambda>v. ''00'') = Inr a \<and>
     la_total a = 3 \<and> lc_observed (la_counts a) = 1 \<and> lc_missing (la_counts a) = 2 \<and> la_ledger a = sample_ledger"
  unfolding inspectWithHash_def sample_definition_accepted bindE.simps
  by (simp add: utf8_bytes_def LEDGER_BYTES_def ledger_header_ok_def sample_ledger_def exact_def sample_vm_def LEDGER_ENTRIES_def
      read_entry_def entry_fields_ok_def one_of_def assertion_names_def test_names_def text_or_null_def ledger_text_def LEDGER_TEXT_def
      handler_ok_def read_ref_list_def LEDGER_REFERENCES_def ref_ok_def vm_identifier_def identifier_text_def alpha_def digit_def
      between_def read_ref_def text_option_def LEDGER_QUESTIONS_def coverage_row_of_def find_entry_def count_row_def Let_def)

section \<open>Properties\<close>

text \<open>
  C37. An accepted ledger is accounted for against its definition: the report has one row per
  declared opcode in the definition's order, the three status counts add up to the declared
  opcodes, the missing entries and the entries of the ledger add up to them as well, and a row
  has a meaning exactly when its opcode is observed or inferred, which needs an entry.
\<close>

theorem ledger_accounts:
  assumes "inspectWithHash parse_tokens parse input definition_text hash = Inr a"
  shows "\<exists>d. parseDefinition parse definition_text = Inr d \<and>
    map cv_opcode (la_opcodes a) = map oc_code (vd_opcodes d) \<and> la_total a = length (vd_opcodes d) \<and>
    lc_observed (la_counts a) + lc_inferred (la_counts a) + lc_unmodeled (la_counts a) = la_total a \<and>
    lc_missing (la_counts a) + length (arr_of (getp (la_ledger a) ''entries'')) = la_total a \<and>
    list_all (\<lambda>r. (cv_status r = Unmodeled) = (cv_meaning r = None) \<and>
                  (cv_present r \<or> cv_status r = Unmodeled \<and> cv_test r = TestNotRun)) (la_opcodes a)"
proof -
  let ?zero = "\<lparr>lc_observed = 0, lc_inferred = 0, lc_unmodeled = 0, lc_missing = 0\<rparr>"
  obtain d v es where d: "parseDefinition parse definition_text = Inr d"
    and es: "read_entries (map oc_code (vd_opcodes d)) (arr_of (getp v ''entries'')) [] = Inr es"
    and a': "la_ledger a = v" "la_total a = length (vd_opcodes d)"
      "la_counts a = fst (coverage_loop d es (vd_opcodes d) ?zero [])" "la_opcodes a = snd (coverage_loop d es (vd_opcodes d) ?zero [])"
    using assms by (auto simp: inspectWithHash_def result_simps case_prod_unfold Let_def split: js.splits if_splits)
  define rows where "rows = map (coverage_row_of d es) (vd_opcodes d)"
  define counts where "counts = \<lparr>lc_observed = status_count Observed rows, lc_inferred = status_count Inferred rows,
       lc_unmodeled = status_count Unmodeled rows, lc_missing = length (filter (\<lambda>r. \<not> cv_present r) rows)\<rparr>"
  have a: "la_ledger a = v" "la_total a = length (vd_opcodes d)" "la_counts a = counts" "la_opcodes a = rows"
    using a' by (simp_all add: coverage_loop_spec Let_def counts_def rows_def)
  note rows = rows_def and counts = counts_def
  have ok: "list_all (entry_ok (map oc_code (vd_opcodes d))) es" "distinct (map le_opcode es)"
    "length es = length (arr_of (getp v ''entries''))" using read_entries_ok [OF es] by simp_all
  have "distinct (map oc_code (vd_opcodes d))" using parseDefinition_wf [OF d] by (simp add: wf_definition_def)
  moreover have "set (map le_opcode es) \<subseteq> set (map oc_code (vd_opcodes d))" using ok(1) by (auto simp: list_all_iff entry_ok_def)
  ultimately have missing: "length (filter (\<lambda>r. \<not> cv_present r) rows) + length es = length (vd_opcodes d)"
    unfolding rows using ok(2) by (intro missing_entries)
  have "status_count Observed rs + status_count Inferred rs + status_count Unmodeled rs = length rs" for rs
  proof (induction rs)
    case (Cons r rs)
    then show ?case by (cases "cv_status r") (simp_all add: status_count_def)
  qed (simp add: status_count_def)
  moreover have "(cv_status r = Unmodeled) = (cv_meaning r = None) \<and> (cv_present r \<or> cv_status r = Unmodeled \<and> cv_test r = TestNotRun)"
    if mem: "r \<in> set rows" for r
  proof -
    obtain op where r: "r = coverage_row_of d es op" using mem rows by auto
    show ?thesis
    proof (cases "find_entry es (oc_code op)")
      case (Some e)
      then have "entry_ok (map oc_code (vd_opcodes d)) e" using ok(1) find_entry_Some by (fastforce simp: list_all_iff)
      then show ?thesis by (simp add: r coverage_row_of_def Some entry_ok_def)
    qed (simp add: r coverage_row_of_def)
  qed
  ultimately show ?thesis using d a rows counts missing ok(3)
    by (intro exI [of _ d]) (auto simp: list_all_iff coverage_row_of_def Let_def)
qed

theorem ledger_accounts_witness:
  "\<exists>a d. inspectWithHash (\<lambda>s. Inr (sample_ledger, [])) (\<lambda>s. Inl UndefinedRead) (Str ''ledger'') sample_definition (\<lambda>v. ''00'') = Inr a \<and>
     parseDefinition (\<lambda>s. Inl UndefinedRead) sample_definition = Inr d \<and>
     lc_observed (la_counts a) + lc_inferred (la_counts a) + lc_unmodeled (la_counts a) = la_total a \<and>
     lc_missing (la_counts a) + length (arr_of (getp (la_ledger a) ''entries'')) = la_total a"
  using sample_ledger_accepted ledger_accounts by blast

end
