(* ===== verification/CapturedJson.thy ===== *)
theory CapturedJson
  imports SourceFind Digits
begin

text \<open>
  The strict JSON reader of \<open>apps/research-ui/captured_client.js\<close>: \<open>capturedClientJSON\<close> scans a
  text before it hands it to \<open>JSON.parse\<close>, because \<open>JSON.parse\<close> accepts repeated member names.
  \<open>JSON.parse\<close> itself is modelled from the grammar of the language; a number stays the token it
  was written with, \<open>Number(token)\<close> being left to its readers.
\<close>

section \<open>UTF-8\<close>

text \<open>\<open>new TextEncoder().encode(text)\<close>, as numbers below 256; an unpaired surrogate becomes U+FFFD.\<close>

definition utf8_point :: "nat \<Rightarrow> nat list" where
  "utf8_point p =
     (if p < 0x80 then [p]
      else if p < 0x800 then [0xC0 + p div 0x40, 0x80 + p mod 0x40]
      else if 0xD800 \<le> p \<and> p \<le> 0xDFFF then [0xEF, 0xBF, 0xBD]
      else if p < 0x10000 then [0xE0 + p div 0x1000, 0x80 + p div 0x40 mod 0x40, 0x80 + p mod 0x40]
      else [0xF0 + p div 0x40000, 0x80 + p div 0x1000 mod 0x40, 0x80 + p div 0x40 mod 0x40, 0x80 + p mod 0x40])"

definition utf8 :: "cus \<Rightarrow> nat list" where
  "utf8 s = concat (map (\<lambda>p. utf8_point (fst p)) (points s))"

section \<open>Values\<close>

datatype json =
    JsonNull
  | JsonBool bool
  | JsonNumber cus
  | JsonString cus
  | JsonArray "json list"
  | JsonObject "(cus \<times> json) list"

section \<open>Tokens\<close>

definition json_space :: "cu \<Rightarrow> bool" where
  "json_space c = (c = 32 \<or> c = 9 \<or> c = 13 \<or> c = 10)"

definition skip_space :: "cus \<Rightarrow> cus" where
  "skip_space s = dropWhile json_space s"

text \<open>\<open>true|false|null|-?(?:0|[1-9][0-9]*)(?:\.[0-9]+)?(?:[eE][+-]?[0-9]+)?\<close> at the start of the rest.\<close>

definition json_number :: re where
  "json_number =
     seqs [opt (chr CHR ''-''),
           Alt (chr CHR ''0'') (Seq (Cls (in_range 49 57)) (Star (Cls cu_digit))),
           opt (Seq (chr CHR ''.'') (plus (Cls cu_digit))),
           opt (seqs [Cls (one_of_cu ''eE''), opt (Cls (one_of_cu ''+-'')), plus (Cls cu_digit)])]"

definition json_token :: re where
  "json_token = alts [lit ''true'', lit ''false'', lit ''null'', json_number]"

definition token_value :: "cus \<Rightarrow> json" where
  "token_value t =
     (if t = us ''true'' then JsonBool True else if t = us ''false'' then JsonBool False
      else if t = us ''null'' then JsonNull else JsonNumber t)"

definition read_token :: "cus \<Rightarrow> (cus \<times> cus) option" where
  "read_token s = map_option (\<lambda>n. (take n s, drop n s)) (match_end json_token s 0)"

text \<open>The characters of a string literal after its opening quote, decoded, and what follows it.\<close>

definition escape_digit :: "cu \<Rightarrow> nat" where
  "escape_digit c = (if cu_digit c then unat c - 48 else if in_range 65 70 c then unat c - 55 else unat c - 87)"

definition simple_escape :: "cu \<Rightarrow> cu option" where
  "simple_escape c =
     (if c = 34 \<or> c = 92 \<or> c = 47 then Some c
      else if c = 98 then Some 8 else if c = 102 then Some 12 else if c = 110 then Some 10
      else if c = 114 then Some 13 else if c = 116 then Some 9 else None)"

definition prepend :: "cu \<Rightarrow> (cus \<times> cus) option \<Rightarrow> (cus \<times> cus) option" where
  "prepend c r = map_option (\<lambda>(d, s). (c # d, s)) r"

fun json_chars :: "cus \<Rightarrow> (cus \<times> cus) option" where
  "json_chars [] = None"
| "json_chars (c # s) =
     (if c = 34 then Some ([], s)
      else if c = 92 then
        (case s of
           [] \<Rightarrow> None
         | e # s1 \<Rightarrow>
             if e = 117 then
               (case s1 of
                  h1 # h2 # h3 # h4 # s2 \<Rightarrow>
                    if list_all cu_hex [h1, h2, h3, h4]
                    then prepend (word_of_nat (((escape_digit h1 * 16 + escape_digit h2) * 16 + escape_digit h3) * 16 + escape_digit h4))
                           (json_chars s2)
                    else None
                | _ \<Rightarrow> None)
             else (case simple_escape e of None \<Rightarrow> None | Some x \<Rightarrow> prepend x (json_chars s1)))
      else if unat c < 32 then None
      else prepend c (json_chars s))"

section \<open>The grammar\<close>

text \<open>
  \<open>JSON.parse\<close>, as the value read and the rest of the text; members keep their order and
  repetitions. \<open>None\<close> is the \<open>SyntaxError\<close>. The first argument bounds the nesting of the calls,
  which a text of \<open>n\<close> units keeps below \<open>2 * n + 2\<close>.
\<close>

fun json_value :: "nat \<Rightarrow> cus \<Rightarrow> (json \<times> cus) option"
  and json_items :: "nat \<Rightarrow> cus \<Rightarrow> (json list \<times> cus) option"
  and json_members :: "nat \<Rightarrow> cus \<Rightarrow> ((cus \<times> json) list \<times> cus) option" where
  "json_value 0 s = None"
| "json_value (Suc f) s =
     (case skip_space s of
        [] \<Rightarrow> None
      | c # r \<Rightarrow>
          if c = 34 then map_option (\<lambda>(d, s'). (JsonString d, s')) (json_chars r)
          else if c = 123 then
            (case skip_space r of
               [] \<Rightarrow> None
             | c' # r' \<Rightarrow> if c' = 125 then Some (JsonObject [], r')
                          else map_option (\<lambda>(ms, s'). (JsonObject ms, s')) (json_members f (c' # r')))
          else if c = 91 then
            (case skip_space r of
               [] \<Rightarrow> None
             | c' # r' \<Rightarrow> if c' = 93 then Some (JsonArray [], r')
                          else map_option (\<lambda>(vs, s'). (JsonArray vs, s')) (json_items f (c' # r')))
          else map_option (\<lambda>(t, s'). (token_value t, s')) (read_token (c # r)))"
| "json_items 0 s = None"
| "json_items (Suc f) s =
     Option.bind (json_value f s) (\<lambda>(v, s').
       case skip_space s' of
         [] \<Rightarrow> None
       | c # r \<Rightarrow> if c = 93 then Some ([v], r)
                   else if c = 44 then map_option (\<lambda>(vs, s''). (v # vs, s'')) (json_items f (skip_space r))
                   else None)"
| "json_members 0 s = None"
| "json_members (Suc f) s =
     (case s of
        [] \<Rightarrow> None
      | q # r \<Rightarrow>
          if q \<noteq> 34 then None
          else Option.bind (json_chars r) (\<lambda>(k, s1).
            case skip_space s1 of
              [] \<Rightarrow> None
            | c # s2 \<Rightarrow>
                if c \<noteq> 58 then None
                else Option.bind (json_value f s2) (\<lambda>(v, s').
                  case skip_space s' of
                    [] \<Rightarrow> None
                  | c # r \<Rightarrow> if c = 125 then Some ([(k, v)], r)
                              else if c = 44 then map_option (\<lambda>(ms, s''). ((k, v) # ms, s'')) (json_members f (skip_space r))
                              else None)))"

text \<open>A whole text; a repeated name keeps its first place and its last value.\<close>

definition json_tree :: "cus \<Rightarrow> json option" where
  "json_tree s =
     (case json_value (2 * length s + 2) s of
        Some (v, r) \<Rightarrow> if skip_space r = [] then Some v else None
      | None \<Rightarrow> None)"

fun collapse :: "json \<Rightarrow> json" where
  "collapse (JsonArray vs) = JsonArray (map collapse vs)"
| "collapse (JsonObject ms) = JsonObject (fold (\<lambda>(k, v). map_put k v) (map (\<lambda>(k, v). (k, collapse v)) ms) [])"
| "collapse v = v"

definition json_parse :: "cus \<Rightarrow> json option" where
  "json_parse s = map_option collapse (json_tree s)"

section \<open>The scanner\<close>

text \<open>No code point of the text is an unpaired surrogate.\<close>

definition well_formed :: "cus \<Rightarrow> bool" where
  "well_formed s = list_all (\<lambda>p. \<not> (0xD800 \<le> fst p \<and> fst p \<le> 0xDFFF)) (points s)"

text \<open>The loop of \<open>string\<close>: the units up to and with the closing quote, and the rest.\<close>

fun quoted_part :: "bool \<Rightarrow> cus \<Rightarrow> (cus \<times> cus) option" where
  "quoted_part escaped [] = None"
| "quoted_part escaped (c # s) =
     (if \<not> escaped \<and> c = 34 then Some ([c], s)
      else prepend c (quoted_part (\<not> escaped \<and> c = 92) s))"

definition scan_string :: "cus \<Rightarrow> (cus \<times> cus) option" where
  "scan_string r =
     Option.bind (quoted_part False r) (\<lambda>(part, s').
       case json_chars part of
         Some (decoded, []) \<Rightarrow> if well_formed decoded then Some (decoded, s') else None
       | _ \<Rightarrow> None)"

text \<open>\<open>key.replace(/~/g, '~0').replace(/\//g, '~1')\<close>.\<close>

definition pointer_key :: "cus \<Rightarrow> cus" where
  "pointer_key k =
     concat (map (\<lambda>c. if c = 47 then us ''~1'' else [c]) (concat (map (\<lambda>c. if c = 126 then us ''~0'' else [c]) k)))"

type_synonym lexemes = "(cus \<times> cus) list"

text \<open>\<open>value(depth, path)\<close> and its loop over elements; \<open>is_object\<close> says which bracket was opened.\<close>

definition closing :: "bool \<Rightarrow> cu" where
  "closing is_object = (if is_object then 125 else 93)"

definition scan_key :: "bool \<Rightarrow> nat \<Rightarrow> cus list \<Rightarrow> cus \<Rightarrow> (cus \<times> cus list \<times> cus) option" where
  "scan_key is_object element keys s =
     (if \<not> is_object then Some (us (to_base 10 element), keys, s)
      else
        case s of
          [] \<Rightarrow> None
        | q # r \<Rightarrow>
            if q \<noteq> 34 then None
            else Option.bind (scan_string r) (\<lambda>(k, s1).
              if k \<in> set keys then None
              else case skip_space s1 of [] \<Rightarrow> None | c # s2 \<Rightarrow> if c \<noteq> 58 then None else Some (k, k # keys, s2)))"

fun scan_value :: "nat \<Rightarrow> nat \<Rightarrow> cus \<Rightarrow> cus \<Rightarrow> lexemes \<Rightarrow> (cus \<times> lexemes) option"
  and scan_elements :: "nat \<Rightarrow> bool \<Rightarrow> nat \<Rightarrow> cus \<Rightarrow> nat \<Rightarrow> cus list \<Rightarrow> cus \<Rightarrow> lexemes \<Rightarrow> (cus \<times> lexemes) option" where
  "scan_value 0 depth path s lx = None"
| "scan_value (Suc f) depth path s lx =
     (if 64 < depth then None
      else case skip_space s of
        [] \<Rightarrow> None
      | c # r \<Rightarrow>
          if c = 34 then map_option (\<lambda>(d, s'). (s', lx)) (scan_string r)
          else if c = 123 \<or> c = 91 then
            (case skip_space r of
               [] \<Rightarrow> None
             | c' # r' \<Rightarrow> if c' = closing (c = 123) then Some (r', lx)
                          else scan_elements f (c = 123) depth path 0 [] (c' # r') lx)
          else map_option (\<lambda>(t, s'). (s', case token_value t of JsonNumber n \<Rightarrow> map_put path n lx | _ \<Rightarrow> lx))
                 (read_token (c # r)))"
| "scan_elements 0 is_object depth path element keys s lx = None"
| "scan_elements (Suc f) is_object depth path element keys s lx =
     Option.bind (scan_key is_object element keys s) (\<lambda>(key, keys', s1).
     Option.bind (scan_value f (Suc depth) (path @ us ''/'' @ pointer_key key) s1 lx) (\<lambda>(s2, lx').
       case skip_space s2 of
         [] \<Rightarrow> None
       | c # r \<Rightarrow> if c = closing is_object then Some (r, lx')
                   else if c = 44 then scan_elements f is_object depth path (Suc element) keys' (skip_space r) lx'
                   else None))"

definition capturedClientJSON :: "cus \<Rightarrow> (json \<times> lexemes) option" where
  "capturedClientJSON s =
     (if 1048576 < length (utf8 s) then None
      else
        case scan_value (2 * length s + 2) 0 [] s [] of
          None \<Rightarrow> None
        | Some (r, lx) \<Rightarrow> if skip_space r \<noteq> [] then None else map_option (\<lambda>v. (v, lx)) (json_parse s))"

text \<open>\<open>/^-?(0|[1-9][0-9]*)$/\<close> and \<open>Number.isSafeInteger(Number(token))\<close>.\<close>

definition digits_value :: "cus \<Rightarrow> nat" where
  "digits_value t = foldl (\<lambda>n c. 10 * n + (unat c - 48)) 0 t"

definition safe_integer_token :: "cus \<Rightarrow> bool" where
  "safe_integer_token t =
     (let d = (if t \<noteq> [] \<and> hd t = 45 then tl t else t)
      in list_all cu_digit d \<and> (d = us ''0'' \<or> d \<noteq> [] \<and> hd d \<noteq> 48) \<and> digits_value d \<le> 9007199254740991)"

definition capturedClientInputJSON :: "cus \<Rightarrow> json option" where
  "capturedClientInputJSON s =
     (case capturedClientJSON s of
        None \<Rightarrow> None
      | Some (v, lx) \<Rightarrow> if list_all (\<lambda>l. safe_integer_token (snd l)) lx then Some v else None)"

section \<open>String literals\<close>

lemma prepend_Some: "prepend c r = Some (d, s) \<longleftrightarrow> (\<exists>d'. r = Some (d', s) \<and> d = c # d')"
  by (auto simp: prepend_def)

lemma json_chars_append: "json_chars xs = Some (d, ys) \<Longrightarrow> json_chars (xs @ zs) = Some (d, ys @ zs)"
proof (induction xs arbitrary: d rule: json_chars.induct)
  case (2 c s)
  show ?case
  proof (cases "c = 34 \<or> c \<noteq> 92")
    case True
    then show ?thesis using 2 by (auto simp: prepend_Some split: if_splits)
  next
    case False
    then obtain e s1 where s: "s = e # s1" using 2(4) by (cases s) auto
    show ?thesis
    proof (cases "e = 117")
      case True
      then obtain h1 h2 h3 h4 s2 where h: "s1 = h1 # h2 # h3 # h4 # s2" "list_all cu_hex [h1, h2, h3, h4]"
        using 2(4) False s by (auto split: list.splits if_splits)
      then show ?thesis using 2(1) [OF _ _ s True h(1) refl refl refl h(2)] 2(4) False s True
        by (auto simp: prepend_Some)
    next
      case no_u: False
      then obtain x where x: "simple_escape e = Some x" using 2(4) False s by (auto split: option.splits)
      then show ?thesis using 2(2) [OF _ _ s no_u x] 2(4) False s no_u by (auto simp: prepend_Some)
    qed
  qed
qed simp

lemma hex_not_quote: "cu_hex c \<Longrightarrow> c \<noteq> 34 \<and> c \<noteq> 92"
  by (auto simp: cu_hex_def cu_digit_def in_range_def)

lemma json_chars_part:
  "json_chars r = Some (d, s') \<Longrightarrow> \<exists>part. r = part @ s' \<and> json_chars part = Some (d, []) \<and> quoted_part False r = Some (part, s')"
proof (induction r arbitrary: d rule: json_chars.induct)
  case (2 c s)
  consider "c = 34" | "c \<noteq> 34" "c \<noteq> 92" | "c = 92" by blast
  then show ?case
  proof cases
    case 1
    then show ?thesis using 2(4) by (intro exI [of _ "[34]"]) auto
  next
    case n: 2
    then obtain d' where d: "json_chars s = Some (d', s')" "d = c # d'" "\<not> unat c < 32"
      using 2(4) by (auto simp: prepend_Some split: if_splits)
    obtain part where "s = part @ s'" "json_chars part = Some (d', [])" "quoted_part False s = Some (part, s')"
      using 2(3) [OF n d(3,1)] by blast
    then show ?thesis using n d by (intro exI [of _ "c # part"]) (simp add: prepend_def)
  next
    case c: 3
    then obtain e s1 where s: "s = e # s1" using 2(4) by (cases s) auto
    show ?thesis
    proof (cases "e = 117")
      case True
      then obtain h1 h2 h3 h4 s2 where h: "s1 = h1 # h2 # h3 # h4 # s2" "list_all cu_hex [h1, h2, h3, h4]"
        using 2(4) c s by (auto split: list.splits if_splits)
      then obtain x d' where d: "json_chars s2 = Some (d', s')" "d = x # d'"
        using 2(4) c s True by (auto simp: prepend_Some)
      obtain part where p: "s2 = part @ s'" "json_chars part = Some (d', [])" "quoted_part False s2 = Some (part, s')"
        using 2(1) [OF _ _ s True h(1) refl refl refl h(2) d(1)] c by auto
      have q: "h1 \<noteq> 34 \<and> h1 \<noteq> 92" "h2 \<noteq> 34 \<and> h2 \<noteq> 92" "h3 \<noteq> 34 \<and> h3 \<noteq> 92" "h4 \<noteq> 34 \<and> h4 \<noteq> 92"
        using h(2) hex_not_quote by simp_all
      show ?thesis using p q c s True h 2(4) d
        by (intro exI [of _ "92 # 117 # h1 # h2 # h3 # h4 # part"]) (simp add: prepend_def)
    next
      case no_u: False
      then obtain x where x: "simple_escape e = Some x" using 2(4) c s by (auto split: option.splits)
      then obtain d' where d: "json_chars s1 = Some (d', s')" "d = x # d'"
        using 2(4) c s no_u by (auto simp: prepend_Some)
      obtain part where p: "s1 = part @ s'" "json_chars part = Some (d', [])" "quoted_part False s1 = Some (part, s')"
        using 2(2) [OF _ _ s no_u x d(1)] c by auto
      then show ?thesis using c s no_u x d by (intro exI [of _ "92 # e # part"]) (simp add: prepend_def)
    qed
  qed
qed simp

lemma quoted_part_split: "quoted_part b r = Some (part, s') \<Longrightarrow> r = part @ s'"
  by (induction b r arbitrary: part rule: quoted_part.induct) (auto simp: prepend_Some split: if_splits)

text \<open>The scanner reads a string literal as \<open>JSON.parse\<close> does, and refuses unpaired surrogates.\<close>

lemma scan_string_value:
  "scan_string r = (case json_chars r of None \<Rightarrow> None | Some (d, s') \<Rightarrow> if well_formed d then Some (d, s') else None)"
proof (cases "json_chars r")
  case None
  have "\<not> (\<exists>d part s'. quoted_part False r = Some (part, s') \<and> json_chars part = Some (d, []))"
    using None quoted_part_split json_chars_append by fastforce
  then show ?thesis using None by (auto simp: scan_string_def split: option.splits list.splits prod.splits Option.bind_splits)
next
  case (Some ds)
  obtain d s' where ds: "ds = (d, s')" by (cases ds)
  obtain part where "json_chars part = Some (d, [])" "quoted_part False r = Some (part, s')"
    using json_chars_part [OF Some [unfolded ds]] by blast
  then show ?thesis using Some ds by (simp add: scan_string_def)
qed

section \<open>What the scanner admits\<close>

text \<open>No repeated member name and no unpaired surrogate in any name or string.\<close>

fun strict :: "json \<Rightarrow> bool" where
  "strict (JsonString d) = well_formed d"
| "strict (JsonArray vs) = list_all strict vs"
| "strict (JsonObject ms) = (distinct (map fst ms) \<and> list_all (\<lambda>(k, v). well_formed k \<and> strict v) ms)"
| "strict v = True"

fun height :: "json \<Rightarrow> nat" where
  "height (JsonArray vs) = foldr (\<lambda>v n. max (Suc (height v)) n) vs 0"
| "height (JsonObject ms) = foldr (\<lambda>(k, v) n. max (Suc (height v)) n) ms 0"
| "height v = 0"

text \<open>The number tokens of a value with their paths, in the order of the text.\<close>

fun add_lexemes :: "cus \<Rightarrow> json \<Rightarrow> lexemes \<Rightarrow> lexemes"
  and add_items :: "cus \<Rightarrow> nat \<Rightarrow> json list \<Rightarrow> lexemes \<Rightarrow> lexemes"
  and add_members :: "cus \<Rightarrow> (cus \<times> json) list \<Rightarrow> lexemes \<Rightarrow> lexemes" where
  "add_lexemes path (JsonNumber n) lx = map_put path n lx"
| "add_lexemes path (JsonArray vs) lx = add_items path 0 vs lx"
| "add_lexemes path (JsonObject ms) lx = add_members path ms lx"
| "add_lexemes path v lx = lx"
| "add_items path i [] lx = lx"
| "add_items path i (v # vs) lx =
     add_items path (Suc i) vs (add_lexemes (path @ us ''/'' @ pointer_key (us (to_base 10 i))) v lx)"
| "add_members path [] lx = lx"
| "add_members path ((k, v) # ms) lx = add_members path ms (add_lexemes (path @ us ''/'' @ pointer_key k) v lx)"

definition fits_json :: "nat \<Rightarrow> json \<Rightarrow> bool" where
  "fits_json depth v = (depth + height v \<le> 64 \<and> strict v)"

lemma fits_items: "fits_json depth (JsonArray vs) \<longleftrightarrow> depth \<le> 64 \<and> list_all (fits_json (Suc depth)) vs"
  by (induction vs) (auto simp: fits_json_def)

lemma fits_members:
  "fits_json depth (JsonObject ms) \<longleftrightarrow>
     depth \<le> 64 \<and> distinct (map fst ms) \<and> list_all (\<lambda>(k, v). well_formed k \<and> fits_json (Suc depth) v) ms"
  by (induction ms) (auto simp: fits_json_def)

lemma token_scalar: "token_value t = v \<Longrightarrow> height v = 0 \<and> strict v"
  by (auto simp: token_value_def)

definition gate :: "nat \<Rightarrow> cus \<Rightarrow> lexemes \<Rightarrow> (json \<times> cus) option \<Rightarrow> (cus \<times> lexemes) option" where
  "gate depth path lx r =
     (case r of None \<Rightarrow> None | Some (v, s') \<Rightarrow> if fits_json depth v then Some (s', add_lexemes path v lx) else None)"

definition gate_items :: "nat \<Rightarrow> cus \<Rightarrow> nat \<Rightarrow> lexemes \<Rightarrow> (json list \<times> cus) option \<Rightarrow> (cus \<times> lexemes) option" where
  "gate_items depth path i lx r =
     (case r of None \<Rightarrow> None
      | Some (vs, s') \<Rightarrow> if list_all (fits_json (Suc depth)) vs then Some (s', add_items path i vs lx) else None)"

definition gate_members :: "nat \<Rightarrow> cus \<Rightarrow> cus list \<Rightarrow> lexemes \<Rightarrow> ((cus \<times> json) list \<times> cus) option \<Rightarrow> (cus \<times> lexemes) option" where
  "gate_members depth path keys lx r =
     (case r of None \<Rightarrow> None
      | Some (ms, s') \<Rightarrow>
          if distinct (map fst ms) \<and> list_all (\<lambda>k. k \<notin> set keys) (map fst ms) \<and>
             list_all (\<lambda>(k, v). well_formed k \<and> fits_json (Suc depth) v) ms
          then Some (s', add_members path ms lx) else None)"

lemma scan_is_gated:
  "scan_value f depth path s lx = gate depth path lx (json_value f s) \<and>
   scan_elements f False depth path i ks s lx = gate_items depth path i lx (json_items f s) \<and>
   scan_elements f True depth path i ks s lx = gate_members depth path ks lx (json_members f s)"
proof (induction f arbitrary: depth path s lx i ks)
  case (Suc f)
  note ih_value = Suc [THEN conjunct1] and ih_items = Suc [THEN conjunct2, THEN conjunct1]
    and ih_members = Suc [THEN conjunct2, THEN conjunct2]
  have "scan_value (Suc f) depth path s lx = gate depth path lx (json_value (Suc f) s)"
  proof (cases "64 < depth")
    case True
    then show ?thesis by (auto simp: gate_def fits_json_def split: option.split)
  next
    case False
    then have d: "depth \<le> 64" by simp
    show ?thesis
    proof (cases "skip_space s")
      case Nil
      then show ?thesis by (simp add: gate_def)
    next
      case (Cons c r)
      consider "c = 34" | "c = 123" | "c = 91" | "c \<noteq> 34" "c \<noteq> 123" "c \<noteq> 91" by blast
      then show ?thesis
      proof cases
        case 1
        then show ?thesis using d Cons
          by (auto simp: gate_def scan_string_value fits_json_def split: option.split)
      next
        case 2
        show ?thesis
        proof (cases "skip_space r")
          case (Cons c' r')
          then show ?thesis using d \<open>skip_space s = c # r\<close> 2 ih_members
            by (auto simp: gate_def gate_members_def fits_members closing_def list_all_iff split: option.split)
        qed (use d Cons 2 in \<open>simp add: gate_def\<close>)
      next
        case 3
        show ?thesis
        proof (cases "skip_space r")
          case (Cons c' r')
          then show ?thesis using d \<open>skip_space s = c # r\<close> 3 ih_items
            by (auto simp: gate_def gate_items_def fits_items closing_def split: option.split)
        qed (use d Cons 3 in \<open>simp add: gate_def\<close>)
      next
        case 4
        have "fits_json depth (token_value t)" for t using token_scalar [OF refl, of t] d by (simp add: fits_json_def)
        then show ?thesis using d Cons 4
          by (auto simp: gate_def token_value_def split: option.split)
      qed
    qed
  qed
  moreover have "scan_elements (Suc f) False depth path i ks s lx = gate_items depth path i lx (json_items (Suc f) s)"
  proof (cases "json_value f s")
    case None
    then show ?thesis by (simp add: scan_key_def ih_value gate_def gate_items_def)
  next
    case (Some vs')
    obtain v s' where v: "vs' = (v, s')" by (cases vs')
    show ?thesis
    proof (cases "skip_space s'")
      case Nil
      then show ?thesis by (simp add: scan_key_def ih_value Some v gate_def gate_items_def)
    next
      case (Cons c r)
      then show ?thesis
        by (simp add: scan_key_def ih_value ih_items Some v gate_def gate_items_def closing_def split: option.split)
    qed
  qed
  moreover have "scan_elements (Suc f) True depth path i ks s lx = gate_members depth path ks lx (json_members (Suc f) s)"
  proof (cases s)
    case (Cons q r)
    show ?thesis
    proof (cases "q = 34")
      case True
      show ?thesis
      proof (cases "json_chars r")
        case None
        then show ?thesis by (simp add: Cons True scan_key_def scan_string_value gate_members_def)
      next
        case (Some ks1)
        obtain k s1 where k: "ks1 = (k, s1)" by (cases ks1)
        show ?thesis
        proof (cases "skip_space s1")
          case Nil
          then show ?thesis by (simp add: Cons True scan_key_def scan_string_value gate_members_def Some k)
        next
          case colon: (Cons c s2)
          show ?thesis
          proof (cases "c = 58")
            case c: True
            show ?thesis
            proof (cases "json_value f s2")
              case None
              then show ?thesis
                by (simp add: Cons True scan_key_def scan_string_value gate_members_def Some k colon c ih_value gate_def)
            next
              case v: (Some vs')
              obtain v s' where vs': "vs' = (v, s')" by (cases vs')
              show ?thesis
              proof (cases "skip_space s'")
                case Nil
                then show ?thesis
                  by (simp add: Cons True scan_key_def scan_string_value gate_members_def Some k colon c ih_value gate_def v vs')
              next
                case stop: (Cons c' r')
                then show ?thesis
                  by (simp add: Cons True scan_key_def scan_string_value gate_members_def Some k colon c ih_value ih_members gate_def v vs'
                      closing_def split: option.split) (auto simp: list_all_iff)
              qed
            qed
          qed (simp add: Cons True scan_key_def scan_string_value gate_members_def Some k colon)
        qed
      qed
    qed (simp add: Cons scan_key_def gate_members_def)
  qed (simp add: scan_key_def gate_members_def)
  ultimately show ?case by simp
qed (simp add: gate_def gate_items_def gate_members_def)

lemma fold_put_fresh:
  "distinct (map fst ms) \<Longrightarrow> set (map fst ms) \<inter> set (map fst m) = {} \<Longrightarrow> fold (\<lambda>(k, v). map_put k v) ms m = m @ ms"
proof (induction ms arbitrary: m)
  case (Cons kv ms)
  obtain k v where kv: "kv = (k, v)" by (cases kv)
  have "k \<notin> fst ` set m" using Cons(3) kv by auto
  then have "map_put k v m = m @ [(k, v)]" unfolding map_put_def by (induction m) auto
  then show ?case using Cons(1) [of "m @ [(k, v)]"] Cons(2,3) kv by auto
qed simp

lemma strict_collapse: "strict v \<Longrightarrow> collapse v = v"
proof (induction v rule: collapse.induct)
  case (1 vs)
  then show ?case by (simp add: list_all_iff map_idI)
next
  case (2 ms)
  have "map (\<lambda>(k, v). (k, collapse v)) ms = ms" using 2 by (auto simp: list_all_iff intro!: map_idI)
  then show ?case using 2(2) fold_put_fresh [of ms "[]"] by simp
qed simp_all

section \<open>The bound on calls\<close>

lemma skip_space_length: "length (skip_space s) \<le> length s"
  by (simp add: skip_space_def length_dropWhile_le)

lemma skip_space_Cons: "skip_space s = c # r \<Longrightarrow> length r < length s"
  using skip_space_length [of s] by simp

lemma json_chars_shorter: "json_chars r = Some (d, s') \<Longrightarrow> length s' < length r"
proof -
  assume r: "json_chars r = Some (d, s')"
  then obtain part where p: "r = part @ s'" "json_chars part = Some (d, [])" using json_chars_part by blast
  then have "part \<noteq> []" by auto
  then show ?thesis using p by simp
qed

lemma json_token_consumes: "consumes json_token"
  by (simp add: json_token_def json_number_def lit_def chr_def opt_def plus_def)

lemma read_token_shorter: "read_token s = Some (t, s') \<Longrightarrow> length s' < length s"
  using match_end_consumes [OF _ _ json_token_consumes, of s 0] match_end_bounds [of json_token s 0]
  by (auto simp: read_token_def)

lemma json_shorter:
  "(json_value f s = Some (v, s') \<longrightarrow> length s' < length s) \<and>
   (json_items f s = Some (vs, s') \<longrightarrow> length s' < length s) \<and>
   (json_members f s = Some (ms, s') \<longrightarrow> length s' < length s)"
proof (induction f arbitrary: s s' v vs ms)
  case (Suc f)
  have ih: "json_value f s = Some (v, s') \<Longrightarrow> length s' < length s"
    "json_items f s = Some (vs, s') \<Longrightarrow> length s' < length s"
    "json_members f s = Some (ms, s') \<Longrightarrow> length s' < length s" for s s' v vs ms using Suc by blast+
  have "length s' < length s" if j: "json_value (Suc f) s = Some (v, s')"
  proof -
    obtain c r where c: "skip_space s = c # r" using j by (cases "skip_space s") auto
    have "length s' < length r \<or> length s' < length (c # r)"
    proof (cases "c = 123 \<or> c = 91")
      case True
      then obtain c' r' where c': "skip_space r = c' # r'" using j c by (cases "skip_space r") auto
      then have "length s' \<le> length r' \<or> length s' < length (c' # r')" using j c True by (auto split: if_splits dest!: ih(2,3))
      then show ?thesis using skip_space_Cons [OF c'] by auto
    next
      case False
      then show ?thesis using j c by (auto split: if_splits dest: json_chars_shorter read_token_shorter)
    qed
    then show ?thesis using skip_space_Cons [OF c] by auto
  qed
  moreover have "length s' < length s" if j: "json_items (Suc f) s = Some (vs, s')"
  proof -
    obtain v s1 where v: "json_value f s = Some (v, s1)" using j by (cases "json_value f s") auto
    obtain c r where c: "skip_space s1 = c # r" using j v by (cases "skip_space s1") auto
    have "length s' \<le> length (skip_space r) \<or> s' = r" using j v c by (auto split: if_splits dest: ih(2))
    then show ?thesis using ih(1) [OF v] skip_space_Cons [OF c] skip_space_length [of r] by auto
  qed
  moreover have "length s' < length s" if j: "json_members (Suc f) s = Some (ms, s')"
  proof -
    obtain q r0 k s1 where k: "s = q # r0" "json_chars r0 = Some (k, s1)" using j
      by (cases s) (auto split: if_splits elim!: bind_eq_Some_conv [THEN iffD1, THEN exE])
    obtain c0 s2 where c0: "skip_space s1 = c0 # s2" using j k by (cases "skip_space s1") (auto split: if_splits)
    obtain v s3 where v: "json_value f s2 = Some (v, s3)" using j k c0 by (cases "json_value f s2") (auto split: if_splits)
    obtain c r where c: "skip_space s3 = c # r" using j k c0 v by (cases "skip_space s3") (auto split: if_splits)
    have "length s' \<le> length (skip_space r) \<or> s' = r" using j k c0 v c by (auto split: if_splits dest: ih(3))
    then show ?thesis
      using ih(1) [OF v] skip_space_Cons [OF c] skip_space_length [of r] skip_space_Cons [OF c0] json_chars_shorter [OF k(2)] k(1) by auto
  qed
  ultimately show ?case by blast
qed simp

lemma json_value_shorter: "json_value f s = Some (v, s') \<Longrightarrow> length s' < length s"
  using json_shorter [of f s v s'] by blast

text \<open>Any bound beyond twice the length of the text gives the same result.\<close>

lemma json_bound:
  "(2 * length s < f \<longrightarrow> 2 * length s < g \<longrightarrow> json_value f s = json_value g s) \<and>
   (2 * length s + 1 < f \<longrightarrow> 2 * length s + 1 < g \<longrightarrow> json_items f s = json_items g s) \<and>
   (2 * length s + 1 < f \<longrightarrow> 2 * length s + 1 < g \<longrightarrow> json_members f s = json_members g s)"
proof (induction f arbitrary: g s)
  case (Suc f)
  have ih: "2 * length s < f \<Longrightarrow> 2 * length s < g \<Longrightarrow> json_value f s = json_value g s"
    "2 * length s + 1 < f \<Longrightarrow> 2 * length s + 1 < g \<Longrightarrow> json_items f s = json_items g s"
    "2 * length s + 1 < f \<Longrightarrow> 2 * length s + 1 < g \<Longrightarrow> json_members f s = json_members g s" for g s using Suc by blast+
  have "json_value (Suc f) s = json_value g s" if b: "2 * length s < Suc f" "2 * length s < g"
  proof -
    obtain h where g: "g = Suc h" using b(2) by (cases g) auto
    have "json_members f (c' # r') = json_members h (c' # r')" "json_items f (c' # r') = json_items h (c' # r')"
      if "skip_space s = c # r" "skip_space r = c' # r'" for c r c' r'
      using skip_space_Cons [OF that(1)] skip_space_Cons [OF that(2)] b g by (auto intro!: ih)
    then show ?thesis unfolding g by (auto split: list.split)
  qed
  moreover have "json_items (Suc f) s = json_items g s" if b: "2 * length s + 1 < Suc f" "2 * length s + 1 < g"
  proof -
    obtain h where g: "g = Suc h" using b(2) by (cases g) auto
    have v: "json_value f s = json_value h s" by (rule ih) (use b g in auto)
    have "json_items f (skip_space r) = json_items h (skip_space r)" if "json_value h s = Some (v, s')" "skip_space s' = c # r" for v s' c r
      using json_value_shorter [OF that(1)] skip_space_Cons [OF that(2)] skip_space_length [of r] b g by (intro ih) auto
    then show ?thesis unfolding g by (auto simp: v split: list.split intro!: Option.bind_cong)
  qed
  moreover have "json_members (Suc f) s = json_members g s" if b: "2 * length s + 1 < Suc f" "2 * length s + 1 < g"
  proof -
    obtain h where g: "g = Suc h" using b(2) by (cases g) auto
    have v: "json_value f s2 = json_value h s2" if "length s2 \<le> length s" for s2 using that b g by (intro ih) auto
    have m: "json_members f s2 = json_members h s2" if "length s2 < length s" for s2 using that b g by (intro ih) auto
    show ?thesis
    proof (cases s)
      case s: (Cons q r0)
      show ?thesis
      proof (cases "json_chars r0")
        case (Some ks)
        obtain k s1 where k: "ks = (k, s1)" by (cases ks)
        have l1: "length s1 < length s" using json_chars_shorter Some k s by fastforce
        show ?thesis
        proof (cases "skip_space s1")
          case c: (Cons c s2)
          have l2: "length s2 < length s" using skip_space_Cons [OF c] l1 by simp
          have "json_members f (skip_space r) = json_members h (skip_space r)"
            if "json_value h s2 = Some (v, s')" "skip_space s' = c # r" for v s' c r
            using json_value_shorter [OF that(1)] skip_space_Cons [OF that(2)] skip_space_length [of r] l2 by (intro m) auto
          then show ?thesis unfolding g using v [of s2] l2
            by (auto simp: s Some k c split: list.split intro!: Option.bind_cong)
        qed (simp add: g s Some k)
      qed (simp add: g s)
    qed (simp add: g)
  qed
  ultimately show ?case by blast
qed simp

lemma json_tree_bound: "2 * length s + 2 \<le> f \<Longrightarrow>
  json_tree s = (case json_value f s of Some (v, r) \<Rightarrow> if skip_space r = [] then Some v else None | None \<Rightarrow> None)"
  using json_bound [of s "2 * length s + 2" f] by (simp add: json_tree_def)

section \<open>Properties\<close>

text \<open>
  C38. The strict reader accepts exactly the texts \<open>JSON.parse\<close> reads as a value nested at most
  64 deep, without a repeated member name in any object and without an unpaired surrogate in any
  name or string, and at most 1 MiB long; it returns that value, and with it every number token
  under its path. So \<open>JSON.parse\<close> never fails after the scan, and never merges members. The bound
  on the nesting of calls is not a restriction: every larger bound reads the same values.
\<close>

theorem strict_reader_exact:
  "capturedClientJSON s =
     (if length (utf8 s) \<le> 1048576
      then case json_value (2 * length s + 2 + extra) s of
             None \<Rightarrow> None
           | Some (v, r) \<Rightarrow>
               if skip_space r = [] \<and> height v \<le> 64 \<and> strict v then Some (v, add_lexemes [] v []) else None
      else None)"
  using scan_is_gated [of "2 * length s + 2" 0 "[]" s "[]" 0 "[]"] json_bound [of s "2 * length s + 2" "2 * length s + 2 + extra"]
  by (auto simp: capturedClientJSON_def json_tree_def json_parse_def gate_def fits_json_def strict_collapse
      split: option.splits prod.splits if_splits)
end
