(* ===== verification/CapturedZip.thy ===== *)
theory CapturedZip
  imports CapturedJson TextPatterns
begin

text \<open>
  The archive writer of \<open>apps/research-ui/captured_client.js\<close>: \<open>capturedClientZip\<close> stores the
  files of a project without compression. The reader is the one of the archive format: it finds
  the end record, walks the central directory and takes every file from its local record.
\<close>

unbundle bit_operations_syntax

section \<open>Bytes\<close>

type_synonym byte = "8 word"

text \<open>\<open>setUint16\<close> and \<open>setUint32\<close> in little endian order, which store the low bytes of a number.\<close>

definition le16 :: "nat \<Rightarrow> byte list" where
  "le16 n = [word_of_nat n, word_of_nat (n div 256)]"

definition le32 :: "nat \<Rightarrow> byte list" where
  "le32 n = [word_of_nat n, word_of_nat (n div 256), word_of_nat (n div 65536), word_of_nat (n div 16777216)]"

definition encode_utf8 :: "cus \<Rightarrow> byte list" where
  "encode_utf8 s = map word_of_nat (utf8 s)"

section \<open>The checksum\<close>

definition crc_bit :: "32 word \<Rightarrow> 32 word" where
  "crc_bit v = drop_bit 1 v XOR (if v AND 1 \<noteq> 0 then 0xedb88320 else 0)"

definition crc_byte :: "32 word \<Rightarrow> byte \<Rightarrow> 32 word" where
  "crc_byte v b = (crc_bit ^^ 8) (v XOR ucast b)"

definition crc :: "byte list \<Rightarrow> 32 word" where
  "crc bytes = foldl crc_byte 0xffffffff bytes XOR 0xffffffff"

section \<open>Names\<close>

record project_file =
  pf_path :: cus
  pf_text :: cus

definition safe_unit :: "cu \<Rightarrow> bool" where
  "safe_unit c = (cu_letter c \<or> cu_digit c \<or> one_of_cu ''_.-'' c)"

definition safe_part :: "cus \<Rightarrow> bool" where
  "safe_part p = (p \<noteq> [] \<and> list_all safe_unit p \<and> p \<noteq> us ''.'' \<and> p \<noteq> us ''..'' \<and> last p \<noteq> 46)"

definition safe_path :: "cus \<Rightarrow> bool" where
  "safe_path p = (prefix (us ''reb-client-project/'') p \<and> list_all safe_part (split_on 47 p))"

section \<open>Records\<close>

definition local_record :: "byte list \<Rightarrow> byte list \<Rightarrow> byte list" where
  "local_record name body =
     le32 0x04034b50 @ le16 20 @ le16 0x800 @ le16 0 @ le16 0 @ le16 33 @ le32 (unat (crc body)) @ le32 (length body) @
     le32 (length body) @ le16 (length name) @ le16 0 @ name @ body"

definition central_record :: "byte list \<Rightarrow> byte list \<Rightarrow> nat \<Rightarrow> byte list" where
  "central_record name body offset =
     le32 0x02014b50 @ le16 20 @ le16 20 @ le16 0x800 @ le16 0 @ le16 0 @ le16 33 @ le32 (unat (crc body)) @
     le32 (length body) @ le32 (length body) @ le16 (length name) @ le16 0 @ le16 0 @ le16 0 @ le16 0 @ le32 0 @
     le32 offset @ name"

definition end_record :: "nat \<Rightarrow> nat \<Rightarrow> nat \<Rightarrow> byte list" where
  "end_record count directory_size offset =
     le32 0x06054b50 @ le16 0 @ le16 0 @ le16 count @ le16 count @ le32 directory_size @ le32 offset @ le16 0"

text \<open>The loop over the files: the names seen, the local records, the central records and the offset.\<close>

record zip_state =
  zs_names :: "cus list"
  zs_locals :: "byte list list"
  zs_central :: "byte list list"
  zs_offset :: nat
  zs_directory :: nat

definition zip_file :: "project_file \<Rightarrow> zip_state \<Rightarrow> string + zip_state" where
  "zip_file f z =
     (if \<not> safe_path (pf_path f) \<or> pf_path f \<in> set (zs_names z) then Inl ''Unsafe or repeated project path.''
      else
        let name = encode_utf8 (pf_path f); body = encode_utf8 (pf_text f) in
        if 1048576 < length body \<or> 2097152 < zs_offset z + length body + length name + 30
        then Inl ''Project exceeds its 2 MiB bound.''
        else
          let l = local_record name body; c = central_record name body (zs_offset z)
          in Inr \<lparr>zs_names = pf_path f # zs_names z, zs_locals = zs_locals z @ [l], zs_central = zs_central z @ [c],
                  zs_offset = zs_offset z + length l, zs_directory = zs_directory z + length c\<rparr>)"

definition capturedClientZip :: "project_file list \<Rightarrow> string + byte list" where
  "capturedClientZip files =
     (if files = [] \<or> 16 < length files then Inl ''Project file count exceeds its bound.''
      else
        bindE (foldE zip_file files \<lparr>zs_names = [], zs_locals = [], zs_central = [], zs_offset = 0, zs_directory = 0\<rparr>) (\<lambda>z.
          let output = concat (zs_locals z @ zs_central z @ [end_record (length files) (zs_directory z) (zs_offset z)])
          in if 2097152 < length output then Inl ''Project exceeds its 2 MiB bound.'' else Inr output))"

section \<open>A reader of the format\<close>

definition read16 :: "byte list \<Rightarrow> nat \<Rightarrow> nat" where
  "read16 bs i = unat (bs ! i) + 256 * unat (bs ! (i + 1))"

definition read32 :: "byte list \<Rightarrow> nat \<Rightarrow> nat" where
  "read32 bs i = read16 bs i + 65536 * read16 bs (i + 2)"

definition read_local :: "byte list \<Rightarrow> nat \<Rightarrow> byte list \<Rightarrow> nat \<Rightarrow> nat \<Rightarrow> byte list option" where
  "read_local bs offset name body_size checksum =
     (let rec = drop offset bs in
      if length rec < 30 \<or> read32 rec 0 \<noteq> 0x04034b50 then None
      else
        let n = read16 rec 26; x = read16 rec 28; body = take body_size (drop (30 + n + x) rec)
        in if take n (drop 30 rec) \<noteq> name \<or> length body \<noteq> body_size \<or> unat (crc body) \<noteq> checksum then None else Some body)"

text \<open>The entries of the directory, \<open>count\<close> of them, from the front of \<open>dir\<close>.\<close>

fun read_directory :: "byte list \<Rightarrow> nat \<Rightarrow> byte list \<Rightarrow> (byte list \<times> byte list) list option" where
  "read_directory bs 0 dir = (if dir = [] then Some [] else None)"
| "read_directory bs (Suc count) dir =
     (if length dir < 46 \<or> read32 dir 0 \<noteq> 0x02014b50 then None
      else
        let n = read16 dir 28; extra = read16 dir 30 + read16 dir 32; name = take n (drop 46 dir)
        in Option.bind (read_local bs (read32 dir 42) name (read32 dir 20) (read32 dir 16)) (\<lambda>body.
           map_option (\<lambda>es. (name, body) # es) (read_directory bs count (drop (46 + n + extra) dir))))"

definition unzip :: "byte list \<Rightarrow> (byte list \<times> byte list) list option" where
  "unzip bs =
     (if length bs < 22 then None
      else
        let e = drop (length bs - 22) bs in
        if read32 e 0 \<noteq> 0x06054b50 \<or> length bs < read32 e 16 + read32 e 12 then None
        else read_directory bs (read16 e 10) (take (read32 e 12) (drop (read32 e 16) bs)))"

section \<open>Reading what was written\<close>

lemma unat_low_byte: "unat (word_of_nat n :: byte) = n mod 256"
  by (simp add: unat_of_nat)

lemma length_le [simp]: "length (le16 n) = 2" "length (le32 n) = 4"
  by (simp_all add: le16_def le32_def)

lemma mod_bytes: "n mod 256 + 256 * (n div 256 mod 256) = n mod (65536 :: nat)"
  using mod_mult2_eq [of n 256 256] by simp

lemma read16_at: "length xs = i \<Longrightarrow> n < 65536 \<Longrightarrow> read16 (xs @ le16 n @ ys) i = n"
  using mod_bytes [of n] by (simp add: read16_def le16_def nth_append unat_low_byte)

lemma read32_at: "length xs = i \<Longrightarrow> n < 4294967296 \<Longrightarrow> read32 (xs @ le32 n @ ys) i = n"
proof -
  assume i: "length xs = i" and n: "n < 4294967296"
  have "read16 (xs @ le32 n @ ys) i = n mod 65536"
    using i mod_bytes [of n] by (simp add: read16_def le32_def nth_append unat_low_byte)
  moreover have "n div 16777216 = n div 65536 div 256" using div_mult2_eq [of n 65536 256] by simp
  then have "read16 (xs @ le32 n @ ys) (i + 2) = n div 65536 mod 65536"
    using i mod_bytes [of "n div 65536"] by (simp add: read16_def le32_def nth_append unat_low_byte)
  moreover have "n div 65536 < 65536" using n by (simp add: less_mult_imp_div_less)
  then have "n mod 65536 + 65536 * (n div 65536 mod 65536) = n" by simp
  ultimately show ?thesis by (simp only: read32_def)
qed

lemma unat_crc: "unat (crc b) < 4294967296"
  using unsigned_less [of "crc b", where ?'a = nat] by simp

lemma local_fields:
  assumes "length name < 65536" and r_def: "r = local_record name body @ post"
  shows "length r = 30 + length name + length body + length post" "read32 r 0 = 0x04034b50" "read16 r 26 = length name"
    "read16 r 28 = 0" "drop 30 r = name @ body @ post" "drop (30 + length name) r = body @ post"
proof -
  let ?h = "le16 20 @ le16 0x800 @ le16 0 @ le16 0 @ le16 33 @ le32 (unat (crc body)) @ le32 (length body) @ le32 (length body)"
  let ?sig = "le32 0x04034b50"
  show "length r = 30 + length name + length body + length post" by (simp add: r_def local_record_def)
  show "read32 r 0 = 0x04034b50"
    using read32_at [of "[]" 0 "0x04034b50" "?h @ le16 (length name) @ le16 0 @ name @ body @ post"] by (simp add: r_def local_record_def)
  show "read16 r 26 = length name"
    using read16_at [of "?sig @ ?h" 26 "length name" "le16 0 @ name @ body @ post"] assms(1) by (simp add: r_def local_record_def)
  show "read16 r 28 = 0"
    using read16_at [of "?sig @ ?h @ le16 (length name)" 28 0 "name @ body @ post"] by (simp add: r_def local_record_def)
  show d: "drop 30 r = name @ body @ post" by (simp add: r_def local_record_def)
  show "drop (30 + length name) r = body @ post" using arg_cong [OF d, of "drop (length name)"] by (simp add: add.commute)
qed

lemma read_local_record:
  assumes "length name < 65536"
  shows "read_local (pre @ local_record name body @ post) (length pre) name (length body) (unat (crc body)) = Some body"
proof -
  let ?r = "local_record name body @ post"
  have r: "drop (length pre) (pre @ ?r) = ?r" by simp
  note f = local_fields [OF assms refl, of body post]
  have "take (length name) (name @ body @ post) = name" "take (length body) (body @ post) = body" by simp_all
  then show ?thesis unfolding read_local_def Let_def r f(3-5) add_0_right f(6) by (simp add: f(1,2) del: length_append)
qed

lemma central_fields:
  assumes "length name < 65536" "length body < 4294967296" "off < 4294967296"
    and r_def: "r = central_record name body off @ post"
  shows "length r = 46 + length name + length post" "read32 r 0 = 0x02014b50" "read16 r 28 = length name" "read16 r 30 = 0"
    "read16 r 32 = 0" "read32 r 42 = off" "read32 r 20 = length body" "read32 r 16 = unat (crc body)" "drop 46 r = name @ post"
    "drop (46 + length name) r = post"
proof -
  let ?sig = "le32 0x02014b50"
  let ?a = "le16 20 @ le16 20 @ le16 0x800 @ le16 0 @ le16 0 @ le16 33"
  let ?b = "le16 0 @ le16 0 @ le32 0"
  let ?n = "le16 (length name)" and ?c = "le32 (unat (crc body))" and ?l = "le32 (length body)" and ?z = "le16 0" and ?o = "le32 off"
  note simps = r_def central_record_def
  show "length r = 46 + length name + length post" by (simp add: simps)
  show "read32 r 0 = 0x02014b50"
    using read32_at [of "[]" 0 "0x02014b50" "?a @ ?c @ ?l @ ?l @ ?n @ ?z @ ?z @ ?b @ ?o @ name @ post"] by (simp add: simps)
  show "read32 r 16 = unat (crc body)"
    using read32_at [of "?sig @ ?a" 16 "unat (crc body)" "?l @ ?l @ ?n @ ?z @ ?z @ ?b @ ?o @ name @ post"] unat_crc by (simp add: simps)
  show "read32 r 20 = length body"
    using read32_at [of "?sig @ ?a @ ?c" 20 "length body" "?l @ ?n @ ?z @ ?z @ ?b @ ?o @ name @ post"] assms(2) by (simp add: simps)
  show "read16 r 28 = length name"
    using read16_at [of "?sig @ ?a @ ?c @ ?l @ ?l" 28 "length name" "?z @ ?z @ ?b @ ?o @ name @ post"] assms(1) by (simp add: simps)
  show "read16 r 30 = 0"
    using read16_at [of "?sig @ ?a @ ?c @ ?l @ ?l @ ?n" 30 0 "?z @ ?b @ ?o @ name @ post"] by (simp add: simps)
  show "read16 r 32 = 0"
    using read16_at [of "?sig @ ?a @ ?c @ ?l @ ?l @ ?n @ ?z" 32 0 "?b @ ?o @ name @ post"] by (simp add: simps)
  show "read32 r 42 = off"
    using read32_at [of "?sig @ ?a @ ?c @ ?l @ ?l @ ?n @ ?z @ ?z @ ?b" 42 off "name @ post"] assms(3) by (simp add: simps)
  show d: "drop 46 r = name @ post" by (simp add: simps)
  show "drop (46 + length name) r = post" using arg_cong [OF d, of "drop (length name)"] by (simp add: add.commute)
qed

lemma end_fields:
  assumes "count < 65536" "dsize < 4294967296" "off < 4294967296"
  shows "length (end_record count dsize off) = 22" "read32 (end_record count dsize off) 0 = 0x06054b50"
    "read16 (end_record count dsize off) 10 = count" "read32 (end_record count dsize off) 12 = dsize"
    "read32 (end_record count dsize off) 16 = off"
proof -
  let ?sig = "le32 0x06054b50" and ?z = "le16 0" and ?c = "le16 count" and ?s = "le32 dsize" and ?o = "le32 off"
  note simps = end_record_def
  show "length (end_record count dsize off) = 22" by (simp add: simps)
  show "read32 (end_record count dsize off) 0 = 0x06054b50"
    using read32_at [of "[]" 0 "0x06054b50" "?z @ ?z @ ?c @ ?c @ ?s @ ?o @ ?z"] by (simp add: simps)
  show "read16 (end_record count dsize off) 10 = count"
    using read16_at [of "?sig @ ?z @ ?z @ ?c" 10 count "?s @ ?o @ ?z"] assms(1) by (simp add: simps)
  show "read32 (end_record count dsize off) 12 = dsize"
    using read32_at [of "?sig @ ?z @ ?z @ ?c @ ?c" 12 dsize "?o @ ?z"] assms(2) by (simp add: simps)
  show "read32 (end_record count dsize off) 16 = off"
    using read32_at [of "?sig @ ?z @ ?z @ ?c @ ?c @ ?s" 16 off "?z"] assms(3) by (simp add: simps)
qed

section \<open>The layout of an archive\<close>

definition file_entry :: "project_file \<Rightarrow> byte list \<times> byte list" where
  "file_entry f = (encode_utf8 (pf_path f), encode_utf8 (pf_text f))"

definition file_record :: "project_file \<Rightarrow> byte list" where
  "file_record f = local_record (encode_utf8 (pf_path f)) (encode_utf8 (pf_text f))"

fun centrals :: "nat \<Rightarrow> project_file list \<Rightarrow> byte list list" where
  "centrals off [] = []"
| "centrals off (f # fs) =
     central_record (encode_utf8 (pf_path f)) (encode_utf8 (pf_text f)) off # centrals (off + length (file_record f)) fs"

definition admitted :: "cus list \<Rightarrow> project_file list \<Rightarrow> bool" where
  "admitted names fs =
     (distinct (map pf_path fs) \<and> list_all (\<lambda>f. safe_path (pf_path f) \<and> pf_path f \<notin> set names) fs \<and>
      list_all (\<lambda>f. length (encode_utf8 (pf_text f)) \<le> 1048576) fs)"

lemma zip_files:
  "foldE zip_file fs z = Inr z' \<Longrightarrow>
     zs_locals z' = zs_locals z @ map file_record fs \<and> zs_central z' = zs_central z @ centrals (zs_offset z) fs \<and>
     zs_offset z' = zs_offset z + length (concat (map file_record fs)) \<and>
     zs_directory z' = zs_directory z + length (concat (centrals (zs_offset z) fs)) \<and> admitted (zs_names z) fs"
proof (induction fs arbitrary: z)
  case (Cons f fs)
  obtain z1 where z1: "zip_file f z = Inr z1" "foldE zip_file fs z1 = Inr z'" using Cons(2) by (auto simp: result_simps)
  then have f: "safe_path (pf_path f)" "pf_path f \<notin> set (zs_names z)" "length (encode_utf8 (pf_text f)) \<le> 1048576"
    and z: "z1 = \<lparr>zs_names = pf_path f # zs_names z, zs_locals = zs_locals z @ [file_record f],
      zs_central = zs_central z @ [central_record (encode_utf8 (pf_path f)) (encode_utf8 (pf_text f)) (zs_offset z)],
      zs_offset = zs_offset z + length (file_record f),
      zs_directory = zs_directory z + length (central_record (encode_utf8 (pf_path f)) (encode_utf8 (pf_text f)) (zs_offset z))\<rparr>"
    by (auto simp: zip_file_def Let_def file_record_def split: if_splits)
  show ?case using Cons(1) [OF z1(2)] f by (auto simp: z admitted_def list_all_iff)
qed (simp add: admitted_def)

lemma read_centrals:
  assumes "list_all (\<lambda>f. length (encode_utf8 (pf_path f)) < 65536 \<and> length (encode_utf8 (pf_text f)) \<le> 1048576) fs"
    "length pre + length (concat (map file_record fs)) < 4294967296"
  shows "read_directory (pre @ concat (map file_record fs) @ post) (length fs) (concat (centrals (length pre) fs)) = Some (map file_entry fs)"
  using assms
proof (induction fs arbitrary: pre)
  case (Cons f fs)
  let ?n = "encode_utf8 (pf_path f)" and ?b = "encode_utf8 (pf_text f)"
  have n: "length ?n < 65536" "length ?b < 4294967296" "length pre < 4294967296" using Cons(2,3) by auto
  let ?pre = "pre @ file_record f"
  have ih: "read_directory (?pre @ concat (map file_record fs) @ post) (length fs) (concat (centrals (length ?pre) fs)) = Some (map file_entry fs)"
    by (rule Cons(1)) (use Cons(2,3) in auto)
  have l: "read_local (pre @ file_record f @ concat (map file_record fs) @ post) (length pre) ?n (length ?b) (unat (crc ?b)) = Some ?b"
    unfolding file_record_def by (rule read_local_record [OF n(1)])
  note c = central_fields [OF n refl, of "concat (centrals (length ?pre) fs)"]
  let ?rest = "concat (centrals (length ?pre) fs)" and ?r = "central_record ?n ?b (length pre)"
  have dir: "concat (centrals (length pre) (f # fs)) = ?r @ ?rest" by simp
  have n': "take (length ?n) (?n @ ?rest) = ?n" by simp
  have "read_directory (pre @ file_record f @ concat (map file_record fs) @ post) (Suc (length fs)) (?r @ ?rest) = Some (file_entry f # map file_entry fs)"
    unfolding read_directory.simps Let_def c(3-9) n' l add_0_right c(10)
    using ih by (simp add: c(1,2) file_entry_def del: length_append)
  then show ?case unfolding dir by simp
qed simp

text \<open>
  C39. When every path is shorter than 65536 encoded bytes, an archive the exporter writes can be
  read back: walking its central directory, with every signature, size, name and checksum
  compared, gives the files of the project in their order. The names are distinct safe paths and
  the archive is at most 2 MiB long. The exporter does not check the length of a path; the field
  for it has sixteen bits.
\<close>

theorem archive_roundtrip:
  assumes "capturedClientZip files = Inr out" "list_all (\<lambda>f. length (encode_utf8 (pf_path f)) < 65536) files"
  shows "unzip out = Some (map (\<lambda>f. (encode_utf8 (pf_path f), encode_utf8 (pf_text f))) files) \<and>
    length out \<le> 2097152 \<and> distinct (map pf_path files) \<and> list_all (\<lambda>f. safe_path (pf_path f)) files"
proof -
  let ?z0 = "\<lparr>zs_names = [], zs_locals = [], zs_central = [], zs_offset = 0, zs_directory = 0\<rparr>"
  obtain z where z: "foldE zip_file files ?z0 = Inr z" and n: "files \<noteq> []" "length files \<le> 16"
    and out: "out = concat (zs_locals z @ zs_central z @ [end_record (length files) (zs_directory z) (zs_offset z)])" "length out \<le> 2097152"
    using assms(1) by (auto simp: capturedClientZip_def Let_def result_simps split: if_splits)
  let ?L = "concat (map file_record files)" and ?C = "concat (centrals 0 files)"
  note f = zip_files [OF z]
  have o: "out = ?L @ ?C @ end_record (length files) (length ?C) (length ?L)" using out(1) f by simp
  have b: "length files < 65536" "length ?C < 4294967296" "length ?L < 4294967296" using out(2) o n by auto
  note e = end_fields [OF b]
  have "drop (length out - 22) out = end_record (length files) (length ?C) (length ?L)" using e(1) by (simp add: o)
  moreover have "read_directory out (length files) ?C = Some (map file_entry files)"
    using read_centrals [of files "[]" "?C @ end_record (length files) (length ?C) (length ?L)"] assms(2) f b(3)
    by (simp add: o admitted_def list_all_iff)
  moreover have "take (length ?C) (drop (length ?L) out) = ?C" by (simp add: o)
  ultimately have "unzip out = Some (map file_entry files)" using e by (simp add: unzip_def Let_def) (simp add: o)
  then show ?thesis using f out(2) by (auto simp: admitted_def list_all_iff file_entry_def [abs_def])
qed

definition sample_files :: "project_file list" where
  "sample_files = [\<lparr>pf_path = us ''reb-client-project/a'', pf_text = [104]\<rparr>, \<lparr>pf_path = us ''reb-client-project/b/c'', pf_text = []\<rparr>]"

lemma sample_names:
  "safe_path (us ''reb-client-project/a'')" "safe_path (us ''reb-client-project/b/c'')"
  "us ''reb-client-project/b/c'' \<noteq> us ''reb-client-project/a''"
  by (simp_all add: safe_path_def us_def safe_part_def safe_unit_def cu_letter_def cu_digit_def in_range_def one_of_cu_def cu_of_def
    of_char_def prefix_def)

lemma archive_sizes:
  "length (encode_utf8 (us ''reb-client-project/a'')) = 20" "length (encode_utf8 (us ''reb-client-project/b/c'')) = 22"
  "length (encode_utf8 [104]) = 1" "length (encode_utf8 []) = 0"
  by (simp_all add: encode_utf8_def utf8_def us_def cu_of_def utf8_point_def high_surrogate_def of_char_def in_range_def)

lemma record_sizes:
  "length (local_record name body) = 30 + length name + length body" "length (central_record name body off) = 46 + length name"
  "length (end_record count dsize off) = 22"
  by (simp_all add: local_record_def central_record_def end_record_def)

theorem archive_roundtrip_witness:
  "\<exists>out. capturedClientZip sample_files = Inr out \<and>
     unzip out = Some (map (\<lambda>f. (encode_utf8 (pf_path f), encode_utf8 (pf_text f))) sample_files)"
proof -
  have "case capturedClientZip sample_files of Inl _ \<Rightarrow> False | Inr _ \<Rightarrow> True"
    by (simp add: capturedClientZip_def sample_files_def zip_file_def Let_def sample_names archive_sizes record_sizes)
  then obtain out where out: "capturedClientZip sample_files = Inr out" by (cases "capturedClientZip sample_files") simp_all
  have "list_all (\<lambda>f. length (encode_utf8 (pf_path f)) < 65536) sample_files" by (simp add: sample_files_def archive_sizes)
  then show ?thesis using archive_roundtrip [OF out] out by simp
qed

end
