(* ===== verification/CapturedPolicy.thy ===== *)
theory CapturedPolicy
  imports CapturedJson PrettyMarkup TextPatterns
begin

text \<open>
  The policy of a generated client in \<open>apps/research-ui/captured_client.js\<close>:
  \<open>capturedClientConfig\<close> reads the configuration, \<open>capturedClientValidateResponse\<close> applies its
  checks to a received response. A configuration comes from \<open>capturedClientInputJSON\<close>, so each of
  its numbers is a safe integer token; the header fields of a response are Latin-1, as Node gives
  them in \<open>rawHeaders\<close>.
\<close>

section \<open>Failures\<close>

text \<open>One constructor for every message of \<open>fail\<close>, and the \<open>code\<close> of the \<open>ClientError\<close>.\<close>

datatype client_failure =
    UnknownConfiguration
  | UnsupportedVersion
  | TransportMode
  | UnsupportedTransport
  | UnsupportedProfile
  | TimeoutRange
  | RedirectChoice
  | CookieChoice
  | MalformedChecks
  | StatusesRange
  | ContentTypeForm
  | TooManyFields
  | FieldPointer
  | FieldType
  | FieldEquals
  | RedirectRefused
  | StatusMismatch
  | ContentTypeMismatch
  | ResponseTruncated
  | ResponseJson
  | FieldMissing
  | FieldTypeMismatch
  | FieldToken
  | FieldValue

fun failure_code :: "client_failure \<Rightarrow> string" where
  "failure_code UnsupportedTransport = ''unsupported_transport''"
| "failure_code UnsupportedProfile = ''unsupported_profile''"
| "failure_code RedirectRefused = ''redirect_refused''"
| "failure_code StatusMismatch = ''response_status''"
| "failure_code ContentTypeMismatch = ''response_content_type''"
| "failure_code ResponseTruncated = ''response_truncated''"
| "failure_code ResponseJson = ''response_json''"
| "failure_code FieldMissing = ''response_field_missing''"
| "failure_code FieldTypeMismatch = ''response_field_type''"
| "failure_code FieldToken = ''response_field_value''"
| "failure_code FieldValue = ''response_field_value''"
| "failure_code f = ''invalid_config''"

section \<open>Values\<close>

text \<open>\<open>value.name\<close>, \<open>value ?? default\<close> and \<open>object(value, keys)\<close>.\<close>

definition member_of :: "string \<Rightarrow> json \<Rightarrow> json option" where
  "member_of name v = (case v of JsonObject ms \<Rightarrow> map_of ms (us name) | _ \<Rightarrow> None)"

definition or_default :: "json option \<Rightarrow> json \<Rightarrow> json" where
  "or_default m d = (case m of None \<Rightarrow> d | Some v \<Rightarrow> if v = JsonNull then d else v)"

definition known_object :: "string list \<Rightarrow> json \<Rightarrow> bool" where
  "known_object keys v = (case v of JsonObject ms \<Rightarrow> list_all (\<lambda>m. fst m \<in> set (map us keys)) ms | _ \<Rightarrow> False)"

fun is_string :: "json option \<Rightarrow> bool" where
  "is_string (Some (JsonString s)) = True"
| "is_string m = False"

definition string_is :: "string \<Rightarrow> json \<Rightarrow> bool" where
  "string_is s v = (v = JsonString (us s))"

fun value_type :: "json \<Rightarrow> string" where
  "value_type JsonNull = ''null''"
| "value_type (JsonBool b) = ''boolean''"
| "value_type (JsonNumber t) = ''number''"
| "value_type (JsonString s) = ''string''"
| "value_type (JsonArray vs) = ''array''"
| "value_type (JsonObject ms) = ''object''"

text \<open>\<open>/^-?(0|[1-9][0-9]*)$/\<close>, \<open>BigInt(token)\<close> and \<open>Number.isInteger\<close> of a safe integer token.\<close>

definition digits_token :: "cus \<Rightarrow> bool" where
  "digits_token d = (list_all cu_digit d \<and> (d = us ''0'' \<or> d \<noteq> [] \<and> hd d \<noteq> 48))"

definition unsigned_part :: "cus \<Rightarrow> cus" where
  "unsigned_part t = (if t \<noteq> [] \<and> hd t = 45 then tl t else t)"

definition integer_token :: "cus \<Rightarrow> bool" where
  "integer_token t = digits_token (unsigned_part t)"

definition token_int :: "cus \<Rightarrow> int" where
  "token_int t = (if t \<noteq> [] \<and> hd t = 45 then - int (digits_value (tl t)) else int (digits_value t))"

definition whole :: "json \<Rightarrow> int option" where
  "whole v = (case v of JsonNumber t \<Rightarrow> if safe_integer_token t then Some (token_int t) else None | _ \<Rightarrow> None)"

definition whole_in :: "int \<Rightarrow> int \<Rightarrow> json \<Rightarrow> bool" where
  "whole_in lo hi v = (case whole v of None \<Rightarrow> False | Some n \<Rightarrow> lo \<le> n \<and> n \<le> hi)"

text \<open>
  The value of a number token, before rounding; \<open>Number.isFinite\<close> of it. Rounding to the nearest
  double gives infinity from \<open>2\<^sup>1\<^sup>0\<^sup>2\<^sup>4 - 2\<^sup>9\<^sup>7\<^sup>0\<close> on.
\<close>

definition fraction_part :: "cus \<Rightarrow> cus" where
  "fraction_part r = (case r of c # s \<Rightarrow> if c = 46 then takeWhile cu_digit s else [] | [] \<Rightarrow> [])"

definition exponent_part :: "cus \<Rightarrow> int" where
  "exponent_part r =
     (case dropWhile (\<lambda>c. c \<noteq> 69 \<and> c \<noteq> 101) r of
        [] \<Rightarrow> 0
      | e # s \<Rightarrow> token_int (if s \<noteq> [] \<and> hd s = 43 then tl s else s))"

definition token_rat :: "cus \<Rightarrow> rat" where
  "token_rat t =
     (let d = unsigned_part t; n = takeWhile cu_digit d; r = dropWhile cu_digit d;
          m = of_nat (digits_value (n @ fraction_part r)) * 10 powi (exponent_part r - int (length (fraction_part r)))
      in if t \<noteq> [] \<and> hd t = 45 then - m else m)"

definition token_finite :: "cus \<Rightarrow> bool" where
  "token_finite t = (\<bar>token_rat t\<bar> < 2 ^ 1024 - 2 ^ 970)"

section \<open>The configuration\<close>

record field_check =
  fc_pointer :: cus
  fc_type :: cus
  fc_equals :: "json option"

record policy =
  po_transport :: json
  po_timeoutMs :: json
  po_redirectPolicy :: json
  po_cookiePolicy :: json
  po_statuses :: "int list"
  po_contentType :: "cus option"
  po_jsonFields :: "field_check list"

definition read_statuses :: "json \<Rightarrow> int list option" where
  "read_statuses v =
     (case v of
        JsonArray vs \<Rightarrow>
          if length vs \<le> 32 \<and> list_all (whole_in 100 599) vs \<and> distinct (map (the \<circ> whole) vs)
          then Some (map (the \<circ> whole) vs) else None
      | _ \<Rightarrow> None)"

definition media_unit :: "cu \<Rightarrow> bool" where
  "media_unit c = (in_range 97 122 c \<or> cu_digit c \<or> one_of_cu ''!#$&^_.+-'' c)"

definition media_type :: "cus \<Rightarrow> bool" where
  "media_type s =
     (case split_on 47 s of [a, b] \<Rightarrow> a \<noteq> [] \<and> list_all media_unit a \<and> b \<noteq> [] \<and> list_all media_unit b | _ \<Rightarrow> False)"

definition read_content_type :: "json \<Rightarrow> cus option option" where
  "read_content_type v =
     (case v of
        JsonNull \<Rightarrow> Some None
      | JsonString s \<Rightarrow> if length s \<le> 128 \<and> media_type s then Some (Some s) else None
      | _ \<Rightarrow> None)"

text \<open>No match of \<open>/~(?![01])/\<close>.\<close>

fun escapes_ok :: "cus \<Rightarrow> bool" where
  "escapes_ok [] = True"
| "escapes_ok (c # s) = ((c = 126 \<longrightarrow> s \<noteq> [] \<and> (hd s = 48 \<or> hd s = 49)) \<and> escapes_ok s)"

definition pointer_ok :: "cus \<Rightarrow> bool" where
  "pointer_ok p =
     (length (utf8 p) \<le> 1024 \<and> (p \<noteq> [] \<longrightarrow> hd p = 47) \<and> escapes_ok p \<and> length (split_on 47 p) \<le> 33)"

definition equals_ok :: "cus \<Rightarrow> json \<Rightarrow> bool" where
  "equals_ok ty v =
     (case v of
        JsonNull \<Rightarrow> ty = us ''null''
      | JsonString s \<Rightarrow> ty = us ''string'' \<and> length (utf8 s) \<le> 2048
      | JsonBool b \<Rightarrow> ty = us ''boolean''
      | JsonNumber t \<Rightarrow> safe_integer_token t \<and> ty = us ''number''
      | _ \<Rightarrow> False)"

definition read_field :: "json \<Rightarrow> client_failure + field_check" where
  "read_field v =
     (case member_of ''pointer'' v of
        Some (JsonString p) \<Rightarrow>
          bindE (guardE (known_object [''pointer'', ''type'', ''equals''] v \<and> pointer_ok p) FieldPointer) (\<lambda>_.
          case member_of ''type'' v of
            Some (JsonString ty) \<Rightarrow>
              bindE (guardE (ty \<in> set (map us [''null'', ''boolean'', ''number'', ''string'', ''array'', ''object''])) FieldType) (\<lambda>_.
              bindE (guardE (case member_of ''equals'' v of None \<Rightarrow> True | Some e \<Rightarrow> equals_ok ty e) FieldEquals) (\<lambda>_.
              Inr \<lparr>fc_pointer = p, fc_type = ty, fc_equals = member_of ''equals'' v\<rparr>))
          | _ \<Rightarrow> Inl FieldType)
      | _ \<Rightarrow> Inl FieldPointer)"

definition read_fields :: "json \<Rightarrow> client_failure + field_check list" where
  "read_fields v =
     (case v of
        JsonArray vs \<Rightarrow> if 32 < length vs then Inl TooManyFields else mapE read_field vs
      | _ \<Rightarrow> Inl TooManyFields)"

definition capturedClientConfig :: "json \<Rightarrow> json option \<Rightarrow> client_failure + policy" where
  "capturedClientConfig config request =
     (let transport = or_default (member_of ''transport'' config)
            (JsonObject [(us ''mode'', JsonString (us ''standard'')), (us ''browserProfile'', JsonNull)]);
          timeoutMs = or_default (member_of ''timeoutMs'' config)
            (case Option.bind request (member_of ''timeout_ms'') of None \<Rightarrow> JsonNull | Some n \<Rightarrow> n);
          redirectPolicy = or_default (member_of ''redirectPolicy'' config) (JsonString (us ''manual''));
          cookiePolicy = or_default (member_of ''cookiePolicy'' config) (JsonString (us ''omit''));
          checks = or_default (member_of ''responseChecks'' config) (JsonObject [])
      in bindE (first_failure
           [(\<not> known_object [''configVersion'', ''allowedOrigin'', ''request'', ''transport'', ''timeoutMs'', ''redirectPolicy'',
               ''cookiePolicy'', ''responseChecks''] config, UnknownConfiguration),
            (case member_of ''configVersion'' config of None \<Rightarrow> False | Some v \<Rightarrow> \<not> string_is ''reb-client-config-v1'' v, UnsupportedVersion),
            (\<not> known_object [''mode'', ''browserProfile''] transport \<or> \<not> is_string (member_of ''mode'' transport), TransportMode),
            (member_of ''mode'' transport \<noteq> Some (JsonString (us ''standard'')), UnsupportedTransport),
            (or_default (member_of ''browserProfile'' transport) JsonNull \<noteq> JsonNull, UnsupportedProfile),
            (\<not> whole_in 100 30000 timeoutMs, TimeoutRange),
            (\<not> string_is ''manual'' redirectPolicy \<and> \<not> string_is ''error'' redirectPolicy, RedirectChoice),
            (\<not> string_is ''omit'' cookiePolicy, CookieChoice),
            (\<not> known_object [''statuses'', ''contentType'', ''jsonFields''] checks, MalformedChecks)]) (\<lambda>_.
         case read_statuses (or_default (member_of ''statuses'' checks) (JsonArray [])) of
           None \<Rightarrow> Inl StatusesRange
         | Some statuses \<Rightarrow>
             case read_content_type (or_default (member_of ''contentType'' checks) JsonNull) of
               None \<Rightarrow> Inl ContentTypeForm
             | Some contentType \<Rightarrow>
                 bindE (read_fields (or_default (member_of ''jsonFields'' checks) (JsonArray []))) (\<lambda>fields.
                 Inr \<lparr>po_transport = transport, po_timeoutMs = timeoutMs, po_redirectPolicy = redirectPolicy,
                       po_cookiePolicy = cookiePolicy, po_statuses = statuses, po_contentType = contentType,
                       po_jsonFields = fields\<rparr>)))"

section \<open>The checks of a response\<close>

record response_validation =
  va_configured :: bool
  va_passed :: bool

record client_response =
  rs_status :: int
  rs_headers :: "(cus \<times> cus) list"
  rs_body :: cus
  rs_body_invalid_utf8 :: bool
  rs_body_truncated :: bool
  rs_validation :: "response_validation option"

definition trim :: "cus \<Rightarrow> cus" where
  "trim s = trim_end (dropWhile is_space s)"

text \<open>\<open>value.split(';')[0].trim().toLowerCase()\<close>.\<close>

definition media_of :: "cus \<Rightarrow> cus" where
  "media_of v = toLowerCase (trim (hd (split_on 59 v)))"

text \<open>\<open>part.replace(/~1/g, '/').replace(/~0/g, '~')\<close>.\<close>

fun replace_pair :: "cu \<Rightarrow> cu \<Rightarrow> cu \<Rightarrow> cus \<Rightarrow> cus" where
  "replace_pair a b c [] = []"
| "replace_pair a b c [x] = [x]"
| "replace_pair a b c (x # y # s) = (if x = a \<and> y = b then c # replace_pair a b c s else x # replace_pair a b c (y # s))"

definition unescape :: "cus \<Rightarrow> cus" where
  "unescape s = replace_pair 126 48 126 (replace_pair 126 49 47 s)"

definition pointer_parts :: "cus \<Rightarrow> cus list" where
  "pointer_parts p = (if p = [] then [] else map unescape (split_on 47 (tl p)))"

definition own_member :: "json \<Rightarrow> cus \<Rightarrow> json option" where
  "own_member v part =
     (case v of
        JsonArray vs \<Rightarrow> if digits_token part \<and> digits_value part < length vs then Some (vs ! digits_value part) else None
      | JsonObject ms \<Rightarrow> map_of ms part
      | _ \<Rightarrow> None)"

fun descend :: "json \<Rightarrow> cus list \<Rightarrow> json option" where
  "descend v [] = Some v"
| "descend v (k # ks) = Option.bind (own_member v k) (\<lambda>w. descend w ks)"

text \<open>\<open>value === field.equals\<close>; for numbers the check of the tokens comes first, so neither side was rounded.\<close>

fun same_value :: "json \<Rightarrow> json \<Rightarrow> bool" where
  "same_value JsonNull v = (v = JsonNull)"
| "same_value (JsonBool b) v = (v = JsonBool b)"
| "same_value (JsonString s) v = (v = JsonString s)"
| "same_value (JsonNumber t) v = (case v of JsonNumber u \<Rightarrow> token_rat t = token_rat u | _ \<Rightarrow> False)"
| "same_value w v = False"

definition equal_tokens :: "cus option \<Rightarrow> json \<Rightarrow> bool" where
  "equal_tokens m e =
     (case m of None \<Rightarrow> False | Some t \<Rightarrow> integer_token t \<and> (case e of JsonNumber u \<Rightarrow> token_int t = token_int u | _ \<Rightarrow> False))"

definition check_field :: "json \<Rightarrow> lexemes \<Rightarrow> field_check \<Rightarrow> client_failure + unit" where
  "check_field body lx f =
     (case descend body (pointer_parts (fc_pointer f)) of
        None \<Rightarrow> Inl FieldMissing
      | Some v \<Rightarrow>
          first_failure
            [(us (value_type v) \<noteq> fc_type f \<or> (case v of JsonNumber t \<Rightarrow> \<not> token_finite t | _ \<Rightarrow> False), FieldTypeMismatch),
             (case fc_equals f of
                Some e \<Rightarrow> fc_type f = us ''number'' \<and> \<not> equal_tokens (map_of lx (fc_pointer f)) e
              | None \<Rightarrow> False, FieldToken),
             (case fc_equals f of Some e \<Rightarrow> \<not> same_value v e | None \<Rightarrow> False, FieldValue)])"

definition check_json :: "client_response \<Rightarrow> field_check list \<Rightarrow> client_failure + unit" where
  "check_json r checks =
     (if checks = [] then Inr ()
      else
        case (if rs_body_invalid_utf8 r then None else capturedClientJSON (rs_body r)) of
          None \<Rightarrow> Inl ResponseJson
        | Some (body, lx) \<Rightarrow> bindE (mapE (check_field body lx) checks) (\<lambda>_. Inr ()))"

definition checks_configured :: "policy \<Rightarrow> bool" where
  "checks_configured p = (po_statuses p \<noteq> [] \<or> po_contentType p \<noteq> None \<or> po_jsonFields p \<noteq> [])"

definition content_types :: "client_response \<Rightarrow> cus list" where
  "content_types r = map snd (filter (\<lambda>h. toLowerCase (fst h) = us ''content-type'') (rs_headers r))"

text \<open>The error of a failed check carries the response.\<close>

definition capturedClientValidateResponse :: "client_response \<Rightarrow> policy \<Rightarrow> (client_failure \<times> client_response) + client_response" where
  "capturedClientValidateResponse r p =
     (let configured = checks_configured p;
          result = r\<lparr>rs_validation := Some \<lparr>va_configured = configured, va_passed = False\<rparr>\<rparr>
      in case bindE (first_failure
                [(string_is ''error'' (po_redirectPolicy p) \<and> 300 \<le> rs_status r \<and> rs_status r \<le> 399, RedirectRefused),
                 (po_statuses p \<noteq> [] \<and> rs_status r \<notin> set (po_statuses p), StatusMismatch),
                 (case po_contentType p of
                    None \<Rightarrow> False
                  | Some t \<Rightarrow> length (content_types r) \<noteq> 1 \<or> media_of (hd (content_types r)) \<noteq> t, ContentTypeMismatch),
                 (configured \<and> rs_body_truncated r, ResponseTruncated)]) (\<lambda>_. check_json r (po_jsonFields p)) of
           Inl f \<Rightarrow> Inl (f, result)
         | Inr u \<Rightarrow> Inr (result\<lparr>rs_validation := Some \<lparr>va_configured = configured, va_passed = configured\<rparr>\<rparr>))"

section \<open>Decimal digits\<close>

lemma digits_value_snoc: "digits_value (s @ [c]) = 10 * digits_value s + (unat c - 48)"
  by (simp add: digits_value_def)

lemma digit_unit:
  assumes "n < 10"
  shows "cu_of (digit_char n) = 48 + of_nat n" "cu_digit (48 + of_nat n)" "unat (48 + of_nat n :: cu) = 48 + n"
proof -
  show u: "unat (48 + of_nat n :: cu) = 48 + n" using assms by (simp add: unat_word_ariths unat_of_nat)
  then show "cu_digit (48 + of_nat n)" using assms by (simp add: cu_digit_def in_range_def)
  have "list_all (\<lambda>k. cu_of (digit_char k) = 48 + of_nat k) [0, 1, 2, 3, 4, 5, 6, 7, 8, 9]"
    by (simp add: digit_char_def cu_of_def of_char_def)
  moreover have "n \<in> set [0, 1, 2, 3, 4, 5, 6, 7, 8, 9]" using assms by auto
  ultimately show "cu_of (digit_char n) = 48 + of_nat n" unfolding list_all_iff by blast
qed

lemma digit_of_unit: "cu_digit c \<Longrightarrow> unat c - 48 < 10 \<and> c = 48 + of_nat (unat c - 48)"
proof -
  assume "cu_digit c"
  then have c: "48 \<le> unat c" "unat c \<le> 57" by (simp_all add: cu_digit_def in_range_def)
  then have "unat (48 + of_nat (unat c - 48) :: cu) = unat c" using digit_unit(3) [of "unat c - 48"] by simp
  then show ?thesis using c by (simp add: word_unat_eq_iff)
qed

lemma zero_digit: "n < 10 \<Longrightarrow> (48 + of_nat n = (48 :: cu)) \<longleftrightarrow> n = 0"
  using digit_unit(3) [of n] by (auto simp: word_unat_eq_iff)

lemma zero_text: "us ''0'' = [48]"
  by (simp add: us_def cu_of_def of_char_def)

lemma us_snoc: "us (s @ [c]) = us s @ [cu_of c]"
  by (simp add: us_def)

lemma decimal_text_value: "digits_token (us (to_base 10 n)) \<and> digits_value (us (to_base 10 n)) = n"
proof (induction n rule: less_induct)
  case (less n)
  show ?case
  proof (cases "n < 10")
    case True
    then show ?thesis using digit_unit [OF True]
      by (auto simp: to_base.simps [of 10 n] digits_token_def us_def digits_value_def zero_digit digit_char_def cu_of_def of_char_def)
  next
    case False
    let ?t = "us (to_base 10 (n div 10))"
    have ih: "digits_token ?t" "digits_value ?t = n div 10" using less [of "n div 10"] False by auto
    have e: "us (to_base 10 n) = ?t @ [48 + of_nat (n mod 10)]"
      using False digit_unit(1) [of "n mod 10"] by (simp add: to_base.simps [of 10 n] us_snoc)
    have "?t \<noteq> us ''0''" using ih(2) False by (auto simp: digits_value_def us_def cu_of_def of_char_def)
    then have "list_all cu_digit ?t" "?t \<noteq> []" "hd ?t \<noteq> 48" using ih(1) by (auto simp: digits_token_def)
    then show ?thesis using ih(2) digit_unit(2,3) [of "n mod 10"] by (simp add: e digits_token_def digits_value_snoc)
  qed
qed

lemma value_decimal: "digits_token s \<Longrightarrow> us (to_base 10 (digits_value s)) = s"
proof (induction s rule: rev_induct)
  case (snoc c s)
  have c: "unat c - 48 < 10" "c = 48 + of_nat (unat c - 48)" using snoc(2) digit_of_unit by (auto simp: digits_token_def)
  show ?case
  proof (cases "s = []")
    case True
    then show ?thesis using c digit_unit(1) [OF c(1)] by (simp add: digits_value_def us_def to_base.simps [of 10 "unat c - 48"])
  next
    case False
    have z: "s @ [c] \<noteq> us ''0''" using False by (auto simp: us_def)
    then have s: "digits_token s" "hd s \<noteq> 48" using snoc(2) False by (auto simp: digits_token_def)
    have "digits_value s \<noteq> 0"
    proof
      assume "digits_value s = 0"
      then have "s = us ''0''" using snoc(1) [OF s(1)] by (simp add: to_base.simps [of 10 0] digit_char_def)
      then show False using s(2) by (simp add: us_def cu_of_def of_char_def)
    qed
    then have "to_base 10 (digits_value (s @ [c])) = to_base 10 (digits_value s) @ [digit_char (unat c - 48)]"
      using c(1) by (subst to_base.simps) (auto simp: digits_value_snoc)
    then show ?thesis using snoc(1) [OF s(1)] c digit_unit(1) [OF c(1)] by (simp add: us_snoc)
  qed
qed (simp add: digits_token_def us_def)

lemma integer_rat: "integer_token t \<Longrightarrow> token_rat t = of_int (token_int t)"
proof -
  assume "integer_token t"
  then have "list_all cu_digit (unsigned_part t)" by (simp add: integer_token_def digits_token_def)
  then have d: "takeWhile cu_digit (unsigned_part t) = unsigned_part t" "dropWhile cu_digit (unsigned_part t) = []"
    by (simp_all add: takeWhile_eq_all_conv list_all_iff)
  show ?thesis unfolding token_rat_def Let_def d by (simp add: fraction_part_def exponent_part_def token_int_def unsigned_part_def)
qed

section \<open>Pointers\<close>

definition escape_unit :: "cu \<Rightarrow> cus" where
  "escape_unit c = (if c = 126 then [126, 48] else if c = 47 then [126, 49] else [c])"

lemma pointer_key_Nil [simp]: "pointer_key [] = []"
  by (simp add: pointer_key_def)

lemma pointer_key_Cons [simp]: "pointer_key (c # k) = escape_unit c @ pointer_key k"
  by (simp add: pointer_key_def escape_unit_def us_def cu_of_def of_char_def)

lemma pointer_key_no_slash [simp]: "47 \<notin> set (pointer_key k)"
  by (induction k) (auto simp: escape_unit_def)

lemma replace_other [simp]: "x \<noteq> a \<Longrightarrow> replace_pair a b c (x # s) = x # replace_pair a b c s"
  by (cases s) simp_all

lemma unescape_simps [simp]:
  "unescape [] = []" "unescape (126 # 48 # s) = 126 # unescape s" "unescape (126 # 49 # s) = 47 # unescape s"
  "x \<noteq> 126 \<Longrightarrow> unescape (x # s) = x # unescape s"
  by (simp_all add: unescape_def)

lemma unescape_key [simp]: "unescape (pointer_key k) = k"
  by (induction k) (simp_all add: escape_unit_def)

lemma key_unescape: "escapes_ok s \<Longrightarrow> 47 \<notin> set s \<Longrightarrow> pointer_key (unescape s) = s"
proof (induction s rule: length_induct)
  case (1 s)
  show ?case
  proof (cases s)
    case (Cons c t)
    show ?thesis
    proof (cases "c = 126")
      case True
      then obtain x u where t: "t = x # u" "x = 48 \<or> x = 49" using 1(2) Cons by (cases t) auto
      then have "pointer_key (unescape u) = u" using 1 Cons by auto
      then show ?thesis using t True Cons by (auto simp: escape_unit_def)
    next
      case False
      then show ?thesis using 1 Cons by (auto simp: escape_unit_def)
    qed
  qed simp
qed

definition pointer_of :: "cus list \<Rightarrow> cus" where
  "pointer_of ks = concat (map (\<lambda>k. 47 # pointer_key k) ks)"

lemma pointer_of_simps [simp]:
  "pointer_of [] = []" "pointer_of (k # ks) = 47 # pointer_key k @ pointer_of ks" "pointer_of (ks @ ls) = pointer_of ks @ pointer_of ls"
  by (simp_all add: pointer_of_def)

lemma split_pointer: "split_on 47 (pointer_key k @ pointer_of ks) = pointer_key k # map pointer_key ks"
  by (induction ks arbitrary: k) (simp_all add: split_on_none split_on_append)

lemma parts_pointer [simp]: "pointer_parts (pointer_of ks) = ks"
  by (cases ks) (simp_all add: pointer_parts_def split_pointer map_idI)

lemma escapes_ok_append: "escapes_ok (s @ 47 # t) \<longleftrightarrow> escapes_ok s \<and> escapes_ok t"
  by (induction s) (auto simp: hd_append split: if_splits)

lemma pointer_split: "escapes_ok q \<Longrightarrow> 47 # q = pointer_of (map unescape (split_on 47 q))"
proof (induction q rule: length_induct)
  case (1 q)
  show ?case
  proof (cases "47 \<in> set q")
    case True
    then obtain s t where q: "q = s @ 47 # t" "47 \<notin> set s" by (meson split_list_first)
    then have "escapes_ok s" "escapes_ok t" using 1(2) by (simp_all add: escapes_ok_append)
    moreover from this have t: "pointer_of (map unescape (split_on 47 t)) = 47 # t" using 1(1) q by simp
    ultimately show ?thesis unfolding q(1) split_on_append [OF q(2)] list.map pointer_of_simps t using q(2) by (simp add: key_unescape)
  next
    case False
    then show ?thesis using 1(2) by (simp add: split_on_none key_unescape)
  qed
qed

lemma pointer_parts_of: "pointer_ok p \<Longrightarrow> pointer_of (pointer_parts p) = p"
  using pointer_split [of "tl p"] by (cases p) (auto simp: pointer_ok_def pointer_parts_def simp del: pointer_of_simps(3) dest: sym)

section \<open>The node of a pointer\<close>

text \<open>The keys from the root of a value to a node; an element is named by its decimal index.\<close>

inductive node :: "json \<Rightarrow> cus list \<Rightarrow> json \<Rightarrow> bool" where
  node_here: "node v [] v"
| node_item: "i < length vs \<Longrightarrow> node (vs ! i) ks w \<Longrightarrow> node (JsonArray vs) (us (to_base 10 i) # ks) w"
| node_member: "(k, v) \<in> set ms \<Longrightarrow> node v ks w \<Longrightarrow> node (JsonObject ms) (k # ks) w"

inductive_simps node_simps: "node v [] w" "node (JsonArray vs) (k # ks) w" "node (JsonObject ms) (k # ks) w"
inductive_cases node_ConsE: "node v (k # ks) w"

lemma strict_own: "strict v \<Longrightarrow> own_member v k = Some u \<Longrightarrow> strict u"
  by (cases v) (auto simp: own_member_def list_all_iff dest: map_of_SomeD split: if_splits)

lemma descend_node: "strict v \<Longrightarrow> descend v ks = Some w \<longleftrightarrow> node v ks w"
proof (induction ks arbitrary: v)
  case (Cons k ks)
  have ih: "own_member v k = Some u \<Longrightarrow> descend u ks = Some w \<longleftrightarrow> node u ks w" for u
    using Cons(1) strict_own [OF Cons(2)] by blast
  show ?case
  proof
    assume "descend v (k # ks) = Some w"
    then obtain u where u: "own_member v k = Some u" "node u ks w" using ih by (auto simp: bind_eq_Some_conv)
    show "node v (k # ks) w"
    proof (cases v)
      case (JsonArray vs)
      then have "digits_token k" "digits_value k < length vs" "u = vs ! digits_value k" using u(1) by (auto simp: own_member_def split: if_splits)
      then show ?thesis using node_item [of "digits_value k" vs ks w] u(2) value_decimal [of k] JsonArray by simp
    qed (use u in \<open>auto simp: own_member_def dest: map_of_SomeD intro: node_member\<close>)
  next
    assume n: "node v (k # ks) w"
    have "\<exists>u. own_member v k = Some u \<and> node u ks w"
    proof (cases v)
      case (JsonArray vs)
      then show ?thesis using n decimal_text_value by (auto simp: node_simps own_member_def)
    next
      case (JsonObject ms)
      then obtain u where "(k, u) \<in> set ms" "node u ks w" using n by (auto simp: node_simps)
      then show ?thesis using Cons(2) JsonObject by (auto simp: own_member_def intro: map_of_is_SomeI)
    qed (use n in \<open>auto elim: node_ConsE\<close>)
    then show "descend v (k # ks) = Some w" using ih by auto
  qed
qed (simp add: node_simps eq_commute)

section \<open>The number tokens\<close>

definition number_at :: "json \<Rightarrow> cus list \<Rightarrow> cus option" where
  "number_at v ks = (case descend v ks of Some (JsonNumber t) \<Rightarrow> Some t | _ \<Rightarrow> None)"

fun strip :: "cus list \<Rightarrow> cus list \<Rightarrow> cus list option" where
  "strip [] ks = Some ks"
| "strip (p # ps) [] = None"
| "strip (p # ps) (k # ks) = (if p = k then strip ps ks else None)"

lemma strip_snoc:
  "strip (pre @ [k]) ks = (case strip pre ks of Some (x # r) \<Rightarrow> if x = k then Some r else None | _ \<Rightarrow> None)"
  by (induction pre ks rule: strip.induct) (auto split: list.splits)

lemma strip_prefix: "strip pre ks = Some r \<longleftrightarrow> ks = pre @ r"
  by (induction pre ks rule: strip.induct) auto

lemma strip_append [simp]: "strip pre (pre @ r) = Some r"
  by (simp add: strip_prefix)

lemma pointer_of_inj: "pointer_of ks = pointer_of ls \<longleftrightarrow> ks = ls"
  by (metis parts_pointer)

lemma number_at_simps [simp]:
  "number_at (JsonNumber t) [] = Some t" "number_at (JsonArray vs) [] = None" "number_at (JsonObject ms) [] = None"
  "number_at JsonNull ks = None" "number_at (JsonBool b) ks = None" "number_at (JsonString s) ks = None"
  "number_at (JsonNumber t) (k # ks) = None"
  "number_at (JsonArray vs) (k # ks) = (if digits_token k \<and> digits_value k < length vs then number_at (vs ! digits_value k) ks else None)"
  "number_at (JsonObject ms) (k # ks) = (case map_of ms k of None \<Rightarrow> None | Some v \<Rightarrow> number_at v ks)"
  by (cases ks; simp add: number_at_def own_member_def split: option.splits)+

lemma scalar_numbers [simp]:
  "Option.bind m (number_at JsonNull) = None" "Option.bind m (number_at (JsonBool b)) = None"
  "Option.bind m (number_at (JsonString s)) = None"
  by (cases m; simp)+

definition or_else :: "'a option \<Rightarrow> 'a option \<Rightarrow> 'a option" where
  "or_else a b = (case a of None \<Rightarrow> b | Some x \<Rightarrow> Some x)"

lemma or_else_simps [simp]: "or_else None b = b" "or_else (Some x) b = Some x"
  by (simp_all add: or_else_def)

lemma lexemes_below:
  "path = pointer_of pre \<Longrightarrow> strict v \<Longrightarrow>
     map_of (add_lexemes path v lx) (pointer_of ks) = or_else (Option.bind (strip pre ks) (number_at v)) (map_of lx (pointer_of ks))"
  "path = pointer_of pre \<Longrightarrow> list_all strict vs \<Longrightarrow>
     map_of (add_items path i vs lx) (pointer_of ks) =
     or_else (case strip pre ks of Some (k # r) \<Rightarrow> if digits_token k \<and> i \<le> digits_value k \<and> digits_value k < i + length vs
                then number_at (vs ! (digits_value k - i)) r else None | _ \<Rightarrow> None) (map_of lx (pointer_of ks))"
  "path = pointer_of pre \<Longrightarrow> distinct (map fst ms) \<Longrightarrow> list_all (\<lambda>(k, v). well_formed k \<and> strict v) ms \<Longrightarrow>
     map_of (add_members path ms lx) (pointer_of ks) =
     or_else (case strip pre ks of Some (k # r) \<Rightarrow> Option.bind (map_of ms k) (\<lambda>v. number_at v r) | _ \<Rightarrow> None) (map_of lx (pointer_of ks))"
proof (induction path v lx and path i vs lx and path ms lx arbitrary: pre and pre and pre
    rule: add_lexemes_add_items_add_members.induct)
  case (1 path n lx)
  show ?case
  proof (cases "strip pre ks")
    case None
    then have "ks \<noteq> pre" using strip_append [of pre "[]"] by auto
    then show ?thesis using 1 None by (simp add: pointer_of_inj)
  next
    case (Some r)
    then have "ks = pre @ r" by (simp add: strip_prefix)
    then show ?thesis using 1 Some by (cases r) (simp_all add: pointer_of_inj del: pointer_of_simps(3))
  qed
next
  case (2 path vs lx)
  then show ?case by (auto split: option.splits list.splits simp: Option.bind_def)
next
  case (3 path ms lx)
  then show ?case by (auto split: option.splits list.splits simp: Option.bind_def)
next
  case (6 path i v vs lx)
  let ?k = "us (to_base 10 i)"
  have k: "digits_token ?k" "digits_value ?k = i" using decimal_text_value by simp_all
  have p: "path @ us ''/'' @ pointer_key ?k = pointer_of (pre @ [?k])" using 6(3) by (simp add: us_def cu_of_def of_char_def)
  note ih = 6(1) [OF p] 6(2) [OF 6(3)]
  show ?case
  proof (cases "strip pre ks")
    case (Some r)
    show ?thesis
    proof (cases r)
      case r: (Cons x r')
      have eq: "x = ?k" if "digits_token x" "digits_value x = i" using that value_decimal [of x] by simp
      show ?thesis
      proof (cases "x = ?k")
        case True
        then show ?thesis using ih 6(4) k Some r by (simp add: strip_snoc)
      next
        case False
        then have "digits_token x \<Longrightarrow> digits_value x \<noteq> i" using eq by blast
        then show ?thesis using ih 6(4) Some r False by (auto simp: strip_snoc nth_Cons' Suc_le_eq)
      qed
    qed (use ih 6(4) Some in \<open>simp add: strip_snoc\<close>)
  qed (use ih 6(4) in \<open>simp add: strip_snoc\<close>)
next
  case (8 path k v ms lx)
  have p: "path @ us ''/'' @ pointer_key k = pointer_of (pre @ [k])" using 8(3) by (simp add: us_def cu_of_def of_char_def)
  note ih = 8(1) [OF p] 8(2) [OF 8(3)]
  show ?case
  proof (cases "strip pre ks")
    case (Some r)
    have "map_of ms k = None" using 8(4) by (simp add: map_of_eq_None_iff)
    then show ?thesis using ih 8(4,5) Some by (cases r) (auto simp: strip_snoc)
  qed (use ih 8(4,5) in \<open>simp add: strip_snoc\<close>)
qed (auto split: option.split list.split)

lemma lexemes_exact: "strict v \<Longrightarrow> map_of (add_lexemes [] v []) (pointer_of ks) = number_at v ks"
  using lexemes_below(1) [of "[]" "[]" v "[]" ks] by (simp add: or_else_def split: option.split)

section \<open>What a passed response satisfies\<close>

definition agrees :: "json \<Rightarrow> json \<Rightarrow> bool" where
  "agrees w e =
     (case (w, e) of
        (JsonNumber t, JsonNumber u) \<Rightarrow> integer_token t \<and> token_int t = token_int u
      | _ \<Rightarrow> w = e)"

definition field_holds :: "json \<Rightarrow> field_check \<Rightarrow> bool" where
  "field_holds body f =
     (\<exists>ks w. fc_pointer f = pointer_of ks \<and> node body ks w \<and> us (value_type w) = fc_type f \<and>
        (case w of JsonNumber t \<Rightarrow> token_finite t | _ \<Rightarrow> True) \<and>
        (case fc_equals f of None \<Rightarrow> True | Some e \<Rightarrow> agrees w e))"

definition field_ok :: "field_check \<Rightarrow> bool" where
  "field_ok f = (pointer_ok (fc_pointer f) \<and> (case fc_equals f of None \<Rightarrow> True | Some e \<Rightarrow> equals_ok (fc_type f) e))"

lemma read_field_ok: "read_field v = Inr f \<Longrightarrow> field_ok f"
  by (auto simp: read_field_def field_ok_def result_simps split: option.splits json.splits)

lemma read_fields_ok: "read_fields v = Inr fs \<Longrightarrow> list_all field_ok fs \<and> length fs \<le> 32"
  by (auto simp: read_fields_def list_all_iff dest: mapE_length mapE_set read_field_ok split: json.splits if_splits)

lemma us_eq_iff: "us a = us b \<longleftrightarrow> a = b"
proof -
  have "inj cu_of"
  proof (rule injI)
    fix c d
    assume "cu_of c = cu_of d"
    moreover have "(of_char c :: nat) < 256" "(of_char d :: nat) < 256" by simp_all
    ultimately show "c = d" by (simp add: cu_of_def word_of_nat_eq_iff take_bit_nat_eq_self)
  qed
  then show ?thesis by (simp add: us_def inj_map_eq_map)
qed

lemma type_names: "us (value_type v) = us ''number'' \<longleftrightarrow> (\<exists>t. v = JsonNumber t)"
  by (cases v) (simp_all add: us_eq_iff)

lemma safe_integer: "safe_integer_token u \<Longrightarrow> integer_token u"
  by (simp add: safe_integer_token_def integer_token_def digits_token_def unsigned_part_def Let_def)

lemma equals_exact:
  assumes "equals_ok ty e" "us (value_type w) = ty" "\<And>t. w = JsonNumber t \<Longrightarrow> m = Some t"
  shows "(ty = us ''number'' \<longrightarrow> equal_tokens m e) \<and> same_value w e \<longleftrightarrow> agrees w e"
proof (cases "\<exists>t. w = JsonNumber t")
  case True
  then obtain t where t: "w = JsonNumber t" "m = Some t" "ty = us ''number''" using assms(2,3) type_names [of w] by auto
  obtain u where u: "e = JsonNumber u" "integer_token u"
    using assms(1) t(3) by (cases e) (simp_all add: equals_ok_def us_eq_iff safe_integer)
  show ?thesis using t u by (auto simp: equal_tokens_def agrees_def integer_rat)
next
  case False
  then have "ty \<noteq> us ''number''" using assms(2) type_names [of w] by auto
  then show ?thesis using assms(1) False by (cases w; cases e) (auto simp: agrees_def equals_ok_def)
qed

lemma check_field_exact:
  assumes "strict body" "field_ok f"
  shows "check_field body (add_lexemes [] body []) f = Inr u \<longleftrightarrow> field_holds body f"
proof -
  let ?ks = "pointer_parts (fc_pointer f)"
  have p: "fc_pointer f = pointer_of ?ks" using assms(2) by (simp add: field_ok_def pointer_parts_of)
  have l: "map_of (add_lexemes [] body []) (fc_pointer f) = number_at body ?ks" using lexemes_exact [OF assms(1), of ?ks] p by simp
  have n: "node body ?ks w \<longleftrightarrow> descend body ?ks = Some w" for w using descend_node [OF assms(1)] by simp
  have k: "fc_pointer f = pointer_of ks \<longleftrightarrow> ks = ?ks" for ks using p pointer_of_inj [of ks ?ks] by auto
  have h: "field_holds body f \<longleftrightarrow> (\<exists>w. descend body ?ks = Some w \<and> us (value_type w) = fc_type f \<and>
      (case w of JsonNumber t \<Rightarrow> token_finite t | _ \<Rightarrow> True) \<and> (case fc_equals f of None \<Rightarrow> True | Some e \<Rightarrow> agrees w e))"
    unfolding field_holds_def k by (simp add: n)
  show ?thesis
  proof (cases "descend body ?ks")
    case None
    then show ?thesis by (simp add: check_field_def h)
  next
    case (Some w)
    have same: "(fc_type f = us ''number'' \<longrightarrow> equal_tokens (number_at body ?ks) e) \<and> same_value w e \<longleftrightarrow> agrees w e"
      if e: "fc_equals f = Some e" "us (value_type w) = fc_type f" for e
      by (rule equals_exact) (use e assms(2) Some in \<open>auto simp: field_ok_def number_at_def\<close>)
    show ?thesis unfolding check_field_def h using Some l same by (auto simp: result_simps split: option.splits json.splits)
  qed
qed

lemma reader_result:
  "capturedClientJSON s = Some (v, lx) \<longleftrightarrow>
     length (utf8 s) \<le> 1048576 \<and> json_tree s = Some v \<and> strict v \<and> height v \<le> 64 \<and> lx = add_lexemes [] v []"
  using scan_is_gated [of "2 * length s + 2" 0 "[]" s "[]" 0 "[]"]
  by (auto simp: capturedClientJSON_def json_tree_def json_parse_def gate_def fits_json_def strict_collapse
      split: option.splits prod.splits if_splits)

lemma config_fields: "capturedClientConfig config request = Inr p \<Longrightarrow> list_all field_ok (po_jsonFields p)"
  by (auto simp: capturedClientConfig_def Let_def bindE_Inr_iff dest: read_fields_ok split: option.splits simp del: first_failure.simps)

definition json_meets :: "client_response \<Rightarrow> field_check list \<Rightarrow> bool" where
  "json_meets r fs =
     (\<exists>body. \<not> rs_body_invalid_utf8 r \<and> length (utf8 (rs_body r)) \<le> 1048576 \<and> json_tree (rs_body r) = Some body \<and>
        strict body \<and> height body \<le> 64 \<and> list_all (field_holds body) fs)"

lemma mapE_unit: "(\<exists>us. mapE f xs = Inr us) \<longleftrightarrow> list_all (\<lambda>x. f x = Inr ()) xs"
  by (induction xs) (auto simp: bindE_Inr_iff)

lemma check_json_exact:
  assumes "list_all field_ok fs"
  shows "check_json r fs = Inr u \<longleftrightarrow> fs = [] \<or> json_meets r fs"
proof (cases "fs = [] \<or> rs_body_invalid_utf8 r")
  case False
  have e: "list_all (\<lambda>f. check_field body (add_lexemes [] body []) f = Inr ()) fs \<longleftrightarrow> list_all (field_holds body) fs" if "strict body" for body
    using assms check_field_exact [OF that] by (auto simp: list_all_iff)
  show ?thesis
  proof (cases "capturedClientJSON (rs_body r)")
    case None
    then have "\<not> json_meets r fs" using reader_result [of "rs_body r"] by (auto simp: json_meets_def)
    then show ?thesis using False None by (simp add: check_json_def)
  next
    case (Some vl)
    then obtain v where v: "capturedClientJSON (rs_body r) = Some (v, add_lexemes [] v [])" "strict v" "json_meets r fs \<longleftrightarrow> list_all (field_holds v) fs"
      using False reader_result [of "rs_body r"] by (cases vl) (auto simp: json_meets_def)
    then show ?thesis using False e [OF v(2)] mapE_unit [of "check_field v (add_lexemes [] v [])" fs] by (auto simp: check_json_def bindE_Inr_iff)
  qed
qed (auto simp: check_json_def json_meets_def)

definition response_meets :: "client_response \<Rightarrow> policy \<Rightarrow> bool" where
  "response_meets r p =
     (\<not> (po_redirectPolicy p = JsonString (us ''error'') \<and> 300 \<le> rs_status r \<and> rs_status r \<le> 399) \<and>
      (po_statuses p = [] \<or> rs_status r \<in> set (po_statuses p)) \<and>
      (case po_contentType p of None \<Rightarrow> True | Some t \<Rightarrow> \<exists>v. content_types r = [v] \<and> media_of v = t) \<and>
      \<not> (checks_configured p \<and> rs_body_truncated r) \<and>
      (po_jsonFields p = [] \<or> json_meets r (po_jsonFields p)))"

text \<open>
  C40. Under an accepted configuration a response passes exactly the checks that were configured:
  the status is accepted and no refused redirect, there is one content type and it is the
  configured one, nothing was truncated, and the body is strict JSON in which every configured
  pointer names a node of the configured type and value. Equal numbers are compared by the tokens
  at the node itself. The result is marked as passed only when checks were configured, and every
  error carries the response marked as not passed.
\<close>

theorem response_checks_exact:
  assumes "capturedClientConfig config request = Inr p"
  shows "if response_meets r p
    then capturedClientValidateResponse r p =
      Inr (r\<lparr>rs_validation := Some \<lparr>va_configured = checks_configured p, va_passed = checks_configured p\<rparr>\<rparr>)
    else \<exists>f. capturedClientValidateResponse r p =
      Inl (f, r\<lparr>rs_validation := Some \<lparr>va_configured = checks_configured p, va_passed = False\<rparr>\<rparr>)"
proof -
  let ?fs = "po_jsonFields p"
  let ?checks = "[(string_is ''error'' (po_redirectPolicy p) \<and> 300 \<le> rs_status r \<and> rs_status r \<le> 399, RedirectRefused),
     (po_statuses p \<noteq> [] \<and> rs_status r \<notin> set (po_statuses p), StatusMismatch),
     (case po_contentType p of None \<Rightarrow> False
      | Some t \<Rightarrow> length (content_types r) \<noteq> 1 \<or> media_of (hd (content_types r)) \<noteq> t, ContentTypeMismatch),
     (checks_configured p \<and> rs_body_truncated r, ResponseTruncated)]"
  have ct: "(length (content_types r) = Suc 0 \<and> media_of (hd (content_types r)) = t) \<longleftrightarrow> (\<exists>v. content_types r = [v] \<and> media_of v = t)" for t
    by (auto simp: length_Suc_conv)
  have m: "bindE (first_failure ?checks) (\<lambda>_. check_json r ?fs) = Inr () \<longleftrightarrow> response_meets r p"
    using ct check_json_exact [OF config_fields [OF assms], of r "()"]
    by (auto simp: response_meets_def string_is_def bindE_Inr_iff first_failure_Inr split: option.splits simp del: first_failure.simps)
  show ?thesis
    using m unfolding capturedClientValidateResponse_def Let_def
    by (cases "bindE (first_failure ?checks) (\<lambda>_. check_json r ?fs)") auto
qed

definition demo_config :: json where
  "demo_config =
     JsonObject [(us ''timeoutMs'', JsonNumber (us ''1000'')),
       (us ''responseChecks'', JsonObject [(us ''jsonFields'', JsonArray [JsonObject
          [(us ''pointer'', JsonString []), (us ''type'', JsonString (us ''string'')), (us ''equals'', JsonString (us ''a''))]])])]"

definition demo_response :: client_response where
  "demo_response = \<lparr>rs_status = 200, rs_headers = [], rs_body = [34, 97, 34], rs_body_invalid_utf8 = False, rs_body_truncated = False,
     rs_validation = None\<rparr>"

definition demo_check :: field_check where
  "demo_check = \<lparr>fc_pointer = [], fc_type = us ''string'', fc_equals = Some (JsonString (us ''a''))\<rparr>"

lemma demo_timeout: "whole (JsonNumber (us ''1000'')) = Some 1000"
  by (simp add: whole_def safe_integer_token_def Let_def us_def cu_of_def of_char_def digits_value_def token_int_def cu_digit_def in_range_def)

lemma demo_text: "us ''a'' = [97]" "length (utf8 [97]) = 1" "length (utf8 [34, 97, 34]) = 3" "pointer_ok []" "well_formed [97]"
  by (simp_all add: us_def cu_of_def of_char_def utf8_def utf8_point_def pointer_ok_def well_formed_def high_surrogate_def in_range_def)

lemma demo_config_accepted:
  "\<exists>p. capturedClientConfig demo_config None = Inr p \<and> po_jsonFields p = [demo_check] \<and> po_statuses p = [] \<and>
     po_contentType p = None \<and> po_redirectPolicy p = JsonString (us ''manual'')"
  by (simp add: capturedClientConfig_def demo_config_def Let_def member_of_def known_object_def or_default_def string_is_def us_eq_iff
    whole_in_def demo_timeout read_statuses_def read_content_type_def read_fields_def read_field_def guardE_def equals_ok_def demo_text
    demo_check_def)

lemma demo_body: "json_tree [34, 97, 34] = Some (JsonString [97])"
proof -
  have "json_value (Suc 7) [34, 97, 34] = Some (JsonString [97], [])" unfolding json_value.simps(2) by (simp add: skip_space_def json_space_def prepend_def)
  then show ?thesis by (simp add: json_tree_def skip_space_def)
qed

theorem response_checks_exact_witness:
  "\<exists>p. capturedClientConfig demo_config None = Inr p \<and>
     capturedClientValidateResponse demo_response p =
       Inr (demo_response\<lparr>rs_validation := Some \<lparr>va_configured = True, va_passed = True\<rparr>\<rparr>)"
proof -
  obtain p where p: "capturedClientConfig demo_config None = Inr p" and fs: "po_jsonFields p = [demo_check]"
    and rest: "po_statuses p = []" "po_contentType p = None" "po_redirectPolicy p = JsonString (us ''manual'')"
    using demo_config_accepted by blast
  have "field_holds (JsonString [97]) demo_check"
    unfolding field_holds_def
    by (rule exI [of _ "[]"], rule exI [of _ "JsonString [97]"]) (simp add: demo_check_def node_simps agrees_def demo_text)
  then have "json_meets demo_response [demo_check]"
    by (simp add: json_meets_def demo_response_def demo_body demo_text)
  then have "response_meets demo_response p" using fs rest by (simp add: response_meets_def demo_response_def us_eq_iff)
  moreover have "checks_configured p" using fs by (simp add: checks_configured_def)
  ultimately show ?thesis using response_checks_exact [OF p, of demo_response] p by simp
qed

end
