(* ===== verification/Spec2Isabelle.thy ===== *)
theory Spec2Isabelle
  imports LedgerClaims CaptureVerdicts Netlog CaptureReport CaptureStartup SourceMapping SourceHighlight SourceHex SourceSearchClaims VmStaticClaims VmReportClaims VmLedger CapturedZip CapturedPolicy
begin

text \<open>
  A verification development for the analysis core of the reverse engineering browser: the
  JavaScript under \<open>src/apps/research-ui\<close> and \<open>src/tools\<close> that keeps, compares, displays and
  exports captured evidence.

  \<^bold>\<open>The program.\<close> The browser records network events, scripts and binaries of a page. Two groups of
  programs read them. The capture-completeness tools (\<open>src/tools\<close>) run an authored fixture, observe
  it a second time through an independent debugger connection, and decide whether the capture is
  complete: a ledger of hops, a comparator with the captured rows, a cross-check against a network
  log, and a sanitizer for the published report. The research UI shows retained sources (windows,
  pretty printing, highlighting, hex view, find and search), analyses programs of user defined
  virtual machines, and exports one observed request as a client project. The parts meet in data:
  response evidence is a part of the ledger's snapshot, the comparator and the netlog check read the
  ledger's hops, the sanitizer reads all reports; the pretty printer's segments are what the source
  mapping maps through, and Find and search share the document index; traces, static analyses and
  opcode ledgers refer to the same definition of a virtual machine; the policy of an exported client
  reads with the strict JSON reader.

  \<^bold>\<open>Theories and code.\<close>
  \<^item> Foundations. \<open>Prelude\<close>: results with thrown errors (\<open>bindE\<close>, \<open>mapE\<close>, \<open>foldE\<close>,
    \<open>first_failure\<close>), insertion-ordered maps, slices of lists, the named collections. \<open>JsValue\<close>: the
    dynamic values of untrusted documents. \<open>TextPatterns\<close>: regular expressions and \<open>split\<close> of the
    tools. \<open>SourceText\<close>: texts of 16-bit units and a backtracking matcher. \<open>Digits\<close>: \<open>toString\<close>.
    \<open>Machine\<close>: locales for step functions.
  \<^item> \<open>capture-completeness-response-evidence.mjs\<close>: \<open>ResponseEvidence\<close> (log, projection, sanitizer).
  \<^item> \<open>capture-completeness-reference.mjs\<close>: \<open>ReferenceLedger\<close> (every method of the class),
    \<open>LedgerInvariant\<close>, \<open>LedgerClaims\<close>; \<open>CompareCapture\<close>; \<open>CaptureVerdicts\<close> (verdicts, identity tracker,
    and the vocabulary of \<open>capture-completeness-fixture.mjs\<close>).
  \<^item> \<open>capture-completeness-netlog.mjs\<close>: \<open>Netlog\<close>. \<open>sanitize-capture-completeness-report.mjs\<close>:
    \<open>CaptureReport\<close>. \<open>capture-completeness-startup.mjs\<close>: \<open>CaptureStartup\<close>, a step relation over the
    interleavings of two initializers and a deadline.
  \<^item> \<open>source_syntax.js\<close>: \<open>SourceDocument\<close> (index, positions, windows, excerpts), \<open>SourceLexer\<close>,
    \<open>PrettyWriter\<close>, \<open>PrettyPrint\<close>, \<open>PrettyMarkup\<close> (\<open>prettyPrintSource\<close> and its parts), \<open>SourceMapping\<close>
    (offsets of derived texts), \<open>SourceHighlight\<close>, \<open>SourceHex\<close>, \<open>SourceFind\<close>.
  \<^item> \<open>source_search.js\<close>: \<open>SourceSearch\<close>, \<open>SourceSearchClaims\<close>; the asynchronous search is a machine
    whose steps are the stretches between two awaits.
  \<^item> \<open>vm_static.js\<close>: \<open>VmData\<close>, \<open>VmDefinition\<close>, \<open>VmStatic\<close>, \<open>VmStaticClaims\<close>. \<open>vm_semantics.js\<close>: \<open>VmTrace\<close>,
    \<open>VmReports\<close>, \<open>VmReportClaims\<close>. \<open>vm_opcode_ledger.js\<close>: \<open>VmLedger\<close>.
  \<^item> \<open>captured_client.js\<close>: \<open>CapturedJson\<close> (\<open>capturedClientJSON\<close>, \<open>capturedClientInputJSON\<close>),
    \<open>CapturedPolicy\<close> (\<open>capturedClientConfig\<close>, \<open>capturedClientValidateResponse\<close>), \<open>CapturedZip\<close>
    (\<open>capturedClientZip\<close>).

  \<^bold>\<open>How the model follows the code.\<close> A class or closure with state is a record, and each of its methods a
  function on it; a thrown error is \<open>Inl\<close>, \<open>null\<close> or \<open>undefined\<close> is \<open>None\<close>; a chain of early returns is
  a list of checks read by \<open>first_failure\<close>; a \<open>Map\<close> or \<open>Set\<close> is a list in insertion order; an object
  shared by reference is an index into the list that owns it. Documents that cross a trust boundary
  stay values of the type \<open>js\<close> (or \<open>json\<close>), and every \<open>typeof\<close> test is a branch. Code outside the
  repository is an argument with its documented behaviour: the URL parser, SHA-256 (which throws
  where WebCrypto is missing), the text of a number, the case folding table (\<open>canon\<close>), the document parser of the virtual machine theories, the
  reader of artifacts, the clock.

  \<^bold>\<open>What is proved.\<close>
  \<^item> Capture completeness: the log keeps its limits and its projection is accepted unchanged by
    the sanitizer; the ledger invariant holds on every run, nothing is dropped without a gap, and
    sessions do not disturb each other; every hop and row is counted once, and a pass verdict is a
    one-to-one correspondence; the tracker pins an identity; the single pass over a network log
    computes the counts of an order-insensitive specification; the members and strings of a
    sanitized report have the published forms, and its leaves but two are those of its input at
    the same path; starting the observers returns or throws only after all have settled, and until
    a failure or the deadline it can still return.
  \<^item> Sources: positions equal a count of line breaks; windows mount their target; tokens tile the
    text; pretty printing changes white space only and its segments map every offset (for markup,
    of texts without U+0130 that do not end in a backslash: \<open>markup_escape_overrun\<close> shows that the
    latter matters); the binary search equals a linear one, and the windowed map equals the full
    one on ordered segments; highlighting keeps every line; the hex view can be read back; what Find
    reports is an occurrence, and in an untruncated result every occurrence is covered; snippets mark
    the text that was found; a search keeps its budgets with exact counters in every reachable
    state, drops late results, and ends.
  \<^item> Virtual machines: accepted documents are well formed; decoding tiles the image; operands
    encode back; reachability is the closure of the edges; accepted inputs have an analysis when
    their digests can be computed;
    predictions are bounded states; candidates are the hypotheses that validate; a ledger report
    accounts for every opcode and entry.
  \<^item> Client export: the strict reader accepts exactly the texts of the JSON grammar without
    repeated names, unpaired surrogates or deep nesting, up to 1 MiB; an archive whose paths are
    shorter than 65536 bytes reads back to its files; a
    response passes exactly the configured checks.

  \<^bold>\<open>Contracts.\<close> \<open>machine\<close>, \<open>latching_machine\<close>, \<open>appending_machine\<close> and \<open>accounting_machine\<close> (theory
  \<open>Machine\<close>) state what a run of steps keeps; the evidence log, the ledger, the tracker and the
  comparator interpret them. \<open>token_writer\<close> and \<open>printer\<close> (theory \<open>PrettyPrint\<close>) are what a printer
  may assume of the writer, interpreted by the three printers on \<open>createSourcePrettyWriter\<close>.
  \<open>line_scanner\<close> (theory \<open>SourceHighlight\<close>) is the contract of a scanning step, interpreted by the
  five tokenizers of a line.

  \<^bold>\<open>Bounds and fuel.\<close> Loops end by a measure where the code's own loop does. Three functions have an
  explicit bound. \<open>decode_loop\<close> counts down the instruction limit that the code counts up to. The JSON
  grammar and the scanner bound the depth of calls by \<open>2 * length s + 2\<close>; every call pair consumes a
  unit, and \<open>strict_reader_exact\<close> states that every larger bound reads the same value. The file,
  byte, match and time limits are the constants of the code.

  \<^bold>\<open>Abstractions.\<close> Numbers are rationals, infinities or NaN with one zero: \<open>-0\<close> and rounding of
  non-integers do not occur in the modelled paths. The tools' strings are strings of 8-bit
  characters standing for code units, since the tools only compare and measure them; sources
  and JSON texts have 16-bit units. The callbacks of a search and the DOM do not re-enter the
  model. Property order and prototypes are observed only where the code observes them; a value
  that is not plain data (accessors, cycles) has no counterpart.

  \<^bold>\<open>Not modelled.\<close> \<open>app.js\<close>, the panels and the console are DOM construction around the modelled
  functions. \<open>evidence_models.js\<close>, \<open>evidence_package.js\<close>, \<open>evidence_comparison.js\<close>, \<open>captured_export_formats.js\<close>
  and the \<open>vm_contextual\<close> files combine retained records with fetch, digests and storage. The text entry
  of \<open>document\<close> in \<open>vm_static.js\<close> and the digests, which may throw, are arguments, because those theories keep strings of
  8-bit characters. Of \<open>capture-completeness-netlog.mjs\<close> and the sanitizer, file and process access is
  left out. The check scripts under \<open>src/tools/check-*\<close> and the demonstration pages are tests; the Rust,
  C++ and Swift code is another language, known here only by its messages.
\<close>

end
